(* ===== verification/Bv_Prelude.thy ===== *)
theory Bv_Prelude
  imports Main "HOL-Library.Word" "HOL-Library.Char_ord" "HOL-Library.List_Lexorder"
begin

text \<open>
  The vocabulary the component theories share. Go's \<open>[]byte\<close> is a list of 8-bit words,
  Go's \<open>string\<close> is a list of \<open>char\<close> (a \<open>char\<close> is one byte), and \<open>bytes_of_str\<close> /
  \<open>str_of_bytes\<close> are the conversions between the two. A Go \<open>(T, error)\<close> result is a sum
  \<open>'e + 'a\<close> with the error on the left, threaded by \<open>res_bind\<close>. The rest are the parts of
  the Go standard library the sources call: \<open>strings\<close>, \<open>sort\<close>, \<open>encoding/hex\<close> and
  \<open>encoding/binary\<close>, each as a function that computes.
\<close>

named_theorems bv_simps \<open>equations the component proofs unfold\<close>
named_theorems bv_dest \<open>destruction facts on results\<close>

type_synonym byte = "8 word"
type_synonym bytes = "byte list"

section \<open>Signed 64-bit integers\<close>

text \<open>Arithmetic on 64-bit signed integers wraps; the difference of two instants saturates.\<close>

definition wrap64 :: "int \<Rightarrow> int" where
  "wrap64 x = (x + 2 ^ 63) mod 2 ^ 64 - 2 ^ 63"

definition sat64 :: "int \<Rightarrow> int" where
  "sat64 x = max (- (2 ^ 63)) (min (2 ^ 63 - 1) x)"

lemma wrap64_id: "- (2 ^ 63) \<le> x \<Longrightarrow> x < 2 ^ 63 \<Longrightarrow> wrap64 x = x"
  by (simp add: wrap64_def)

lemma sat64_id: "- (2 ^ 63) \<le> x \<Longrightarrow> x < 2 ^ 63 \<Longrightarrow> sat64 x = x"
  by (simp add: sat64_def)

lemma sat64_sign: "sat64 x \<le> 0 \<longleftrightarrow> x \<le> 0" "0 < sat64 x \<longleftrightarrow> 0 < x"
  by (auto simp: sat64_def)

section \<open>Results\<close>

fun res_bind :: "'e + 'a \<Rightarrow> ('a \<Rightarrow> 'e + 'b) \<Rightarrow> 'e + 'b" where
  "res_bind (Inl e) f = Inl e"
| "res_bind (Inr x) f = f x"

lemma res_bind_Inr [simp]: "(res_bind m f = Inr y) \<longleftrightarrow> (\<exists>x. m = Inr x \<and> f x = Inr y)"
  by (cases m) auto

lemma res_bind_Inl: "(res_bind m f = Inl e) \<longleftrightarrow> (m = Inl e \<or> (\<exists>x. m = Inr x \<and> f x = Inl e))"
  by (cases m) auto

fun res_ok :: "'e + 'a \<Rightarrow> bool" where
  "res_ok (Inl _) = False"
| "res_ok (Inr _) = True"

lemma res_ok_iff: "res_ok r \<longleftrightarrow> (\<exists>x. r = Inr x)"
  by (cases r) auto

section \<open>Lists\<close>

lemma take_append_exact [simp]: "length xs = n \<Longrightarrow> take n (xs @ ys) = xs"
  by simp

lemma drop_append_exact [simp]: "length xs = n \<Longrightarrow> drop n (xs @ ys) = ys"
  by simp

lemma nth_append_exact: "length xs = n \<Longrightarrow> (xs @ y # ys) ! n = y"
  by (simp add: nth_append)

lemma drop_eq_append_take: "n + k \<le> length xs \<Longrightarrow> drop n xs = take k (drop n xs) @ drop (n + k) xs"
  by (metis append_take_drop_id drop_drop add.commute)

text \<open>\<open>sort.Slice\<close> and \<open>sort.Strings\<close>: the list sorted by a key.\<close>

abbreviation sort_by :: "('a \<Rightarrow> 'k::linorder) \<Rightarrow> 'a list \<Rightarrow> 'a list" where
  "sort_by f xs \<equiv> sort_key f xs"

text \<open>Strictly ascending keys: what the sources test with \<open>bytes.Compare(prev, cur) >= 0\<close>.\<close>

fun strictly_ascending :: "'a::linorder list \<Rightarrow> bool" where
  "strictly_ascending [] = True"
| "strictly_ascending [x] = True"
| "strictly_ascending (x # y # zs) = (x < y \<and> strictly_ascending (y # zs))"

lemma strictly_ascending_iff: "strictly_ascending xs \<longleftrightarrow> sorted_wrt (<) xs"
  by (induction xs rule: strictly_ascending.induct) (auto intro: less_trans)

lemma strictly_ascending_distinct: "strictly_ascending xs \<Longrightarrow> distinct xs"
  by (simp add: strictly_ascending_iff strict_sorted_iff)

lemma strictly_ascending_sorted: "strictly_ascending xs \<Longrightarrow> sorted xs"
  by (simp add: strictly_ascending_iff strict_sorted_iff)

lemma sorted_distinct_strictly_ascending: "sorted xs \<Longrightarrow> distinct xs \<Longrightarrow> strictly_ascending xs"
  by (simp add: strictly_ascending_iff strict_sorted_iff)

lemma map_sort_by_sorted: "sorted (map f (sort_by f xs))"
  by simp

section \<open>Bytes and strings\<close>

definition bytes_of_str :: "string \<Rightarrow> bytes" where
  "bytes_of_str s = map (\<lambda>c. of_nat (of_char c)) s"

definition str_of_bytes :: "bytes \<Rightarrow> string" where
  "str_of_bytes b = map (\<lambda>w. char_of (unat w)) b"

lemma unat_lt_pow: "unat (w :: 'a::len word) < 2 ^ LENGTH('a)"
  by (fact unsigned_less)

lemma unat_byte_less [simp]: "unat (b::byte) < 256"
  using unat_lt_pow [of b] by simp

lemma nat_of_char_less [simp]: "(of_char (c::char) :: nat) < 256"
  using of_char_mod_256 [of c, where 'a = nat] by (metis mod_less_divisor zero_less_numeral)

lemma char_byte_char [simp]: "of_nat (of_char (char_of (unat (w::byte)) :: char)) = w"
  by (simp add: mod_less)

lemma unat_of_nat_of_char [simp]: "unat (of_nat (of_char (c::char)) :: byte) = of_char c"
  by (simp add: unat_of_nat)

lemma str_of_bytes_of_str [simp]: "str_of_bytes (bytes_of_str s) = s"
  by (simp add: str_of_bytes_def bytes_of_str_def comp_def)

lemma bytes_of_str_of_bytes [simp]: "bytes_of_str (str_of_bytes b) = b"
  by (simp add: str_of_bytes_def bytes_of_str_def comp_def mod_less map_idI)

lemma length_bytes_of_str [simp]: "length (bytes_of_str s) = length s"
  by (simp add: bytes_of_str_def)

lemma length_str_of_bytes [simp]: "length (str_of_bytes b) = length b"
  by (simp add: str_of_bytes_def)

lemma bytes_of_str_append [simp]: "bytes_of_str (s @ t) = bytes_of_str s @ bytes_of_str t"
  by (simp add: bytes_of_str_def)

lemma str_of_bytes_append [simp]: "str_of_bytes (a @ b) = str_of_bytes a @ str_of_bytes b"
  by (simp add: str_of_bytes_def)

lemma bytes_of_str_inject [simp]: "bytes_of_str s = bytes_of_str t \<longleftrightarrow> s = t"
  by (metis str_of_bytes_of_str)

lemma str_of_bytes_inject [simp]: "str_of_bytes s = str_of_bytes t \<longleftrightarrow> s = t"
  by (metis bytes_of_str_of_bytes)

lemma str_less [simp]:
  "(x # xs < (y # ys :: string)) = (if x = y then xs < ys else (of_char x :: nat) < of_char y)"
  "([] < (y # ys :: string)) = True" "\<not> (ys < ([] :: string))"
  by (auto simp: less_char_def)

section \<open>The strings package\<close>

definition has_prefix :: "'a list \<Rightarrow> 'a list \<Rightarrow> bool" where
  "has_prefix s p \<longleftrightarrow> take (length p) s = p"

definition has_suffix :: "'a list \<Rightarrow> 'a list \<Rightarrow> bool" where
  "has_suffix s p \<longleftrightarrow> length p \<le> length s \<and> drop (length s - length p) s = p"

definition trim_prefix :: "'a list \<Rightarrow> 'a list \<Rightarrow> 'a list" where
  "trim_prefix s p = (if has_prefix s p then drop (length p) s else s)"

definition trim_suffix :: "'a list \<Rightarrow> 'a list \<Rightarrow> 'a list" where
  "trim_suffix s p = (if has_suffix s p then take (length s - length p) s else s)"

text \<open>\<open>strings.Index\<close>: the first position where \<open>p\<close> occurs.\<close>

fun str_index :: "'a list \<Rightarrow> 'a list \<Rightarrow> nat option" where
  "str_index [] p = (if p = [] then Some 0 else None)"
| "str_index (c # s) p = (if has_prefix (c # s) p then Some 0 else map_option Suc (str_index s p))"

definition str_contains :: "'a list \<Rightarrow> 'a list \<Rightarrow> bool" where
  "str_contains s p \<longleftrightarrow> str_index s p \<noteq> None"

text \<open>\<open>strings.Split\<close> with a one-character separator: always at least one field.\<close>

fun str_split :: "'a \<Rightarrow> 'a list \<Rightarrow> 'a list list" where
  "str_split c [] = [[]]"
| "str_split c (x # xs) =
     (if x = c then [] # str_split c xs
      else (case str_split c xs of [] \<Rightarrow> [[x]] | f # fs \<Rightarrow> (x # f) # fs))"

fun str_join :: "'a list \<Rightarrow> 'a list list \<Rightarrow> 'a list" where
  "str_join sep [] = []"
| "str_join sep [x] = x"
| "str_join sep (x # y # zs) = x @ sep @ str_join sep (y # zs)"

lemma has_prefix_append [simp]: "has_prefix (p @ s) p"
  by (simp add: has_prefix_def)

lemma has_prefix_iff: "has_prefix s p \<longleftrightarrow> (\<exists>t. s = p @ t)"
  by (metis append_take_drop_id has_prefix_append has_prefix_def)

lemma has_suffix_append [simp]: "has_suffix (s @ p) p"
  by (simp add: has_suffix_def)

lemma has_suffix_iff: "has_suffix s p \<longleftrightarrow> (\<exists>t. s = t @ p)"
  by (metis append_take_drop_id has_suffix_append has_suffix_def)

lemma trim_prefix_append [simp]: "trim_prefix (p @ s) p = s"
  by (simp add: trim_prefix_def)

lemma trim_suffix_append [simp]: "trim_suffix (s @ p) p = s"
  by (simp add: trim_suffix_def)

lemma str_split_nonempty [simp]: "str_split c s \<noteq> []"
  by (induction s) (auto split: list.splits)

lemma str_join_split: "str_join [c] (str_split c s) = s"
proof (induction s)
  case (Cons x xs)
  obtain f fs where fs: "str_split c xs = f # fs"
    by (meson neq_Nil_conv str_split_nonempty)
  with Cons show ?case
    by (cases fs) auto
qed simp

lemma str_split_no_sep: "f \<in> set (str_split c s) \<Longrightarrow> c \<notin> set f"
proof (induction s arbitrary: f)
  case (Cons x xs)
  then show ?case
    by (cases "str_split c xs") (auto split: if_splits)
qed simp

section \<open>The hex package\<close>

definition hex_digit :: "nat \<Rightarrow> char" where
  "hex_digit n = (if n < 10 then char_of (48 + n) else char_of (87 + n))"

definition hex_val :: "char \<Rightarrow> nat option" where
  "hex_val c = (let n = of_char c in
     if 48 \<le> n \<and> n \<le> 57 then Some (n - 48)
     else if 97 \<le> n \<and> n \<le> 102 then Some (n - 87)
     else if 65 \<le> n \<and> n \<le> 70 then Some (n - 55)
     else None)"

fun hex_encode :: "bytes \<Rightarrow> string" where
  "hex_encode [] = []"
| "hex_encode (b # bs) = hex_digit (unat b div 16) # hex_digit (unat b mod 16) # hex_encode bs"

fun hex_decode :: "string \<Rightarrow> bytes option" where
  "hex_decode [] = Some []"
| "hex_decode [c] = None"
| "hex_decode (c # d # s) =
     (case (hex_val c, hex_val d) of
        (Some h, Some l) \<Rightarrow> map_option (Cons (of_nat (16 * h + l))) (hex_decode s)
      | _ \<Rightarrow> None)"

definition is_lower_hex :: "char \<Rightarrow> bool" where
  "is_lower_hex c \<longleftrightarrow> (let n = (of_char c :: nat) in (48 \<le> n \<and> n \<le> 57) \<or> (97 \<le> n \<and> n \<le> 102))"

lemma hex_val_digit: "n < 16 \<Longrightarrow> hex_val (hex_digit n) = Some n"
  by (auto simp: hex_val_def hex_digit_def take_bit_nat_eq_self)

lemma is_lower_hex_digit: "n < 16 \<Longrightarrow> is_lower_hex (hex_digit n)"
  by (auto simp: is_lower_hex_def hex_digit_def take_bit_nat_eq_self)

lemma byte_split: "of_nat (16 * (unat (b::byte) div 16) + unat b mod 16) = b"
  by simp

lemma hex_decode_encode [simp]: "hex_decode (hex_encode b) = Some b"
proof (induction b)
  case (Cons x xs)
  have "unat x div 16 < 16"
    using unat_byte_less [of x] by linarith
  with Cons show ?case
    by (simp add: hex_val_digit del: of_nat_add of_nat_mult)
qed simp

lemma length_hex_encode [simp]: "length (hex_encode b) = 2 * length b"
  by (induction b) auto

lemma hex_encode_lower: "c \<in> set (hex_encode b) \<Longrightarrow> is_lower_hex c"
proof (induction b)
  case (Cons x xs)
  have "unat x div 16 < 16"
    using unat_byte_less [of x] by linarith
  with Cons show ?case
    by (auto simp: is_lower_hex_digit)
qed simp

lemma hex_encode_inject [simp]: "hex_encode a = hex_encode b \<longleftrightarrow> a = b"
  by (metis hex_decode_encode option.inject)

section \<open>The binary package\<close>

primrec le_nat :: "bytes \<Rightarrow> nat" where
  "le_nat [] = 0"
| "le_nat (b # bs) = unat b + 256 * le_nat bs"

primrec nat_le :: "nat \<Rightarrow> nat \<Rightarrow> bytes" where
  "nat_le 0 n = []"
| "nat_le (Suc k) n = of_nat (n mod 256) # nat_le k (n div 256)"

text \<open>\<open>binary.LittleEndian.Uint32\<close> and \<open>PutUint32\<close>, and the big-endian readers and writers.\<close>

definition le_u32 :: "bytes \<Rightarrow> 32 word" where
  "le_u32 b = of_nat (le_nat (take 4 b))"

definition put_le_u32 :: "32 word \<Rightarrow> bytes" where
  "put_le_u32 w = nat_le 4 (unat w)"

definition be_u16 :: "bytes \<Rightarrow> 16 word" where
  "be_u16 b = of_nat (le_nat (rev (take 2 b)))"

definition put_be_u16 :: "16 word \<Rightarrow> bytes" where
  "put_be_u16 w = rev (nat_le 2 (unat w))"

definition be_u32 :: "bytes \<Rightarrow> 32 word" where
  "be_u32 b = of_nat (le_nat (rev (take 4 b)))"

definition put_be_u32 :: "32 word \<Rightarrow> bytes" where
  "put_be_u32 w = rev (nat_le 4 (unat w))"

definition be_u64 :: "bytes \<Rightarrow> 64 word" where
  "be_u64 b = of_nat (le_nat (rev (take 8 b)))"

definition put_be_u64 :: "64 word \<Rightarrow> bytes" where
  "put_be_u64 w = rev (nat_le 8 (unat w))"

lemma length_nat_le [simp]: "length (nat_le k n) = k"
  by (induction k arbitrary: n) auto

lemma le_nat_nat_le: "le_nat (nat_le k n) = n mod 256 ^ k"
proof (induction k arbitrary: n)
  case (Suc k)
  have "unat (of_nat (n mod 256) :: byte) = n mod 256"
    by (simp add: unat_of_nat)
  with Suc show ?case
    by (simp add: mod_mult2_eq)
qed simp

lemma le_nat_less: "le_nat b < 256 ^ length b"
proof (induction b)
  case (Cons x xs)
  then have "le_nat xs + 1 \<le> 256 ^ length xs" by simp
  then have "256 * (le_nat xs + 1) \<le> 256 * 256 ^ length xs" by (rule mult_le_mono2)
  then show ?case using unat_byte_less [of x] by (simp del: unat_byte_less)
qed simp

lemma length_put [simp]:
  "length (put_le_u32 w) = 4" "length (put_be_u16 w2) = 2"
  "length (put_be_u32 w) = 4" "length (put_be_u64 w8) = 8"
  by (simp_all add: put_le_u32_def put_be_u16_def put_be_u32_def put_be_u64_def)

lemma le_u32_put [simp]: "le_u32 (put_le_u32 w @ r) = w" "le_u32 (put_le_u32 w) = w"
  using unat_lt_pow [of w]
  by (simp_all add: le_u32_def put_le_u32_def le_nat_nat_le)

lemma be_u16_put [simp]: "be_u16 (put_be_u16 w @ r) = w" "be_u16 (put_be_u16 w) = w"
  using unat_lt_pow [of w]
  by (simp_all add: be_u16_def put_be_u16_def le_nat_nat_le)

lemma be_u32_put [simp]: "be_u32 (put_be_u32 w @ r) = w" "be_u32 (put_be_u32 w) = w"
  using unat_lt_pow [of w]
  by (simp_all add: be_u32_def put_be_u32_def le_nat_nat_le)

lemma be_u64_put [simp]: "be_u64 (put_be_u64 w @ r) = w" "be_u64 (put_be_u64 w) = w"
  using unat_lt_pow [of w]
  by (simp_all add: be_u64_def put_be_u64_def le_nat_nat_le)

text \<open>Code equations that stay within machine words.\<close>

primrec le_word :: "bytes \<Rightarrow> 'a::len word" where
  "le_word [] = 0"
| "le_word (b # bs) = ucast b + 256 * le_word bs"

lemma le_word_nat: "(le_word bs :: 'a::len word) = of_nat (le_nat bs)"
proof (induction bs)
  case (Cons b bs)
  have "(ucast b :: 'a word) = of_nat (unat b)" by (simp add: unsigned_of_nat)
  with Cons show ?case by simp
qed simp

lemma of_nat_mod_byte: "(of_nat (n mod 256) :: byte) = of_nat n"
proof -
  have "unat (of_nat (n mod 256) :: byte) = unat (of_nat n :: byte)"
    by (simp add: unat_of_nat)
  then show ?thesis by (simp only: word_unat_eq_iff)
qed

lemma nat_le_drop:
  "nat_le k (unat (w :: 'a::len word)) = map (\<lambda>i. ucast (drop_bit (8 * i) w)) [0..<k]"
proof -
  have div: "nat_le k n = map (\<lambda>i. of_nat (n div 256 ^ i)) [0..<k]" for n
  proof (induction k arbitrary: n)
    case (Suc k)
    have "[0..<Suc k] = 0 # map Suc [0..<k]" by (simp add: upt_conv_Cons map_Suc_upt)
    moreover have "(of_nat (n mod 256) :: byte) = of_nat n"
      by (rule of_nat_mod_byte)
    ultimately show ?case using Suc by (simp add: div_mult2_eq comp_def)
  qed simp
  have "(of_nat (unat w div 256 ^ i) :: byte) = ucast (drop_bit (8 * i) w)" for i
  proof -
    have u: "unat (drop_bit (8 * i) w) = unat w div 256 ^ i"
      by (simp only: unat_drop_bit_eq) (simp add: drop_bit_eq_div power_mult)
    have "(of_nat (unat (drop_bit (8 * i) w)) :: byte) = ucast (drop_bit (8 * i) w)"
      by (rule of_nat_unat)
    then show ?thesis unfolding u .
  qed
  with div show ?thesis by simp
qed

lemmas word_io_code [code] =
  le_u32_def [folded le_word_nat] be_u16_def [folded le_word_nat] be_u32_def [folded le_word_nat]
  be_u64_def [folded le_word_nat]
  put_le_u32_def [unfolded nat_le_drop] put_be_u16_def [unfolded nat_le_drop]
  put_be_u32_def [unfolded nat_le_drop] put_be_u64_def [unfolded nat_le_drop]

section \<open>Object ids\<close>

text \<open>The sentinel \<open>oidconst.NullOIDHex\<close>: forty zeros, no object.\<close>

definition NullOIDHex :: string where "NullOIDHex = replicate 40 (CHR ''0'')"

section \<open>Choices of the scheduler\<close>

text \<open>The order in which goroutines get to run and in which Go iterates over a map is not fixed by
  the sources. A list of numbers stands for the choices made: each picks the next element among
  those left, so every list gives a permutation and every permutation is given by some list.\<close>

fun permute :: "nat list \<Rightarrow> 'a list \<Rightarrow> 'a list" where
  "permute [] xs = xs"
| "permute (n # ns) [] = []"
| "permute (n # ns) (x # xs) =
     (let ys = x # xs; i = n mod length ys in ys ! i # permute ns (take i ys @ drop (Suc i) ys))"

lemma set_permute [simp]: "set (permute ns xs) = set xs"
proof (induction ns xs rule: permute.induct)
  case (3 n ns x xs)
  let ?ys = "x # xs" and ?i = "n mod length (x # xs)"
  have i: "?i < length ?ys" by simp
  have "set ?ys = set (take ?i ?ys @ ?ys ! ?i # drop (Suc ?i) ?ys)"
    using id_take_nth_drop [OF i] by simp
  with 3 [OF refl refl] show ?case by (simp only: permute.simps Let_def) auto
qed auto

lemma distinct_permute [simp]: "distinct xs \<Longrightarrow> distinct (permute ns xs)"
proof (induction ns xs rule: permute.induct)
  case (3 n ns x xs)
  let ?ys = "x # xs" and ?i = "n mod length (x # xs)"
  have i: "?i < length ?ys" by simp
  have "distinct (take ?i ?ys @ ?ys ! ?i # drop (Suc ?i) ?ys)"
    using 3(2) id_take_nth_drop [OF i] by simp
  with 3(1) [OF refl refl] show ?case by (simp only: permute.simps Let_def) auto
qed auto

end
