(* ===== verification/Pkt_Line.thy ===== *)
theory Pkt_Line
  imports Bv_Prelude
begin

text \<open>
  Git's pkt-line framing (\<open>internal/pktline\<close>): the frame reader, the frame writer and the
  side-band multiplexer. An \<open>io.Reader\<close> is the bytes still to come together with the way it
  ends (end of file or another error); an \<open>io.Writer\<close> is the bytes written so far together
  with a script of the outcomes of its next \<open>Write\<close> calls. The payload of a data token is
  returned by value, the bytes it has when \<open>Read\<close> returns.
\<close>

section \<open>Streams\<close>

datatype io_error = EOF | ErrUnexpectedEOF | IOFail nat

record reader =
  pending :: bytes
  ends_with :: io_error

text \<open>\<open>io.ReadFull\<close>: exactly \<open>n\<close> bytes, or the number read and why it stopped.\<close>

definition read_full :: "nat \<Rightarrow> reader \<Rightarrow> (nat \<times> io_error + bytes) \<times> reader" where
  "read_full n r =
     (let got = take n (pending r); r' = r\<lparr>pending := drop n (pending r)\<rparr> in
      if length got = n then (Inr got, r')
      else (Inl (length got,
                 if ends_with r = EOF \<and> got \<noteq> [] then ErrUnexpectedEOF else ends_with r), r'))"

text \<open>The script of a writer: \<open>None\<close> is a \<open>Write\<close> that succeeds, \<open>Some k\<close> one that fails after
  \<open>k\<close> bytes; past the end of the script every \<open>Write\<close> succeeds.\<close>

record writer =
  out :: bytes
  script :: "nat option list"

definition io_write :: "bytes \<Rightarrow> writer \<Rightarrow> bool \<times> writer" where
  "io_write p w =
     (case script w of
        [] \<Rightarrow> (True, w\<lparr>out := out w @ p\<rparr>)
      | None # sc \<Rightarrow> (True, w\<lparr>out := out w @ p, script := sc\<rparr>)
      | Some k # sc \<Rightarrow> (False, w\<lparr>out := out w @ take k p, script := sc\<rparr>))"

section \<open>Frames\<close>

definition MaxPayload :: nat where "MaxPayload = 65516"

datatype TokenType = Data | Flush | Delim | ResponseEnd

record Token =
  Type :: TokenType
  Payload :: bytes

datatype pkt_error =
    PktEOF
  | PktReadLength io_error
  | PktMalformedHex string
  | PktInvalidLength nat
  | PktTooLong nat
  | PktReadPayload io_error

definition pkt_read :: "reader \<Rightarrow> (pkt_error + Token) \<times> reader" where
  "pkt_read r =
     (case read_full 4 r of
        (Inl (n, err), r1) \<Rightarrow>
          if err = EOF \<and> n = 0 then (Inl PktEOF, r1) else (Inl (PktReadLength err), r1)
      | (Inr hdr, r1) \<Rightarrow>
          (case hex_decode (str_of_bytes hdr) of
             None \<Rightarrow> (Inl (PktMalformedHex (str_of_bytes hdr)), r1)
           | Some lenBytes \<Rightarrow>
               (let frameLen = unat (lenBytes ! 0) * 256 + unat (lenBytes ! 1) in
                if frameLen = 0 then (Inr \<lparr>Type = Flush, Payload = []\<rparr>, r1)
                else if frameLen = 1 then (Inr \<lparr>Type = Delim, Payload = []\<rparr>, r1)
                else if frameLen = 2 then (Inr \<lparr>Type = ResponseEnd, Payload = []\<rparr>, r1)
                else if frameLen < 4 then (Inl (PktInvalidLength frameLen), r1)
                else if frameLen > MaxPayload + 4 then (Inl (PktTooLong frameLen), r1)
                else (case read_full (frameLen - 4) r1 of
                        (Inl (n, err), r2) \<Rightarrow>
                          (Inl (PktReadPayload (if err = EOF then ErrUnexpectedEOF else err)), r2)
                      | (Inr p, r2) \<Rightarrow> (Inr \<lparr>Type = Data, Payload = p\<rparr>, r2)))))"

definition hexNibble :: "byte \<Rightarrow> byte" where
  "hexNibble n = (if n < 10 then 48 + n else 97 + (n - 10))"

datatype write_error = PayloadTooLarge nat | WriteHeader | WritePayload | WriteMarker

definition frame_header :: "nat \<Rightarrow> bytes" where
  "frame_header frameLen =
     [hexNibble (of_nat (frameLen div 4096)),
      hexNibble (of_nat (frameLen div 256 mod 16)),
      hexNibble (of_nat (frameLen div 16 mod 16)),
      hexNibble (of_nat (frameLen mod 16))]"

definition WritePacket :: "bytes \<Rightarrow> writer \<Rightarrow> write_error option \<times> writer" where
  "WritePacket p w =
     (if length p > MaxPayload then (Some (PayloadTooLarge (length p)), w)
      else
        (case io_write (frame_header (length p + 4)) w of
           (False, w1) \<Rightarrow> (Some WriteHeader, w1)
         | (True, w1) \<Rightarrow>
             if length p > 0 then
               (case io_write p w1 of
                  (False, w2) \<Rightarrow> (Some WritePayload, w2)
                | (True, w2) \<Rightarrow> (None, w2))
             else (None, w1)))"

definition write_marker :: "string \<Rightarrow> writer \<Rightarrow> write_error option \<times> writer" where
  "write_marker m w =
     (case io_write (bytes_of_str m) w of
        (ok, w1) \<Rightarrow> (if ok then None else Some WriteMarker, w1))"

definition WriteFlush :: "writer \<Rightarrow> write_error option \<times> writer" where
  "WriteFlush = write_marker ''0000''"

definition WriteDelim :: "writer \<Rightarrow> write_error option \<times> writer" where
  "WriteDelim = write_marker ''0001''"

definition WriteResponseEnd :: "writer \<Rightarrow> write_error option \<times> writer" where
  "WriteResponseEnd = write_marker ''0002''"

definition WriteString :: "string \<Rightarrow> writer \<Rightarrow> write_error option \<times> writer" where
  "WriteString s = WritePacket (bytes_of_str s)"

section \<open>Side-band\<close>

definition BandData :: byte where "BandData = 1"
definition BandProgress :: byte where "BandProgress = 2"
definition BandFatal :: byte where "BandFatal = 3"

definition SidebandPayloadMax :: nat where "SidebandPayloadMax = MaxPayload - 1"

datatype band_error = InvalidBand byte | BandWrite write_error

text \<open>The chunking loop of \<open>SidebandWriter.write\<close>, with the count of payload bytes written.\<close>

function sideband_loop :: "byte \<Rightarrow> bytes \<Rightarrow> nat \<Rightarrow> writer \<Rightarrow> (nat \<times> band_error option) \<times> writer" where
  "sideband_loop band p written w =
     (if length p > 0 then
        (let chunk = (if length p > SidebandPayloadMax then take SidebandPayloadMax p else p) in
         case WritePacket (band # chunk) w of
           (Some e, w1) \<Rightarrow> ((written, Some (BandWrite e)), w1)
         | (None, w1) \<Rightarrow> sideband_loop band (drop (length chunk) p) (written + length chunk) w1)
      else ((written, None), w))"
  by pat_completeness auto
termination
  by (relation "measure (\<lambda>(band, p, written, w). length p)")
     (auto simp: SidebandPayloadMax_def MaxPayload_def Let_def)

declare sideband_loop.simps [simp del]

definition sideband_write :: "byte \<Rightarrow> bytes \<Rightarrow> writer \<Rightarrow> (nat \<times> band_error option) \<times> writer" where
  "sideband_write band p w =
     (if band < 1 \<or> band > 3 then ((0, Some (InvalidBand band)), w)
      else sideband_loop band p 0 w)"

definition WriteData :: "bytes \<Rightarrow> writer \<Rightarrow> (nat \<times> band_error option) \<times> writer" where
  "WriteData = sideband_write BandData"

definition WriteProgress :: "bytes \<Rightarrow> writer \<Rightarrow> (nat \<times> band_error option) \<times> writer" where
  "WriteProgress = sideband_write BandProgress"

definition WriteFatal :: "bytes \<Rightarrow> writer \<Rightarrow> (nat \<times> band_error option) \<times> writer" where
  "WriteFatal = sideband_write BandFatal"

section \<open>Frames round trip\<close>

lemma read_full_append [simp]:
  "length a = n \<Longrightarrow> read_full n \<lparr>pending = a @ b, ends_with = e\<rparr> = (Inr a, \<lparr>pending = b, ends_with = e\<rparr>)"
  by (simp add: read_full_def)

lemma hex_val_hexNibble:
  assumes "n < 16"
  shows "hex_val (char_of (unat (hexNibble (of_nat n)))) = Some n"
proof -
  have "n \<in> {0,1,2,3,4,5,6,7,8,9,10,11,12,13,14,15}"
    using assms by (simp add: less_Suc_eq numeral_eq_Suc)
  then show ?thesis
    by (elim insertE emptyE) (simp_all add: hexNibble_def hex_val_def)
qed

lemma hex_decode_frame_header:
  assumes "n < 65536"
  shows "hex_decode (str_of_bytes (frame_header n)) = Some [of_nat (n div 256), of_nat (n mod 256)]"
proof -
  have hi: "16 * (n div 4096) + n div 256 mod 16 = n div 256"
    using div_mult2_eq [of n 256 16] mult_div_mod_eq [of 16 "n div 256"] by simp
  have lo: "16 * (n div 16 mod 16) + n mod 16 = n mod 256"
    using mod_mult2_eq [of n 16 16] by simp
  have "n div 4096 < 16"
    using assms by linarith
  then show ?thesis
    by (simp add: frame_header_def str_of_bytes_def hex_val_hexNibble hi lo
        del: of_nat_add of_nat_mult)
qed

lemma length_frame_header [simp]: "length (frame_header n) = 4"
  by (simp add: frame_header_def)

text \<open>The bytes of one frame, and the tokens a writer can produce.\<close>

definition frame :: "Token \<Rightarrow> bytes" where
  "frame t = (case Type t of
     Data \<Rightarrow> frame_header (length (Payload t) + 4) @ Payload t
   | Flush \<Rightarrow> bytes_of_str ''0000''
   | Delim \<Rightarrow> bytes_of_str ''0001''
   | ResponseEnd \<Rightarrow> bytes_of_str ''0002'')"

definition wf_token :: "Token \<Rightarrow> bool" where
  "wf_token t \<longleftrightarrow> (case Type t of Data \<Rightarrow> length (Payload t) \<le> MaxPayload | _ \<Rightarrow> Payload t = [])"

definition data_token :: "bytes \<Rightarrow> Token" where
  "data_token p = \<lparr>Type = Data, Payload = p\<rparr>"

lemma pkt_read_data:
  assumes "length p \<le> MaxPayload"
  shows "pkt_read \<lparr>pending = frame_header (length p + 4) @ p @ rest, ends_with = e\<rparr>
         = (Inr (data_token p), \<lparr>pending = rest, ends_with = e\<rparr>)"
proof -
  let ?n = "length p + 4"
  have n: "?n < 65536" "?n \<le> MaxPayload + 4"
    using assms by (simp_all add: MaxPayload_def)
  have "unat (of_nat (?n div 256) :: byte) * 256 + unat (of_nat (?n mod 256) :: byte) = ?n"
    using n(1) by (simp add: unat_of_nat mod_less div_mult_mod_eq del: add_2_eq_Suc)
  with n show ?thesis
    by (simp add: pkt_read_def hex_decode_frame_header data_token_def Let_def)
qed

lemma pkt_read_marker:
  "pkt_read \<lparr>pending = bytes_of_str ''0000'' @ rest, ends_with = e\<rparr>
     = (Inr \<lparr>Type = Flush, Payload = []\<rparr>, \<lparr>pending = rest, ends_with = e\<rparr>)"
  "pkt_read \<lparr>pending = bytes_of_str ''0001'' @ rest, ends_with = e\<rparr>
     = (Inr \<lparr>Type = Delim, Payload = []\<rparr>, \<lparr>pending = rest, ends_with = e\<rparr>)"
  "pkt_read \<lparr>pending = bytes_of_str ''0002'' @ rest, ends_with = e\<rparr>
     = (Inr \<lparr>Type = ResponseEnd, Payload = []\<rparr>, \<lparr>pending = rest, ends_with = e\<rparr>)"
  by (simp_all add: pkt_read_def hex_val_def Let_def)

lemma pkt_read_frame:
  assumes "wf_token t"
  shows "pkt_read \<lparr>pending = frame t @ rest, ends_with = e\<rparr> = (Inr t, \<lparr>pending = rest, ends_with = e\<rparr>)"
  using assms pkt_read_marker pkt_read_data
  by (cases t; cases "Type t") (auto simp: frame_def wf_token_def data_token_def)

text \<open>A run of the reader: the next \<open>n\<close> tokens.\<close>

fun read_tokens :: "nat \<Rightarrow> reader \<Rightarrow> (pkt_error + Token list) \<times> reader" where
  "read_tokens 0 r = (Inr [], r)"
| "read_tokens (Suc n) r =
     (case pkt_read r of
        (Inl e, r1) \<Rightarrow> (Inl e, r1)
      | (Inr t, r1) \<Rightarrow>
          (case read_tokens n r1 of
             (Inl e, r2) \<Rightarrow> (Inl e, r2)
           | (Inr ts, r2) \<Rightarrow> (Inr (t # ts), r2)))"

lemma read_tokens_frames:
  assumes "\<forall>t \<in> set ts. wf_token t"
  shows "read_tokens (length ts) \<lparr>pending = concat (map frame ts) @ rest, ends_with = e\<rparr>
         = (Inr ts, \<lparr>pending = rest, ends_with = e\<rparr>)"
  using assms by (induction ts) (simp_all add: pkt_read_frame)

text \<open>A run of the writer: each token through the operation for its type, stopping at an error.\<close>

definition write_token :: "Token \<Rightarrow> writer \<Rightarrow> write_error option \<times> writer" where
  "write_token t = (case Type t of
     Data \<Rightarrow> WritePacket (Payload t)
   | Flush \<Rightarrow> WriteFlush
   | Delim \<Rightarrow> WriteDelim
   | ResponseEnd \<Rightarrow> WriteResponseEnd)"

fun write_tokens :: "Token list \<Rightarrow> writer \<Rightarrow> write_error option \<times> writer" where
  "write_tokens [] w = (None, w)"
| "write_tokens (t # ts) w =
     (case write_token t w of
        (Some e, w1) \<Rightarrow> (Some e, w1)
      | (None, w1) \<Rightarrow> write_tokens ts w1)"

lemma io_write_ok [simp]: "io_write p \<lparr>out = b, script = []\<rparr> = (True, \<lparr>out = b @ p, script = []\<rparr>)"
  by (simp add: io_write_def)

lemma WritePacket_ok:
  "length p \<le> MaxPayload \<Longrightarrow>
   WritePacket p \<lparr>out = b, script = []\<rparr> = (None, \<lparr>out = b @ frame (data_token p), script = []\<rparr>)"
  by (simp add: WritePacket_def frame_def data_token_def)

lemma write_token_ok:
  "wf_token t \<Longrightarrow> write_token t \<lparr>out = b, script = []\<rparr> = (None, \<lparr>out = b @ frame t, script = []\<rparr>)"
  by (cases t; cases "Type t")
     (auto simp: write_token_def wf_token_def frame_def WriteFlush_def WriteDelim_def
       WriteResponseEnd_def write_marker_def WritePacket_ok data_token_def)

lemma write_tokens_ok:
  "\<forall>t \<in> set ts. wf_token t \<Longrightarrow>
   write_tokens ts \<lparr>out = b, script = []\<rparr> = (None, \<lparr>out = b @ concat (map frame ts), script = []\<rparr>)"
  by (induction ts arbitrary: b) (simp_all add: write_token_ok)

text \<open>C18: what a pkt-line writer emits is what a pkt-line reader returns. For every sequence of
  well-formed tokens, the bytes \<open>WritePacket\<close>, \<open>WriteFlush\<close>, \<open>WriteDelim\<close> and
  \<open>WriteResponseEnd\<close> produce are read back as the same tokens, in order, and the reader then
  reports a clean end of stream.\<close>

theorem pkt_write_read_roundtrip:
  assumes "\<forall>t \<in> set ts. wf_token t"
  shows "\<exists>w. write_tokens ts \<lparr>out = [], script = []\<rparr> = (None, w) \<and>
             read_tokens (length ts) \<lparr>pending = out w, ends_with = EOF\<rparr>
               = (Inr ts, \<lparr>pending = [], ends_with = EOF\<rparr>) \<and>
             fst (pkt_read \<lparr>pending = [], ends_with = EOF\<rparr>) = Inl PktEOF"
  using write_tokens_ok [OF assms, of "[]"] read_tokens_frames [OF assms, of "[]" EOF]
  by (simp add: pkt_read_def read_full_def)

theorem pkt_write_read_roundtrip_witness:
  "\<exists>w. write_tokens [\<lparr>Type = Data, Payload = [65, 10]\<rparr>, \<lparr>Type = Flush, Payload = []\<rparr>]
        \<lparr>out = [], script = []\<rparr> = (None, w) \<and>
      read_tokens (Suc (Suc 0)) \<lparr>pending = out w, ends_with = EOF\<rparr>
        = (Inr [\<lparr>Type = Data, Payload = [65, 10]\<rparr>, \<lparr>Type = Flush, Payload = []\<rparr>],
           \<lparr>pending = [], ends_with = EOF\<rparr>)"
  using pkt_write_read_roundtrip
    [of "[\<lparr>Type = Data, Payload = [65, 10]\<rparr>, \<lparr>Type = Flush, Payload = []\<rparr>]"]
  by (auto simp: wf_token_def MaxPayload_def simp del: read_tokens.simps write_tokens.simps)

section \<open>Side-band chunks\<close>

text \<open>The chunks the loop cuts a payload into, and their frames.\<close>

function chunks :: "bytes \<Rightarrow> bytes list" where
  "chunks p = (if p = [] then [] else take SidebandPayloadMax p # chunks (drop SidebandPayloadMax p))"
  by pat_completeness auto
termination
  by (relation "measure length") (auto simp: SidebandPayloadMax_def MaxPayload_def)

declare chunks.simps [simp del]

lemma concat_chunks: "concat (chunks p) = p"
  by (induction p rule: chunks.induct) (subst chunks.simps, auto)

lemma chunks_bounded: "c \<in> set (chunks p) \<Longrightarrow> c \<noteq> [] \<and> length c \<le> SidebandPayloadMax"
proof (induction p rule: chunks.induct)
  case (1 p)
  then show ?case
    by (subst (asm) (2) chunks.simps) (auto simp: SidebandPayloadMax_def MaxPayload_def split: if_splits)
qed

lemma chunks_Nil [simp]: "chunks [] = []"
  by (simp add: chunks.simps)

lemma sideband_loop_Nil [simp]: "sideband_loop band [] n w = ((n, None), w)"
  by (simp add: sideband_loop.simps)

lemma sideband_loop_ok:
  "sideband_loop band p n \<lparr>out = b, script = []\<rparr>
   = ((n + length p, None),
      \<lparr>out = b @ concat (map (\<lambda>c. frame (data_token (band # c))) (chunks p)), script = []\<rparr>)"
proof (induction p arbitrary: n b rule: chunks.induct)
  case (1 p)
  show ?case
  proof (cases "p = []")
    case True
    then show ?thesis by (simp add: sideband_loop.simps chunks.simps)
  next
    case False
    let ?c = "take SidebandPayloadMax p"
    have c: "(if length p > SidebandPayloadMax then take SidebandPayloadMax p else p) = ?c"
      by simp
    have "length (band # ?c) \<le> MaxPayload"
      by (simp add: SidebandPayloadMax_def MaxPayload_def)
    then show ?thesis
      using False 1
      by (subst sideband_loop.simps, subst chunks.simps) (auto simp: c Let_def WritePacket_ok min_def)
  qed
qed

text \<open>Reading a multiplexed stream: the payloads of the data frames of one band, in order.\<close>

fun demux :: "byte \<Rightarrow> Token list \<Rightarrow> bytes" where
  "demux band [] = []"
| "demux band (t # ts) =
     (case Payload t of [] \<Rightarrow> [] | b # p \<Rightarrow> if Type t = Data \<and> b = band then p else []) @ demux band ts"

lemma demux_chunks: "demux band (map (\<lambda>c. data_token (band # c)) cs) = concat cs"
  by (induction cs) (simp_all add: data_token_def)

text \<open>C19: a side-band write never splits or loses payload bytes. On any of the three bands it
  reports every byte written, the frames it emits all fit \<open>MaxPayload\<close>, and a client that reads
  the frames back and joins the payloads of that band obtains exactly the bytes written.\<close>

theorem sideband_write_demux:
  assumes "band \<in> {BandData, BandProgress, BandFatal}"
  shows "\<exists>w ts. sideband_write band p \<lparr>out = [], script = []\<rparr> = ((length p, None), w) \<and>
           read_tokens (length ts) \<lparr>pending = out w, ends_with = EOF\<rparr>
             = (Inr ts, \<lparr>pending = [], ends_with = EOF\<rparr>) \<and>
           (\<forall>t \<in> set ts. length (frame t) \<le> MaxPayload + 4) \<and>
           demux band ts = p"
proof -
  let ?ts = "map (\<lambda>c. data_token (band # c)) (chunks p)"
  have wf: "\<forall>t \<in> set ?ts. wf_token t"
    using chunks_bounded [of _ p]
    by (auto simp: wf_token_def data_token_def SidebandPayloadMax_def MaxPayload_def)
  have "\<not> (band < 1 \<or> band > 3)"
    using assms by (auto simp: BandData_def BandProgress_def BandFatal_def)
  then have "sideband_write band p \<lparr>out = [], script = []\<rparr>
      = ((length p, None), \<lparr>out = concat (map frame ?ts), script = []\<rparr>)"
    by (simp add: sideband_write_def sideband_loop_ok comp_def)
  moreover have "\<forall>t \<in> set ?ts. length (frame t) \<le> MaxPayload + 4"
    using wf by (auto simp: frame_def wf_token_def data_token_def)
  ultimately show ?thesis
    using read_tokens_frames [OF wf, of "[]" EOF]
    by (intro exI [of _ "\<lparr>out = concat (map frame ?ts), script = []\<rparr>"] exI [of _ ?ts])
       (simp add: demux_chunks concat_chunks)
qed

theorem sideband_write_demux_witness:
  "\<exists>w ts. sideband_write 1 [10, 20] \<lparr>out = [], script = []\<rparr> = ((2, None), w) \<and>
      read_tokens (length ts) \<lparr>pending = out w, ends_with = EOF\<rparr>
        = (Inr ts, \<lparr>pending = [], ends_with = EOF\<rparr>) \<and> demux 1 ts = [10, 20]"
  using sideband_write_demux [of 1 "[10, 20]"] by (auto simp: BandData_def)

end
