(* ===== verification/Go_Map.thy ===== *)
theory Go_Map
  imports Bv_Prelude
begin

text \<open>
  Go maps with ordered keys, as association lists in strictly ascending key order. The order is
  the one \<open>encoding/json\<close> marshals a map in, and it makes two maps with the same entries equal
  lists. A nil map and an empty map are both the empty list; the few places where the sources
  tell them apart use \<open>option\<close>.
\<close>

type_synonym ('k, 'v) gomap = "('k \<times> 'v) list"

definition mok :: "('k::linorder, 'v) gomap \<Rightarrow> bool" where
  "mok m \<longleftrightarrow> strictly_ascending (map fst m)"

abbreviation mget :: "('k, 'v) gomap \<Rightarrow> 'k \<Rightarrow> 'v option" where
  "mget m \<equiv> map_of m"

fun mput :: "'k::linorder \<Rightarrow> 'v \<Rightarrow> ('k, 'v) gomap \<Rightarrow> ('k, 'v) gomap" where
  "mput k v [] = [(k, v)]"
| "mput k v ((a, b) # m) =
     (if k < a then (k, v) # (a, b) # m
      else if k = a then (k, v) # m
      else (a, b) # mput k v m)"

definition mdel :: "'k \<Rightarrow> ('k, 'v) gomap \<Rightarrow> ('k, 'v) gomap" where
  "mdel k m = filter (\<lambda>(a, b). a \<noteq> k) m"

definition mput_all :: "('k::linorder \<times> 'v) list \<Rightarrow> ('k, 'v) gomap \<Rightarrow> ('k, 'v) gomap" where
  "mput_all kvs m = fold (\<lambda>(k, v). mput k v) kvs m"

lemma mok_Nil [simp]: "mok []"
  by (simp add: mok_def)

lemma mok_Cons: "mok ((a, b) # m) \<longleftrightarrow> mok m \<and> (\<forall>k \<in> set (map fst m). a < k)"
  by (auto simp: mok_def strictly_ascending_iff)

lemma mok_singleton [simp]: "mok [(a, b)]"
  by (simp add: mok_def)

lemma set_mput_keys [simp]: "set (map fst (mput k v m)) = insert k (set (map fst m))"
  by (induction k v m rule: mput.induct) (simp_all add: insert_commute)

lemma mok_mput [simp]: "mok m \<Longrightarrow> mok (mput k v m)"
proof (induction m)
  case (Cons p m)
  obtain a b where p: "p = (a, b)" by (cases p)
  have keys: "\<And>x. x \<in> set (map fst (mput k v m)) \<Longrightarrow> x = k \<or> x \<in> set (map fst m)"
    by (simp only: set_mput_keys) auto
  from Cons p keys show ?case
    by (fastforce simp: mok_Cons simp del: set_map list.set_map)
qed simp

lemma mget_mput [simp]: "mok m \<Longrightarrow> mget (mput k v m) = (mget m)(k \<mapsto> v)"
proof (induction m)
  case (Cons p m)
  obtain a b where p: "p = (a, b)" by (cases p)
  have "k < a \<Longrightarrow> mget ((a, b) # m) k = None"
    using Cons.prems p by (auto simp: mok_Cons map_of_eq_None_iff)
  with Cons p show ?case
    by (auto simp: mok_Cons fun_eq_iff)
qed auto

lemma mok_mdel [simp]: "mok m \<Longrightarrow> mok (mdel k m)"
proof (induction m)
  case (Cons p m)
  then show ?case
    by (cases p) (auto simp: mdel_def mok_Cons)
qed (simp add: mdel_def)

lemma mget_mdel [simp]: "mget (mdel k m) = (mget m)(k := None)"
proof (induction m)
  case (Cons p m)
  then show ?case
    by (cases p) (auto simp: mdel_def fun_eq_iff)
qed (auto simp: mdel_def)

lemma mput_all_simps [simp]:
  "mput_all [] m = m"
  "mput_all ((k, v) # kvs) m = mput_all kvs (mput k v m)"
  by (simp_all add: mput_all_def)

lemma mok_mput_all [simp]: "mok m \<Longrightarrow> mok (mput_all kvs m)"
  by (induction kvs arbitrary: m) auto

lemma mget_mput_all: "mok m \<Longrightarrow> mget (mput_all kvs m) = mget m ++ map_of (rev kvs)"
  by (induction kvs arbitrary: m) (auto simp: fun_eq_iff map_add_def split: option.splits)

lemma mok_distinct: "mok m \<Longrightarrow> distinct (map fst m)"
  by (simp add: mok_def strictly_ascending_distinct)

lemma mget_head_None: "mok ((a, b) # m) \<Longrightarrow> mget m a = None"
  using mok_distinct [of "(a, b) # m"] by (simp add: map_of_eq_None_iff)

lemma mok_ext:
  assumes "mok m" "mok n" "mget m = mget n"
  shows "m = n"
proof -
  have "set m = set n"
    using assms by (metis mok_distinct map_of_inject_set)
  moreover have "set (map fst m) = set (map fst n)"
    using \<open>set m = set n\<close> by simp
  then have keys: "map fst m = map fst n"
    using assms unfolding mok_def
    by (meson sorted_distinct_set_unique strictly_ascending_distinct strictly_ascending_sorted)
  have "mget n a = Some b" if "(a, b) \<in> set m" for a b
    using that assms by (metis map_of_is_SomeI mok_distinct)
  moreover have "mget n a = Some b" if "(a, b) \<in> set n" for a b
    using that assms by (metis map_of_is_SomeI mok_distinct)
  ultimately have "map snd m = map (\<lambda>k. the (mget n k)) (map fst m)"
            "map snd n = map (\<lambda>k. the (mget n k)) (map fst n)"
    by auto
  with keys show ?thesis
    by (metis zip_map_fst_snd)
qed

lemma distinct_map_of_rev: "distinct (map fst m) \<Longrightarrow> map_of (rev m) = map_of m"
  by (rule map_of_inject_set [THEN iffD2]) (simp_all add: rev_map [symmetric])

lemma mput_all_self: "mok m \<Longrightarrow> mput_all m [] = m"
  by (rule mok_ext) (simp_all add: mget_mput_all mok_distinct distinct_map_of_rev)

end
