(* ===== verification/Go_Json.thy ===== *)
theory Go_Json
  imports Go_Map
begin

text \<open>
  The part of Go's \<open>encoding/json\<close> the sources use. A document keeps its string literals and
  numbers in the form they have on the wire (\<open>JStr\<close> holds the bytes between the quotes), so a
  \<open>json.RawMessage\<close> passes through the model unchanged; \<open>unquote\<close> reads a literal as a Go
  string and \<open>quote_raw\<close> writes one, with the HTML-safe escaping \<open>json.Marshal\<close> uses and U+FFFD
  for bytes that are not UTF-8. \<open>jprint\<close> prints with the white space of \<open>Marshal\<close> (none) or
  \<open>MarshalIndent\<close> (two spaces), \<open>json_parse\<close> parses, and \<open>dec_struct\<close> and its companions
  decode into Go values as \<open>json.Unmarshal\<close> does: fields matched exactly or else by case
  folding, unknown fields skipped, a later duplicate decoded over an earlier one, null leaving a
  scalar as it was. The decoder's nesting limit of 10000 is not modelled.
\<close>

section \<open>UTF-8\<close>

abbreviation code :: "char \<Rightarrow> nat" where "code c \<equiv> of_char c"

definition code_in :: "nat \<Rightarrow> nat \<Rightarrow> char \<Rightarrow> bool" where
  "code_in lo hi c \<longleftrightarrow> lo \<le> code c \<and> code c \<le> hi"

abbreviation is_cont :: "char \<Rightarrow> bool" where "is_cont \<equiv> code_in 128 191"

text \<open>One well-formed encoding of a code point, and \<open>utf8.DecodeRune\<close>: the size of the
  encoding at the start of a string, 0 where it is not valid UTF-8.\<close>

definition utf8_unit :: "string \<Rightarrow> bool" where
  "utf8_unit u \<longleftrightarrow> (case u of
     [a] \<Rightarrow> code a < 128
   | [a, b] \<Rightarrow> code_in 194 223 a \<and> is_cont b
   | [a, b, c] \<Rightarrow>
       code_in 224 239 a
       \<and> code_in (if code a = 224 then 160 else 128) (if code a = 237 then 159 else 191) b
       \<and> is_cont c
   | [a, b, c, d] \<Rightarrow>
       code_in 240 244 a
       \<and> code_in (if code a = 240 then 144 else 128) (if code a = 244 then 143 else 191) b
       \<and> is_cont c \<and> is_cont d
   | _ \<Rightarrow> False)"

definition utf8_len :: "string \<Rightarrow> nat" where
  "utf8_len s =
     (if utf8_unit (take 1 s) then 1
      else if utf8_unit (take 2 s) then 2
      else if utf8_unit (take 3 s) then 3
      else if utf8_unit (take 4 s) then 4
      else 0)"

fun valid_utf8 :: "string \<Rightarrow> bool" where
  "valid_utf8 [] = True"
| "valid_utf8 (a # s) = (let k = utf8_len (a # s) in k > 0 \<and> valid_utf8 (drop (k - 1) s))"

text \<open>\<open>utf8.EncodeRune\<close> on a code point below \<open>0x110000\<close>.\<close>

definition utf8_enc :: "nat \<Rightarrow> string" where
  "utf8_enc r =
     (if r < 128 then [char_of r]
      else if r < 2048 then [char_of (192 + r div 64), char_of (128 + r mod 64)]
      else if r < 65536 then
        [char_of (224 + r div 4096), char_of (128 + r div 64 mod 64), char_of (128 + r mod 64)]
      else
        [char_of (240 + r div 262144), char_of (128 + r div 4096 mod 64),
         char_of (128 + r div 64 mod 64), char_of (128 + r mod 64)])"

text \<open>The code point of a well-formed encoding, and \<open>utf8.DecodeRuneInString\<close> with its size.\<close>

definition rune_val :: "string \<Rightarrow> nat" where
  "rune_val u = (case u of
     [a] \<Rightarrow> code a
   | [a, b] \<Rightarrow> (code a - 192) * 64 + (code b - 128)
   | [a, b, c] \<Rightarrow> (code a - 224) * 4096 + (code b - 128) * 64 + (code c - 128)
   | [a, b, c, d] \<Rightarrow> (code a - 240) * 262144 + (code b - 128) * 4096 + (code c - 128) * 64 + (code d - 128)
   | _ \<Rightarrow> 0)"

definition decode_rune :: "string \<Rightarrow> nat \<times> nat" where
  "decode_rune s =
     (if s = [] then (65533, 0)
      else if utf8_len s = 0 then (65533, 1)
      else (rune_val (take (utf8_len s) s), utf8_len s))"

definition rune_error :: string where "rune_error = [CHR 0xEF, CHR 0xBF, CHR 0xBD]"

section \<open>String literals\<close>

abbreviation dq :: char where "dq \<equiv> CHR 0x22"
abbreviation bsl :: char where "bsl \<equiv> CHR 0x5C"

definition u_esc :: "nat \<Rightarrow> string" where
  "u_esc n = [bsl, CHR ''u'', hex_digit (n div 4096 mod 16), hex_digit (n div 256 mod 16),
              hex_digit (n div 16 mod 16), hex_digit (n mod 16)]"

definition read_u4 :: "string \<Rightarrow> (nat \<times> string) option" where
  "read_u4 s = (case s of
     a # b # c # d # t \<Rightarrow>
       (case (hex_val a, hex_val b, hex_val c, hex_val d) of
          (Some w, Some x, Some y, Some z) \<Rightarrow> Some (4096 * w + 256 * x + 16 * y + z, t)
        | _ \<Rightarrow> None)
   | _ \<Rightarrow> None)"

definition short_esc :: "char \<Rightarrow> char option" where
  "short_esc c =
     (if c = dq \<or> c = bsl then Some c
      else if c = CHR 0x08 then Some (CHR ''b'')
      else if c = CHR 0x0C then Some (CHR ''f'')
      else if c = CHR 0x0A then Some (CHR ''n'')
      else if c = CHR 0x0D then Some (CHR ''r'')
      else if c = CHR 0x09 then Some (CHR ''t'')
      else None)"

definition esc_ascii :: "char \<Rightarrow> string" where
  "esc_ascii c = (case short_esc c of
     Some d \<Rightarrow> [bsl, d]
   | None \<Rightarrow>
       if code c < 32 \<or> c = CHR 0x3C \<or> c = CHR 0x3E \<or> c = CHR 0x26 then u_esc (code c)
       else [c])"

definition ls_sep :: string where "ls_sep = [CHR 0xE2, CHR 0x80, CHR 0xA8]"
definition ps_sep :: string where "ps_sep = [CHR 0xE2, CHR 0x80, CHR 0xA9]"

fun quote_raw :: "string \<Rightarrow> string" where
  "quote_raw [] = []"
| "quote_raw (a # s) =
     (if code a < 128 then esc_ascii a @ quote_raw s
      else if utf8_len (a # s) = 0 then u_esc 65533 @ quote_raw s
      else if has_prefix (a # s) ls_sep then u_esc 8232 @ quote_raw (drop 2 s)
      else if has_prefix (a # s) ps_sep then u_esc 8233 @ quote_raw (drop 2 s)
      else take (utf8_len (a # s)) (a # s) @ quote_raw (drop (utf8_len (a # s) - 1) s))"

definition simple_esc :: "char \<Rightarrow> char option" where
  "simple_esc d =
     (if d = dq \<or> d = bsl \<or> d = CHR ''/'' then Some d
      else if d = CHR ''b'' then Some (CHR 0x08)
      else if d = CHR ''f'' then Some (CHR 0x0C)
      else if d = CHR ''n'' then Some (CHR 0x0A)
      else if d = CHR ''r'' then Some (CHR 0x0D)
      else if d = CHR ''t'' then Some (CHR 0x09)
      else None)"

lemma read_u4_length: "read_u4 s = Some (r, t) \<Longrightarrow> length t + 4 = length s"
  by (auto simp: read_u4_def split: list.splits option.splits prod.splits)

function unquote :: "string \<Rightarrow> string" where
  "unquote [] = []"
| "unquote (a # s) =
     (if a = bsl then
        (case s of
           [] \<Rightarrow> []
         | d # t \<Rightarrow>
             if d = CHR ''u'' then
               (case read_u4 t of
                  None \<Rightarrow> []
                | Some (r, t1) \<Rightarrow>
                    if 55296 \<le> r \<and> r < 57344 then
                      (case (take 2 t1 = [bsl, CHR ''u''], read_u4 (drop 2 t1)) of
                         (True, Some (r2, t2)) \<Rightarrow>
                           if r < 56320 \<and> 56320 \<le> r2 \<and> r2 < 57344
                           then utf8_enc (65536 + (r - 55296) * 1024 + (r2 - 56320)) @ unquote t2
                           else rune_error @ unquote t1
                       | _ \<Rightarrow> rune_error @ unquote t1)
                    else utf8_enc r @ unquote t1)
             else (case simple_esc d of None \<Rightarrow> [] | Some c \<Rightarrow> c # unquote t))
      else if code a < 128 then a # unquote s
      else if utf8_len (a # s) = 0 then rune_error @ unquote s
      else take (utf8_len (a # s)) (a # s) @ unquote (drop (utf8_len (a # s) - 1) s))"
  by pat_completeness auto
termination
  by (relation "measure length") (auto dest!: read_u4_length read_u4_length [OF sym])

text \<open>The bytes of a literal up to its closing quote, as the scanner accepts them.\<close>

fun scan_str :: "string \<Rightarrow> (string \<times> string) option" where
  "scan_str [] = None"
| "scan_str (c # s) =
     (if c = dq then Some ([], s)
      else if c = bsl then
        (case s of
           [] \<Rightarrow> None
         | d # t \<Rightarrow>
             if simple_esc d \<noteq> None then map_option (\<lambda>(r, u). (c # d # r, u)) (scan_str t)
             else if d = CHR ''u'' then
               (case t of
                  h1 # h2 # h3 # h4 # u \<Rightarrow>
                    if list_all (\<lambda>h. hex_val h \<noteq> None) [h1, h2, h3, h4]
                    then map_option (\<lambda>(r, v). (c # d # h1 # h2 # h3 # h4 # r, v)) (scan_str u)
                    else None
                | _ \<Rightarrow> None)
             else None)
      else if code c < 32 then None
      else map_option (\<lambda>(r, u). (c # r, u)) (scan_str s))"

text \<open>\<open>compact\<close> with HTML escaping, on the bytes of one literal of a raw message.\<close>

fun esc_html :: "string \<Rightarrow> string" where
  "esc_html [] = []"
| "esc_html (a # s) =
     (if a = CHR 0x3C \<or> a = CHR 0x3E \<or> a = CHR 0x26 then u_esc (code a) @ esc_html s
      else if has_prefix (a # s) ls_sep then u_esc 8232 @ esc_html (drop 2 s)
      else if has_prefix (a # s) ps_sep then u_esc 8233 @ esc_html (drop 2 s)
      else a # esc_html s)"

section \<open>Literals round trip\<close>

declare unquote.simps(2) [simp del] quote_raw.simps(2) [simp del] scan_str.simps(2) [simp del]
  esc_html.simps(2) [simp del]

lemma code_less_256: "code c < 256"
  by simp

lemma read_u4_u_esc: "n < 65536 \<Longrightarrow> read_u4 (drop 2 (u_esc n) @ t) = Some (n, t)"
proof -
  assume "n < 65536"
  then have "n div 4096 mod 16 = n div 4096" "n div 4096 < 16" by auto
  moreover have "4096 * (n div 4096) + 256 * (n div 256 mod 16) + 16 * (n div 16 mod 16) + n mod 16 = n"
  proof -
    have "256 * (n div 256 mod 16) + n mod 256 = n mod 4096"
      using mod_mult2_eq [of n 256 16] by simp
    moreover have "16 * (n div 16 mod 16) + n mod 16 = n mod 256"
      using mod_mult2_eq [of n 16 16] by simp
    ultimately show ?thesis
      using mult_div_mod_eq [of 4096 n] by linarith
  qed
  ultimately show ?thesis
    by (simp add: u_esc_def read_u4_def hex_val_digit)
qed

lemma u_esc_shape: "u_esc n = bsl # CHR ''u'' # drop 2 (u_esc n)"
  by (simp add: u_esc_def)

lemma unquote_u_esc:
  assumes "n < 65536" "\<not> (55296 \<le> n \<and> n < 57344)"
  shows "unquote (u_esc n @ t) = utf8_enc n @ unquote t"
proof -
  have "unquote (bsl # CHR ''u'' # (drop 2 (u_esc n) @ t)) = utf8_enc n @ unquote t"
    using assms by (auto simp: unquote.simps(2) read_u4_u_esc)
  then show ?thesis
    by (subst u_esc_shape) simp
qed

lemma scan_str_u_esc: "scan_str (u_esc n @ t) = map_option (\<lambda>(r, u). (u_esc n @ r, u)) (scan_str t)"
  by (simp add: scan_str.simps(2) u_esc_def simple_esc_def hex_val_digit)

lemma scan_str_plain:
  "c \<noteq> dq \<Longrightarrow> c \<noteq> bsl \<Longrightarrow> 32 \<le> code c \<Longrightarrow>
   scan_str (c # t) = map_option (\<lambda>(r, u). (c # r, u)) (scan_str t)"
  by (simp add: scan_str.simps(2))

lemma short_esc_Some: "short_esc c = Some d \<Longrightarrow> simple_esc d = Some c"
  by (auto simp: short_esc_def simple_esc_def split: if_splits)

lemma short_esc_None: "short_esc c = None \<Longrightarrow> c \<noteq> dq \<and> c \<noteq> bsl"
  by (auto simp: short_esc_def)

lemma simple_esc_not_u: "simple_esc d = Some c \<Longrightarrow> d \<noteq> CHR ''u''"
  by (auto simp: simple_esc_def)

lemma scan_str_simple:
  "simple_esc d = Some c \<Longrightarrow>
   scan_str (bsl # d # t) = map_option (\<lambda>(r, u). (bsl # d # r, u)) (scan_str t)"
  by (simp add: scan_str.simps(2))

lemma unquote_simple: "simple_esc d = Some c \<Longrightarrow> unquote (bsl # d # t) = c # unquote t"
  by (frule simple_esc_not_u) (simp add: unquote.simps(2))

lemma scan_str_esc_ascii:
  "scan_str (esc_ascii c @ t) = map_option (\<lambda>(r, u). (esc_ascii c @ r, u)) (scan_str t)"
proof (cases "short_esc c")
  case None
  then show ?thesis
    by (simp add: esc_ascii_def scan_str_u_esc scan_str_plain short_esc_None)
next
  case (Some d)
  then show ?thesis
    by (simp add: esc_ascii_def scan_str_simple [OF short_esc_Some])
qed

lemma unquote_esc_ascii:
  assumes "code c < 128"
  shows "unquote (esc_ascii c @ t) = c # unquote t"
proof (cases "short_esc c")
  case None
  have "unquote (u_esc (code c) @ t) = c # unquote t"
    using assms by (subst unquote_u_esc) (simp_all add: utf8_enc_def)
  with None assms show ?thesis
    by (simp add: esc_ascii_def unquote.simps(2) short_esc_None)
next
  case (Some d)
  then show ?thesis
    by (simp add: esc_ascii_def unquote_simple [OF short_esc_Some])
qed

lemma utf8_unit_cases:
  assumes "utf8_unit u"
  obtains a where "u = [a]" "code a < 128"
  | a b where "u = [a, b]" "code_in 194 223 a" "is_cont b"
  | a b c where "u = [a, b, c]" "code_in 224 239 a"
      "code_in (if code a = 224 then 160 else 128) (if code a = 237 then 159 else 191) b" "is_cont c"
  | a b c d where "u = [a, b, c, d]" "code_in 240 244 a"
      "code_in (if code a = 240 then 144 else 128) (if code a = 244 then 143 else 191) b"
      "is_cont c" "is_cont d"
  using assms unfolding utf8_unit_def by (auto split: list.splits)

lemma utf8_len_unit: "utf8_unit u \<Longrightarrow> utf8_len (u @ t) = length u"
proof (erule utf8_unit_cases)
qed (auto simp: utf8_len_def utf8_unit_def code_in_def take_Cons')

lemma take_same_length: "length (take k s) < k \<Longrightarrow> take k s = s"
  by simp

lemma utf8_len_take: "utf8_len s > 0 \<Longrightarrow> utf8_unit (take (utf8_len s) s)"
  by (auto simp: utf8_len_def)

lemma utf8_len_split:
  assumes "utf8_len s > 0"
  obtains u t where "s = u @ t" "utf8_unit u" "utf8_len s = length u"
proof -
  let ?u = "take (utf8_len s) s"
  have "utf8_unit ?u"
    using assms by (rule utf8_len_take)
  moreover have "s = ?u @ drop (utf8_len s) s" by simp
  ultimately show thesis
    using that utf8_len_unit by metis
qed

lemma utf8_unit_high:
  assumes "utf8_unit (a # p)" "\<not> code a < 128"
  shows "\<forall>c \<in> set (a # p). 128 \<le> code c"
  using assms(1)
proof (cases rule: utf8_unit_cases)
qed (use assms(2) in \<open>auto simp: code_in_def split: if_splits\<close>)

lemma scan_str_high:
  "\<forall>c \<in> set p. 128 \<le> code c \<Longrightarrow> scan_str (p @ t) = map_option (\<lambda>(r, u). (p @ r, u)) (scan_str t)"
proof (induction p)
  case (Cons c p)
  then have "c \<noteq> dq" "c \<noteq> bsl" "32 \<le> code c" by auto
  with Cons show ?case
    by (auto simp: scan_str_plain option.map_comp comp_def split_def)
qed (simp add: option.map_ident split_def)

lemma unquote_high:
  assumes "utf8_unit (a # p)" "\<not> code a < 128"
  shows "unquote (a # p @ t) = a # p @ unquote t"
proof -
  have "utf8_len (a # p @ t) = length (a # p)"
    using utf8_len_unit [OF assms(1), of t] by simp
  moreover have "a \<noteq> bsl" using assms(2) by auto
  ultimately show ?thesis
    using assms(2) by (simp add: unquote.simps(2))
qed

lemma sep_units: "utf8_unit ls_sep" "utf8_unit ps_sep" "utf8_enc 8232 = ls_sep" "utf8_enc 8233 = ps_sep"
  by (simp_all add: utf8_enc_def ls_sep_def ps_sep_def char_of_def utf8_unit_def code_in_def
      bit_numeral_rec bit_Suc bit_0)

lemma utf8_unit_prefix:
  assumes "utf8_unit u" "utf8_unit v" "has_prefix (u @ t) v"
  shows "u = v"
proof -
  obtain r where r: "u @ t = v @ r" using assms(3) by (auto simp: has_prefix_iff)
  then have "length u = length v"
    using utf8_len_unit [OF assms(1), of t] utf8_len_unit [OF assms(2), of r] by simp
  with r show ?thesis by simp
qed

text \<open>\<open>quote_raw\<close> on one unit at a time.\<close>

definition unit_quote :: "string \<Rightarrow> string" where
  "unit_quote u =
     (if code (hd u) < 128 then esc_ascii (hd u)
      else if u = ls_sep then u_esc 8232
      else if u = ps_sep then u_esc 8233
      else u)"

lemma utf8_unit_shape:
  assumes "utf8_unit u"
  obtains a where "u = [a]" "code a < 128"
  | a p where "u = a # p" "\<not> code a < 128"
  using assms by (auto elim!: utf8_unit_cases simp: code_in_def intro: that)

lemma quote_raw_unit:
  assumes "utf8_unit u"
  shows "quote_raw (u @ t) = unit_quote u @ quote_raw t"
  using assms
proof (cases rule: utf8_unit_shape)
  case (1 a)
  then show ?thesis by (simp add: quote_raw.simps(2) unit_quote_def)
next
  case (2 a p)
  have len: "utf8_len (u @ t) = length u"
    by (rule utf8_len_unit [OF assms])
  note pre = utf8_unit_prefix [OF assms sep_units(1)] utf8_unit_prefix [OF assms sep_units(2)]
  have "ls_sep \<noteq> ps_sep" by (simp add: ls_sep_def ps_sep_def)
  consider "u = ls_sep" | "u = ps_sep" "u \<noteq> ls_sep" | "u \<noteq> ls_sep" "u \<noteq> ps_sep" by blast
  then show ?thesis
  proof cases
    case 1
    with 2 len show ?thesis
      by (auto simp: quote_raw.simps(2) unit_quote_def ls_sep_def has_prefix_def)
  next
    case 2
    with \<open>u = a # p\<close> \<open>\<not> code a < 128\<close> len show ?thesis
      by (auto simp: quote_raw.simps(2) unit_quote_def ps_sep_def ls_sep_def has_prefix_def)
  next
    case 3
    with 2 len pre show ?thesis
      by (auto simp: quote_raw.simps(2) unit_quote_def)
  qed
qed

lemma unquote_unit_quote:
  assumes "utf8_unit u"
  shows "unquote (unit_quote u @ r) = u @ unquote r"
  using assms
proof (cases rule: utf8_unit_shape)
  case (2 a p)
  with assms show ?thesis
    by (simp add: unit_quote_def unquote_u_esc sep_units unquote_high)
qed (simp add: unit_quote_def unquote_esc_ascii)

lemma scan_str_unit_quote:
  assumes "utf8_unit u"
  shows "scan_str (unit_quote u @ r) = map_option (\<lambda>(x, y). (unit_quote u @ x, y)) (scan_str r)"
  using assms
proof (cases rule: utf8_unit_shape)
  case (2 a p)
  with assms utf8_unit_high [of a p] scan_str_high [of u r] show ?thesis
    by (simp add: unit_quote_def scan_str_u_esc)
qed (simp add: unit_quote_def scan_str_esc_ascii)

lemma valid_utf8_cases:
  assumes "valid_utf8 s" "s \<noteq> []"
  obtains u t where "s = u @ t" "utf8_unit u" "valid_utf8 t" "length t < length s"
proof -
  obtain a r where s: "s = a # r" using assms(2) by (cases s) auto
  with assms(1) have k: "utf8_len s > 0" "valid_utf8 (drop (utf8_len s - 1) r)" by (auto simp: Let_def)
  then obtain u t where ut: "s = u @ t" "utf8_unit u" "utf8_len s = length u"
    by (metis utf8_len_split)
  then have "t = drop (utf8_len s - 1) r"
    using s k(1) by (cases u) auto
  then show thesis
    using that ut k s by (metis length_append less_add_same_cancel2)
qed

theorem unquote_quote_raw: "valid_utf8 s \<Longrightarrow> unquote (quote_raw s) = s"
proof (induction s rule: length_induct)
  case (1 s)
  show ?case
  proof (cases "s = []")
    case False
    then obtain u t where "s = u @ t" "utf8_unit u" "valid_utf8 t" "length t < length s"
      using 1 valid_utf8_cases by blast
    with 1 show ?thesis by (simp add: quote_raw_unit unquote_unit_quote)
  qed simp
qed

lemma scan_str_quote_raw: "valid_utf8 s \<Longrightarrow> scan_str (quote_raw s @ dq # r) = Some (quote_raw s, r)"
proof (induction s rule: length_induct)
  case (1 s)
  show ?case
  proof (cases "s = []")
    case True
    then show ?thesis by (simp add: scan_str.simps(2))
  next
    case False
    then obtain u t where "s = u @ t" "utf8_unit u" "valid_utf8 t" "length t < length s"
      using 1 valid_utf8_cases by blast
    with 1 show ?thesis by (simp add: quote_raw_unit scan_str_unit_quote)
  qed
qed

section \<open>Documents\<close>

datatype json =
    JNull
  | JBool bool
  | JNum string
  | JStr string
  | JArr "json list"
  | JObj "(string \<times> json) list"

definition is_ws :: "char \<Rightarrow> bool" where
  "is_ws c \<longleftrightarrow> c = CHR '' '' \<or> c = CHR 0x09 \<or> c = CHR 0x0A \<or> c = CHR 0x0D"

definition skip_ws :: "string \<Rightarrow> string" where
  "skip_ws s = dropWhile is_ws s"

definition is_digit :: "char \<Rightarrow> bool" where
  "is_digit = code_in 48 57"

definition scan_int :: "string \<Rightarrow> (string \<times> string) option" where
  "scan_int s = (case s of
     [] \<Rightarrow> None
   | c # t \<Rightarrow>
       if c = CHR ''0'' then Some ([c], t)
       else if is_digit c then Some (takeWhile is_digit s, dropWhile is_digit s)
       else None)"

definition scan_sign :: "string \<Rightarrow> (string \<times> string) option" where
  "scan_sign s = (case s of
     c # t \<Rightarrow> if c = CHR ''-'' then Some ([c], t) else Some ([], s)
   | [] \<Rightarrow> Some ([], s))"

definition scan_digits :: "string \<Rightarrow> (string \<times> string) option" where
  "scan_digits s = (if takeWhile is_digit s = [] then None else Some (takeWhile is_digit s, dropWhile is_digit s))"

definition scan_frac :: "string \<Rightarrow> (string \<times> string) option" where
  "scan_frac s = (case s of
     c # t \<Rightarrow> if c = CHR ''.'' then map_option (\<lambda>(a, r). (c # a, r)) (scan_digits t) else Some ([], s)
   | [] \<Rightarrow> Some ([], s))"

definition scan_exp :: "string \<Rightarrow> (string \<times> string) option" where
  "scan_exp s = (case s of
     c # t \<Rightarrow>
       if c = CHR ''e'' \<or> c = CHR ''E'' then
         (case t of
            d # u \<Rightarrow>
              if d = CHR ''+'' \<or> d = CHR ''-''
              then map_option (\<lambda>(a, r). (c # d # a, r)) (scan_digits u)
              else map_option (\<lambda>(a, r). (c # a, r)) (scan_digits t)
          | [] \<Rightarrow> None)
       else Some ([], s)
   | [] \<Rightarrow> Some ([], s))"

definition scan_seq ::
  "(string \<Rightarrow> (string \<times> string) option) \<Rightarrow> (string \<Rightarrow> (string \<times> string) option) \<Rightarrow>
   string \<Rightarrow> (string \<times> string) option" where
  "scan_seq f g s = (case f s of
     None \<Rightarrow> None
   | Some (a, r) \<Rightarrow> (case g r of None \<Rightarrow> None | Some (b, r') \<Rightarrow> Some (a @ b, r')))"

definition scan_num :: "string \<Rightarrow> (string \<times> string) option" where
  "scan_num = scan_seq scan_sign (scan_seq scan_int (scan_seq scan_frac scan_exp))"

fun parse_val :: "nat \<Rightarrow> string \<Rightarrow> (json \<times> string) option"
and parse_elems :: "nat \<Rightarrow> string \<Rightarrow> (json list \<times> string) option"
and parse_members :: "nat \<Rightarrow> string \<Rightarrow> ((string \<times> json) list \<times> string) option" where
  "parse_val 0 s = None"
| "parse_val (Suc n) s = (case skip_ws s of
     [] \<Rightarrow> None
   | c # t \<Rightarrow>
       if c = dq then map_option (\<lambda>(r, u). (JStr r, u)) (scan_str t)
       else if c = CHR ''['' then
         (case skip_ws t of
            [] \<Rightarrow> None
          | d # u \<Rightarrow>
              if d = CHR '']'' then Some (JArr [], u)
              else map_option (\<lambda>(xs, v). (JArr xs, v)) (parse_elems n t))
       else if c = CHR ''{'' then
         (case skip_ws t of
            [] \<Rightarrow> None
          | d # u \<Rightarrow>
              if d = CHR ''}'' then Some (JObj [], u)
              else map_option (\<lambda>(ms, v). (JObj ms, v)) (parse_members n t))
       else if has_prefix (c # t) ''true'' then Some (JBool True, drop 3 t)
       else if has_prefix (c # t) ''false'' then Some (JBool False, drop 4 t)
       else if has_prefix (c # t) ''null'' then Some (JNull, drop 3 t)
       else map_option (\<lambda>(l, u). (JNum l, u)) (scan_num (c # t)))"
| "parse_elems 0 s = None"
| "parse_elems (Suc n) s = (case parse_val n s of
     None \<Rightarrow> None
   | Some (x, t) \<Rightarrow>
       (case skip_ws t of
          [] \<Rightarrow> None
        | c # u \<Rightarrow>
            if c = CHR '','' then map_option (\<lambda>(xs, v). (x # xs, v)) (parse_elems n u)
            else if c = CHR '']'' then Some ([x], u)
            else None))"
| "parse_members 0 s = None"
| "parse_members (Suc n) s = (case skip_ws s of
     [] \<Rightarrow> None
   | c # t \<Rightarrow>
       if c \<noteq> dq then None
       else (case scan_str t of
          None \<Rightarrow> None
        | Some (k, u) \<Rightarrow>
            (case skip_ws u of
               [] \<Rightarrow> None
             | c2 # v \<Rightarrow>
                 if c2 \<noteq> CHR '':'' then None
                 else (case parse_val n v of
                    None \<Rightarrow> None
                  | Some (x, w) \<Rightarrow>
                      (case skip_ws w of
                         [] \<Rightarrow> None
                       | c3 # y \<Rightarrow>
                           if c3 = CHR '','' then map_option (\<lambda>(ms, z). ((k, x) # ms, z)) (parse_members n y)
                           else if c3 = CHR ''}'' then Some ([(k, x)], y)
                           else None)))))"

definition json_parse :: "string \<Rightarrow> json option" where
  "json_parse s = (case parse_val (2 * length s + 2) s of
     Some (j, r) \<Rightarrow> if skip_ws r = [] then Some j else None
   | None \<Rightarrow> None)"

text \<open>Printing: \<open>nl d\<close> is the line break and indentation at depth \<open>d\<close>, \<open>sp\<close> what follows a colon.\<close>

fun jprint :: "(nat \<Rightarrow> string) \<Rightarrow> string \<Rightarrow> nat \<Rightarrow> json \<Rightarrow> string"
and jprint_elems :: "(nat \<Rightarrow> string) \<Rightarrow> string \<Rightarrow> nat \<Rightarrow> json list \<Rightarrow> string"
and jprint_members :: "(nat \<Rightarrow> string) \<Rightarrow> string \<Rightarrow> nat \<Rightarrow> (string \<times> json) list \<Rightarrow> string" where
  "jprint nl sp d JNull = ''null''"
| "jprint nl sp d (JBool b) = (if b then ''true'' else ''false'')"
| "jprint nl sp d (JNum l) = l"
| "jprint nl sp d (JStr r) = dq # r @ [dq]"
| "jprint nl sp d (JArr xs) =
     (if xs = [] then ''[]'' else ''['' @ nl (d + 1) @ jprint_elems nl sp (d + 1) xs @ nl d @ '']'')"
| "jprint nl sp d (JObj ms) =
     (if ms = [] then ''{}'' else ''{'' @ nl (d + 1) @ jprint_members nl sp (d + 1) ms @ nl d @ ''}'')"
| "jprint_elems nl sp d [] = []"
| "jprint_elems nl sp d (x # xs) =
     jprint nl sp d x @ (if xs = [] then [] else '','' @ nl d @ jprint_elems nl sp d xs)"
| "jprint_members nl sp d [] = []"
| "jprint_members nl sp d ((k, x) # ms) =
     dq # k @ [dq, CHR '':''] @ sp @ jprint nl sp d x
     @ (if ms = [] then [] else '','' @ nl d @ jprint_members nl sp d ms)"

definition print_compact :: "json \<Rightarrow> string" where
  "print_compact j = jprint (\<lambda>d. []) [] 0 j"

definition print_indent :: "json \<Rightarrow> string" where
  "print_indent j = jprint (\<lambda>d. CHR 0x0A # replicate (2 * d) (CHR '' '')) '' '' 0 j"

section \<open>Documents round trip\<close>

definition wf_raw :: "string \<Rightarrow> bool" where
  "wf_raw r \<longleftrightarrow> scan_str (r @ [dq]) = Some (r, [])"

definition wf_num :: "string \<Rightarrow> bool" where
  "wf_num l \<longleftrightarrow> l \<noteq> [] \<and> scan_num l = Some (l, [])"

fun wf_json :: "json \<Rightarrow> bool" where
  "wf_json JNull = True"
| "wf_json (JBool b) = True"
| "wf_json (JNum l) = wf_num l"
| "wf_json (JStr r) = wf_raw r"
| "wf_json (JArr xs) = (\<forall>x \<in> set xs. wf_json x)"
| "wf_json (JObj ms) = (\<forall>(k, x) \<in> set ms. wf_raw k \<and> wf_json x)"

declare parse_val.simps(2) [simp del] parse_elems.simps(2) [simp del] parse_members.simps(2) [simp del]

lemma scan_str_cases:
  assumes "scan_str (c # s) = Some (r, u)"
  obtains "c = dq" "r = []" "u = s"
  | d s' x r' where "c = bsl" "s = d # s'" "simple_esc d = Some x" "scan_str s' = Some (r', u)" "r = c # d # r'"
  | h s' r' where "c = bsl" "s = CHR ''u'' # h @ s'" "length h = 4" "list_all (\<lambda>x. hex_val x \<noteq> None) h"
      "scan_str s' = Some (r', u)" "r = c # CHR ''u'' # h @ r'"
  | r' where "c \<noteq> dq" "c \<noteq> bsl" "32 \<le> code c" "scan_str s = Some (r', u)" "r = c # r'"
proof (cases "c = bsl")
  case False
  then show thesis
    using assms that(1,4) by (auto simp: scan_str.simps(2) split: if_splits)
next
  case True
  then obtain d t where s: "s = d # t"
    using assms by (cases s) (auto simp: scan_str.simps(2))
  show thesis
  proof (cases "simple_esc d")
    case (Some x)
    then show thesis
      using assms that(2) [OF True s] True s by (auto simp: scan_str.simps(2))
  next
    case None
    obtain h1 h2 h3 h4 v where h: "d = CHR ''u''" "t = h1 # h2 # h3 # h4 # v"
        "list_all (\<lambda>x. hex_val x \<noteq> None) [h1, h2, h3, h4]"
      using assms True s None
      by (auto simp: scan_str.simps(2) split: if_splits list.splits)
    then show thesis
      using assms that(3) [of "[h1, h2, h3, h4]" v] True s None by (auto simp: scan_str.simps(2))
  qed
qed

lemma scan_str_hex:
  "length h = 4 \<Longrightarrow> list_all (\<lambda>x. hex_val x \<noteq> None) h \<Longrightarrow>
   scan_str (bsl # CHR ''u'' # h @ t) = map_option (\<lambda>(r, v). (bsl # CHR ''u'' # h @ r, v)) (scan_str t)"
  by (auto simp: scan_str.simps(2) simple_esc_def length_Suc_conv numeral_eq_Suc)

lemma scan_str_extend: "scan_str s = Some (r, u) \<Longrightarrow> scan_str (s @ t) = Some (r, u @ t)"
proof (induction s arbitrary: r u rule: length_induct)
  case (1 s)
  then obtain c s' where s: "s = c # s'" by (cases s) auto
  with 1(2) have "scan_str (c # s') = Some (r, u)" by simp
  then show ?case
  proof (cases rule: scan_str_cases)
    case 1
    then show ?thesis by (simp add: s scan_str.simps(2))
  next
    case (2 d s2 x r')
    with 1 s show ?thesis by (simp add: scan_str_simple)
  next
    case (3 h s2 r')
    with 1 s show ?thesis by (simp add: scan_str_hex)
  next
    case (4 r')
    with 1 s show ?thesis by (simp add: scan_str_plain)
  qed
qed

lemma wf_raw_scan: "wf_raw r \<Longrightarrow> scan_str (r @ dq # t) = Some (r, t)"
  using scan_str_extend [of "r @ [dq]" r "[]" t] by (simp add: wf_raw_def)

lemma wf_raw_quote [simp]: "valid_utf8 s \<Longrightarrow> wf_raw (quote_raw s)"
  by (simp add: wf_raw_def scan_str_quote_raw)

definition num_char :: "char \<Rightarrow> bool" where
  "num_char c \<longleftrightarrow> is_digit c \<or> c \<in> {CHR ''.'', CHR ''e'', CHR ''E'', CHR ''+'', CHR ''-''}"

definition stops :: "string \<Rightarrow> bool" where
  "stops t \<longleftrightarrow> t = [] \<or> \<not> num_char (hd t)"

lemma digits_stop:
  assumes "stops t"
  shows "takeWhile is_digit (s @ t) = takeWhile is_digit s"
    "dropWhile is_digit (s @ t) = dropWhile is_digit s @ t"
  using assms by (induction s) (cases t; auto simp: stops_def num_char_def)+

lemma scan_digits_extend: "stops t \<Longrightarrow> scan_digits s = Some (a, r) \<Longrightarrow> scan_digits (s @ t) = Some (a, r @ t)"
  by (auto simp: scan_digits_def digits_stop split: if_splits)

lemma scan_digits_extend_Cons:
  "stops t \<Longrightarrow> scan_digits (c # s) = Some (a, r) \<Longrightarrow> scan_digits (c # s @ t) = Some (a, r @ t)"
  using scan_digits_extend [of t "c # s"] by simp

lemma scan_parts_extend:
  assumes "stops t"
  shows "scan_int s = Some (a, r) \<Longrightarrow> scan_int (s @ t) = Some (a, r @ t)"
    and "scan_frac s = Some (a, r) \<Longrightarrow> scan_frac (s @ t) = Some (a, r @ t)"
    and "scan_exp s = Some (a, r) \<Longrightarrow> scan_exp (s @ t) = Some (a, r @ t)"
    and "scan_sign s = Some (a, r) \<Longrightarrow> scan_sign (s @ t) = Some (a, r @ t)"
proof -
  show "scan_int s = Some (a, r) \<Longrightarrow> scan_int (s @ t) = Some (a, r @ t)"
    using digits_stop [OF assms, of s]
    by (cases s) (auto simp: scan_int_def split: if_splits)
  show "scan_frac s = Some (a, r) \<Longrightarrow> scan_frac (s @ t) = Some (a, r @ t)"
    using assms scan_digits_extend [OF assms]
    by (cases s; cases t) (auto simp: scan_frac_def stops_def num_char_def split: if_splits)
  show "scan_exp s = Some (a, r) \<Longrightarrow> scan_exp (s @ t) = Some (a, r @ t)"
    using assms scan_digits_extend [OF assms] scan_digits_extend_Cons [OF assms]
    by (cases s; cases t) (auto simp: scan_exp_def stops_def num_char_def split: if_splits list.splits)
  show "scan_sign s = Some (a, r) \<Longrightarrow> scan_sign (s @ t) = Some (a, r @ t)"
    using assms
    by (cases s; cases t) (auto simp: scan_sign_def stops_def num_char_def split: if_splits)
qed

lemma scan_seq_extend:
  assumes "\<And>s a r. f s = Some (a, r) \<Longrightarrow> f (s @ t) = Some (a, r @ t)"
    and "\<And>s a r. g s = Some (a, r) \<Longrightarrow> g (s @ t) = Some (a, r @ t)"
    and "scan_seq f g s = Some (a, r)"
  shows "scan_seq f g (s @ t) = Some (a, r @ t)"
  using assms by (fastforce simp: scan_seq_def split: option.splits)

lemma scan_num_extend:
  assumes "stops t" "scan_num s = Some (a, r)"
  shows "scan_num (s @ t) = Some (a, r @ t)"
proof -
  note parts = scan_parts_extend [OF assms(1)]
  have 1: "scan_seq scan_frac scan_exp (s @ t) = Some (a, r @ t)"
    if "scan_seq scan_frac scan_exp s = Some (a, r)" for s a r
    using scan_seq_extend [of scan_frac t scan_exp, OF parts(2,3) that] .
  have 2: "scan_seq scan_int (scan_seq scan_frac scan_exp) (s @ t) = Some (a, r @ t)"
    if "scan_seq scan_int (scan_seq scan_frac scan_exp) s = Some (a, r)" for s a r
    using scan_seq_extend [of scan_int t "scan_seq scan_frac scan_exp", OF parts(1) 1 that] .
  show ?thesis
    using scan_seq_extend [of scan_sign t, OF parts(4) 2 assms(2) [unfolded scan_num_def]]
    by (simp add: scan_num_def)
qed

lemma wf_num_scan: "wf_num l \<Longrightarrow> stops t \<Longrightarrow> scan_num (l @ t) = Some (l, t)"
  using scan_num_extend [of t l l "[]"] by (simp add: wf_num_def)

lemma scan_seq_first: "scan_seq f g s = Some x \<Longrightarrow> f s \<noteq> None"
  by (auto simp: scan_seq_def split: option.splits)

lemma scan_seq_Nil: "f s = Some ([], s) \<Longrightarrow> scan_seq f g s = g s"
  by (simp add: scan_seq_def split: option.splits)

lemma wf_num_hd:
  assumes "wf_num l"
  obtains c t where "l = c # t" "c = CHR ''-'' \<or> is_digit c"
proof (cases l)
  case (Cons c t)
  have "is_digit c" if "c \<noteq> CHR ''-''"
  proof -
    have "scan_seq scan_int (scan_seq scan_frac scan_exp) l = Some (l, [])"
      using assms that Cons
      by (simp add: wf_num_def scan_num_def scan_seq_Nil [of scan_sign] scan_sign_def)
    from scan_seq_first [OF this] Cons show ?thesis
      by (simp add: scan_int_def is_digit_def code_in_def split: if_splits)
  qed
  with Cons that show thesis by blast
qed (use assms in \<open>simp add: wf_num_def\<close>)

definition ws_only :: "string \<Rightarrow> bool" where
  "ws_only w \<longleftrightarrow> (\<forall>c \<in> set w. is_ws c)"

lemma skip_ws_append [simp]: "ws_only w \<Longrightarrow> skip_ws (w @ t) = skip_ws t"
  by (induction w) (auto simp: ws_only_def skip_ws_def)

lemma skip_ws_Cons [simp]: "\<not> is_ws c \<Longrightarrow> skip_ws (c # t) = c # t"
  by (simp add: skip_ws_def)

lemma not_ws [simp]: "\<not> is_ws dq" "\<not> is_ws (CHR ''['')" "\<not> is_ws (CHR '']'')" "\<not> is_ws (CHR ''{'')"
  "\<not> is_ws (CHR ''}'')" "\<not> is_ws (CHR '','')" "\<not> is_ws (CHR '':'')" "\<not> is_ws (CHR ''t'')"
  "\<not> is_ws (CHR ''f'')" "\<not> is_ws (CHR ''n'')" "\<not> is_ws (CHR ''-'')"
  by (simp_all add: is_ws_def)

lemma digit_not_special:
  assumes "is_digit c"
  shows "\<not> is_ws c" "c \<noteq> dq" "c \<noteq> CHR ''[''" "c \<noteq> CHR ''{''" "c \<noteq> CHR ''t''" "c \<noteq> CHR ''f''"
    "c \<noteq> CHR ''n''" "c \<noteq> CHR '']''" "c \<noteq> CHR ''}''"
proof -
  have d: "48 \<le> code c" "code c \<le> 57"
    using assms by (simp_all add: is_digit_def code_in_def)
  show "\<not> is_ws c"
    using d by (auto simp: is_ws_def)
  show "c \<noteq> dq" "c \<noteq> CHR ''[''" "c \<noteq> CHR ''{''" "c \<noteq> CHR ''t''" "c \<noteq> CHR ''f''"
    "c \<noteq> CHR ''n''" "c \<noteq> CHR '']''" "c \<noteq> CHR ''}''"
    using d by auto
qed

lemma not_num_char: "\<not> num_char (CHR '','')" "\<not> num_char (CHR '']'')" "\<not> num_char (CHR ''}'')"
  "is_ws c \<Longrightarrow> \<not> num_char c"
  by (auto simp: num_char_def is_digit_def code_in_def is_ws_def)

lemma ws_stops: "ws_only w \<Longrightarrow> \<not> num_char c \<Longrightarrow> stops (w @ c # t)"
  by (cases w) (auto simp: stops_def ws_only_def not_num_char)

text \<open>The fuel a document needs.\<close>

fun jfuel :: "json \<Rightarrow> nat" and jfuel_elems :: "json list \<Rightarrow> nat" and jfuel_members :: "(string \<times> json) list \<Rightarrow> nat" where
  "jfuel (JArr xs) = Suc (jfuel_elems xs)"
| "jfuel (JObj ms) = Suc (jfuel_members ms)"
| "jfuel _ = 1"
| "jfuel_elems [] = 0"
| "jfuel_elems (x # xs) = Suc (max (jfuel x) (jfuel_elems xs))"
| "jfuel_members [] = 0"
| "jfuel_members ((k, x) # ms) = Suc (max (jfuel x) (jfuel_members ms))"

lemma jfuel_le:
  "wf_json j \<Longrightarrow> jfuel j \<le> length (jprint nl sp d j)"
  "\<forall>x \<in> set xs. wf_json x \<Longrightarrow> jfuel_elems xs \<le> length (jprint_elems nl sp d xs) + 1"
  "\<forall>(k, x) \<in> set ms. wf_raw k \<and> wf_json x \<Longrightarrow> jfuel_members ms \<le> length (jprint_members nl sp d ms) + 1"
proof (induction nl sp d j and nl sp d xs and nl sp d ms rule: jprint_jprint_elems_jprint_members.induct)
qed (simp_all add: wf_num_def Suc_le_eq, (auto simp: wf_num_def Suc_le_eq max_def)?)

text \<open>The first character of a printed value is never white space or a closing bracket.\<close>

lemma jprint_hd:
  assumes "wf_json j"
  shows "\<exists>c t. jprint nl sp d j = c # t \<and> \<not> is_ws c \<and> c \<noteq> CHR '']'' \<and> c \<noteq> CHR ''}''"
proof (cases j)
  case (JNum l)
  with assms obtain c t where l: "l = c # t" "c = CHR ''-'' \<or> is_digit c"
    by (auto elim: wf_num_hd)
  then have "\<not> is_ws c" "c \<noteq> CHR '']''" "c \<noteq> CHR ''}''"
    using digit_not_special [of c] by auto
  with l JNum show ?thesis by auto
qed auto

lemma jprint_elems_hd:
  assumes "xs \<noteq> []" "\<forall>x \<in> set xs. wf_json x"
  shows "\<exists>c t. jprint_elems nl sp d xs = c # t \<and> \<not> is_ws c \<and> c \<noteq> CHR '']''"
proof -
  obtain x ys where "xs = x # ys" using assms(1) by (cases xs) auto
  with assms(2) jprint_hd [of x nl sp d] show ?thesis by auto
qed

lemma jprint_members_hd:
  "ms \<noteq> [] \<Longrightarrow> \<exists>t. jprint_members nl sp d ms = dq # t"
  by (cases ms) auto

lemma parse_print:
  "(\<forall>d. ws_only (nl d)) \<Longrightarrow> ws_only sp \<Longrightarrow> wf_json j \<Longrightarrow> jfuel j \<le> n \<Longrightarrow> stops t \<Longrightarrow> ws_only w \<Longrightarrow>
     parse_val n (w @ jprint nl sp d j @ t) = Some (j, t)"
  "(\<forall>d. ws_only (nl d)) \<Longrightarrow> ws_only sp \<Longrightarrow> xs \<noteq> [] \<Longrightarrow> \<forall>x \<in> set xs. wf_json x \<Longrightarrow>
     jfuel_elems xs \<le> n \<Longrightarrow> ws_only w \<Longrightarrow> ws_only v \<Longrightarrow>
     parse_elems n (w @ jprint_elems nl sp d xs @ v @ CHR '']'' # t) = Some (xs, t)"
  "(\<forall>d. ws_only (nl d)) \<Longrightarrow> ws_only sp \<Longrightarrow> ms \<noteq> [] \<Longrightarrow> \<forall>(k, x) \<in> set ms. wf_raw k \<and> wf_json x \<Longrightarrow>
     jfuel_members ms \<le> n \<Longrightarrow> ws_only w \<Longrightarrow> ws_only v \<Longrightarrow>
     parse_members n (w @ jprint_members nl sp d ms @ v @ CHR ''}'' # t) = Some (ms, t)"
proof (induction nl sp d j and nl sp d xs and nl sp d ms arbitrary: n t w and n t w v and n t w v
    rule: jprint_jprint_elems_jprint_members.induct)
  case (1 nl sp d)
  then show ?case by (cases n) (simp_all add: parse_val.simps(2) has_prefix_def)
next
  case (2 nl sp d b)
  then show ?case by (cases n) (simp_all add: parse_val.simps(2) has_prefix_def)
next
  case (3 nl sp d l)
  obtain c r where l: "l = c # r" "c = CHR ''-'' \<or> is_digit c"
    using 3 by (auto elim: wf_num_hd)
  then have c: "\<not> is_ws c" "c \<noteq> dq" "c \<noteq> CHR ''[''" "c \<noteq> CHR ''{''" "c \<noteq> CHR ''t''" "c \<noteq> CHR ''f''" "c \<noteq> CHR ''n''"
    using digit_not_special [of c] by auto
  with 3 l wf_num_scan [of l t] show ?case
    by (cases n) (simp_all add: parse_val.simps(2) has_prefix_def)
next
  case (4 nl sp d r)
  then show ?case by (cases n) (simp_all add: parse_val.simps(2) wf_raw_scan)
next
  case (5 nl sp d xs)
  from 5(5) obtain m where n: "n = Suc m" "jfuel_elems xs \<le> m" by (cases n) auto
  show ?case
  proof (cases "xs = []")
    case True
    with 5 n show ?thesis by (simp add: parse_val.simps(2))
  next
    case False
    with 5 n have "parse_elems m (nl (d + 1) @ jprint_elems nl sp (d + 1) xs @ nl d @ CHR '']'' # t) = Some (xs, t)"
      by simp
    moreover obtain c r where "jprint_elems nl sp (d + 1) xs = c # r" "\<not> is_ws c" "c \<noteq> CHR '']''"
      using 5 False jprint_elems_hd [of xs nl sp "d + 1"] by auto
    ultimately show ?thesis
      using 5 False n by (simp add: parse_val.simps(2))
  qed
next
  case (6 nl sp d ms)
  from 6(5) obtain m where n: "n = Suc m" "jfuel_members ms \<le> m" by (cases n) auto
  show ?case
  proof (cases "ms = []")
    case True
    with 6 n show ?thesis by (simp add: parse_val.simps(2))
  next
    case False
    with 6 n have "parse_members m (nl (d + 1) @ jprint_members nl sp (d + 1) ms @ nl d @ CHR ''}'' # t) = Some (ms, t)"
      by simp
    moreover obtain r where "jprint_members nl sp (d + 1) ms = dq # r"
      using False jprint_members_hd [of ms nl sp "d + 1"] by auto
    ultimately show ?thesis
      using 6 False n by (simp add: parse_val.simps(2))
  qed
next
  case (7 nl sp d)
  then show ?case by simp
next
  case (8 nl sp d x xs)
  from 8(7) obtain m where n: "n = Suc m" "jfuel x \<le> m" "jfuel_elems xs \<le> m" by (cases n) auto
  show ?case
  proof (cases "xs = []")
    case True
    have "parse_val m (w @ jprint nl sp d x @ (v @ CHR '']'' # t)) = Some (x, v @ CHR '']'' # t)"
      using 8 n ws_stops not_num_char by (intro "8.IH"(1)) auto
    with True 8 n show ?thesis by (simp add: parse_elems.simps(2))
  next
    case False
    let ?r = "nl d @ jprint_elems nl sp d xs @ v @ CHR '']'' # t"
    have "parse_val m (w @ jprint nl sp d x @ (CHR '','' # ?r)) = Some (x, CHR '','' # ?r)"
      using 8 n ws_stops [of "[]"] not_num_char by (intro "8.IH"(1)) (auto simp: ws_only_def)
    moreover have "parse_elems m ?r = Some (xs, t)"
      using 8 n False by (intro "8.IH"(2)) auto
    ultimately show ?thesis using False n by (simp add: parse_elems.simps(2))
  qed
next
  case (9 nl sp d)
  then show ?case by simp
next
  case (10 nl sp d k x ms)
  from 10(7) obtain m where n: "n = Suc m" "jfuel x \<le> m" "jfuel_members ms \<le> m" by (cases n) auto
  have k: "wf_raw k" using 10 by simp
  show ?case
  proof (cases "ms = []")
    case True
    have "parse_val m (sp @ jprint nl sp d x @ (v @ CHR ''}'' # t)) = Some (x, v @ CHR ''}'' # t)"
      using 10 n ws_stops not_num_char by (intro "10.IH"(1)) auto
    with True 10 n k show ?thesis by (simp add: parse_members.simps(2) wf_raw_scan)
  next
    case False
    let ?r = "nl d @ jprint_members nl sp d ms @ v @ CHR ''}'' # t"
    have "parse_val m (sp @ jprint nl sp d x @ (CHR '','' # ?r)) = Some (x, CHR '','' # ?r)"
      using 10 n ws_stops [of "[]"] not_num_char by (intro "10.IH"(1)) (auto simp: ws_only_def)
    moreover have "parse_members m ?r = Some (ms, t)"
      using 10 n False by (intro "10.IH"(2)) auto
    ultimately show ?thesis using False n k 10 by (simp add: parse_members.simps(2) wf_raw_scan)
  qed
qed

theorem json_parse_print:
  assumes "wf_json j" "\<forall>d. ws_only (nl d)" "ws_only sp"
  shows "json_parse (jprint nl sp d j) = Some j"
proof -
  have "jfuel j \<le> 2 * length (jprint nl sp d j) + 2"
    using jfuel_le(1) [OF assms(1), of nl sp d] by simp
  from parse_print(1) [OF assms(2,3,1) this, of "[]" "[]" d]
  show ?thesis by (simp add: json_parse_def stops_def ws_only_def skip_ws_def)
qed

lemma json_parse_compact: "wf_json j \<Longrightarrow> json_parse (print_compact j) = Some j"
  unfolding print_compact_def by (rule json_parse_print) (simp_all add: ws_only_def)

lemma json_parse_indent: "wf_json j \<Longrightarrow> json_parse (print_indent j) = Some j"
  unfolding print_indent_def by (rule json_parse_print) (simp_all add: ws_only_def is_ws_def)

end
