(* ===== verification/Go_Codec.thy ===== *)
theory Go_Codec
  imports Go_Json
begin

text \<open>
  Go values to JSON and back: decimal integers, strings, maps of raw messages, slices, structs
  and RFC 3339 times. A decoder takes the value the field already has, because
  \<open>json.Unmarshal\<close> decodes over it, and returns \<open>None\<close> for the type errors \<open>Unmarshal\<close> reports.
\<close>

section \<open>Integers\<close>

definition digit_char :: "nat \<Rightarrow> char" where
  "digit_char n = char_of (48 + n)"

fun nat_str :: "nat \<Rightarrow> string" where
  "nat_str n = (if n < 10 then [digit_char n] else nat_str (n div 10) @ [digit_char (n mod 10)])"

declare nat_str.simps [simp del]

definition int_str :: "int \<Rightarrow> string" where
  "int_str i = (if i < 0 then CHR ''-'' # nat_str (nat (- i)) else nat_str (nat i))"

definition digits_val :: "string \<Rightarrow> nat" where
  "digits_val s = foldl (\<lambda>acc c. 10 * acc + (code c - 48)) 0 s"

text \<open>\<open>strconv.ParseUint\<close> and \<open>strconv.ParseInt\<close> in base 10, on JSON number literals.\<close>

definition parse_uint :: "nat \<Rightarrow> string \<Rightarrow> nat option" where
  "parse_uint bits s =
     (if s \<noteq> [] \<and> list_all is_digit s \<and> digits_val s < 2 ^ bits then Some (digits_val s) else None)"

definition parse_int :: "nat \<Rightarrow> string \<Rightarrow> int option" where
  "parse_int bits s =
     (let neg = has_prefix s ''-''; ds = trim_prefix s ''-'' in
      if ds = [] \<or> \<not> list_all is_digit ds then None
      else let v = (if neg then - int (digits_val ds) else int (digits_val ds)) in
        if - (2 ^ (bits - 1)) \<le> v \<and> v < 2 ^ (bits - 1) then Some v else None)"

section \<open>Marshalling\<close>

text \<open>\<open>compact\<close> with HTML escaping over a whole raw message.\<close>

fun jesc :: "json \<Rightarrow> json" where
  "jesc (JStr r) = JStr (esc_html r)"
| "jesc (JArr xs) = JArr (map jesc xs)"
| "jesc (JObj ms) = JObj (map (\<lambda>(k, x). (esc_html k, jesc x)) ms)"
| "jesc j = j"

definition js_string :: "string \<Rightarrow> json" where "js_string s = JStr (quote_raw s)"
definition js_nat :: "nat \<Rightarrow> json" where "js_nat n = JNum (nat_str n)"
definition js_int :: "int \<Rightarrow> json" where "js_int i = JNum (int_str i)"

definition js_map :: "('a \<Rightarrow> json) \<Rightarrow> (string, 'a) gomap \<Rightarrow> json" where
  "js_map f m = JObj (map (\<lambda>(k, v). (quote_raw k, f v)) m)"

text \<open>A struct: the fields that are not elided, in declaration order.\<close>

definition js_struct :: "(string \<times> json option) list \<Rightarrow> json" where
  "js_struct fs = JObj (concat (map (\<lambda>(k, v). case v of None \<Rightarrow> [] | Some j \<Rightarrow> [(quote_raw k, j)]) fs))"

definition marshal_raw_map :: "(string, json) gomap \<Rightarrow> json" where
  "marshal_raw_map m = js_map jesc m"

section \<open>Unmarshalling\<close>

definition dec_string :: "json \<Rightarrow> string \<Rightarrow> string option" where
  "dec_string j old = (case j of JNull \<Rightarrow> Some old | JStr r \<Rightarrow> Some (unquote r) | _ \<Rightarrow> None)"

definition dec_bool :: "json \<Rightarrow> bool \<Rightarrow> bool option" where
  "dec_bool j old = (case j of JNull \<Rightarrow> Some old | JBool b \<Rightarrow> Some b | _ \<Rightarrow> None)"

definition dec_uint :: "nat \<Rightarrow> json \<Rightarrow> nat \<Rightarrow> nat option" where
  "dec_uint bits j old = (case j of JNull \<Rightarrow> Some old | JNum l \<Rightarrow> parse_uint bits l | _ \<Rightarrow> None)"

definition dec_int :: "nat \<Rightarrow> json \<Rightarrow> int \<Rightarrow> int option" where
  "dec_int bits j old = (case j of JNull \<Rightarrow> Some old | JNum l \<Rightarrow> parse_int bits l | _ \<Rightarrow> None)"

fun fold_opt :: "('a \<Rightarrow> 'b \<Rightarrow> 'b option) \<Rightarrow> 'a list \<Rightarrow> 'b \<Rightarrow> 'b option" where
  "fold_opt f [] b = Some b"
| "fold_opt f (a # as) b = (case f a b of None \<Rightarrow> None | Some b' \<Rightarrow> fold_opt f as b')"

text \<open>A map: null gives the nil map, an object is decoded entry by entry over the old one.\<close>

definition dec_map :: "(json \<Rightarrow> 'a option) \<Rightarrow> json \<Rightarrow> (string, 'a) gomap \<Rightarrow> (string, 'a) gomap option" where
  "dec_map f j old = (case j of
     JNull \<Rightarrow> Some []
   | JObj ms \<Rightarrow> fold_opt (\<lambda>(k, x) m. map_option (\<lambda>v. mput (unquote k) v m) (f x)) ms old
   | _ \<Rightarrow> None)"

definition dec_slice :: "(json \<Rightarrow> 'a option) \<Rightarrow> json \<Rightarrow> 'a list option" where
  "dec_slice f j = (case j of
     JNull \<Rightarrow> Some []
   | JArr xs \<Rightarrow> those (map f xs)
   | _ \<Rightarrow> None)"

text \<open>\<open>foldName\<close>: the case folding of field names, which maps the long s and the Kelvin sign
  to their ASCII letters as well.\<close>

definition up_char :: "char \<Rightarrow> char" where
  "up_char c = (if code_in 97 122 c then char_of (code c - 32) else c)"

fun fold_name :: "string \<Rightarrow> string" where
  "fold_name [] = []"
| "fold_name (c # s) =
     (if has_prefix (c # s) [CHR 0xC5, CHR 0xBF] then CHR ''S'' # fold_name (drop 1 s)
      else if has_prefix (c # s) [CHR 0xE2, CHR 0x84, CHR 0xAA] then CHR ''K'' # fold_name (drop 2 s)
      else up_char c # fold_name s)"

definition field_for :: "string list \<Rightarrow> string \<Rightarrow> string option" where
  "field_for names k =
     (if k \<in> set names then Some k
      else List.find (\<lambda>n. fold_name n = fold_name k) names)"

definition dec_struct :: "string list \<Rightarrow> (string \<Rightarrow> json \<Rightarrow> 'r \<Rightarrow> 'r option) \<Rightarrow> json \<Rightarrow> 'r \<Rightarrow> 'r option" where
  "dec_struct names f j r = (case j of
     JNull \<Rightarrow> Some r
   | JObj ms \<Rightarrow>
       fold_opt (\<lambda>(k, x) r. case field_for names (unquote k) of None \<Rightarrow> Some r | Some n \<Rightarrow> f n x r) ms r
   | _ \<Rightarrow> None)"

text \<open>\<open>json.Unmarshal\<close> into a \<open>map[string]json.RawMessage\<close>; the outer option is the error, the
  inner one the nil map null gives.\<close>

definition unmarshal_raw_map :: "string \<Rightarrow> (string, json) gomap option option" where
  "unmarshal_raw_map s = (case json_parse s of
     Some JNull \<Rightarrow> Some None
   | Some (JObj ms) \<Rightarrow> Some (Some (mput_all (map (\<lambda>(k, x). (unquote k, x)) ms) []))
   | _ \<Rightarrow> None)"

section \<open>Times\<close>

text \<open>A \<open>time.Time\<close> by the fields of its wall clock and its zone offset in minutes.\<close>

record gotime =
  year :: nat
  month :: nat
  day :: nat
  hour :: nat
  minute :: nat
  second :: nat
  nanos :: nat
  zone :: int

definition is_leap :: "nat \<Rightarrow> bool" where
  "is_leap y \<longleftrightarrow> y mod 4 = 0 \<and> (y mod 100 \<noteq> 0 \<or> y mod 400 = 0)"

definition days_in :: "nat \<Rightarrow> nat \<Rightarrow> nat" where
  "days_in m y = (if m = 2 then (if is_leap y then 29 else 28)
     else if m = 4 \<or> m = 6 \<or> m = 9 \<or> m = 11 then 30 else 31)"

definition wf_time :: "gotime \<Rightarrow> bool" where
  "wf_time t \<longleftrightarrow> year t \<le> 9999 \<and> 1 \<le> month t \<and> month t \<le> 12 \<and> 1 \<le> day t \<and> day t \<le> days_in (month t) (year t)
     \<and> hour t \<le> 23 \<and> minute t \<le> 59 \<and> second t \<le> 59 \<and> nanos t < 1000000000 \<and> - 1440 < zone t \<and> zone t < 1440"

definition pad2 :: "nat \<Rightarrow> string" where
  "pad2 n = [digit_char (n div 10 mod 10), digit_char (n mod 10)]"

definition pad4 :: "nat \<Rightarrow> string" where
  "pad4 n = pad2 (n div 100) @ pad2 (n mod 100)"

definition pad9 :: "nat \<Rightarrow> string" where
  "pad9 n = digit_char (n div 100000000 mod 10) # pad4 (n div 10000 mod 10000) @ pad4 (n mod 10000)"

definition trim_zeros :: "string \<Rightarrow> string" where
  "trim_zeros s = rev (dropWhile (\<lambda>c. c = CHR ''0'') (rev s))"

text \<open>\<open>RFC3339Nano\<close>, the layout \<open>Time.MarshalJSON\<close> uses.\<close>

definition format_time :: "gotime \<Rightarrow> string" where
  "format_time t =
     pad4 (year t) @ ''-'' @ pad2 (month t) @ ''-'' @ pad2 (day t) @ ''T''
     @ pad2 (hour t) @ '':'' @ pad2 (minute t) @ '':'' @ pad2 (second t)
     @ (if nanos t = 0 then [] else ''.'' @ trim_zeros (pad9 (nanos t)))
     @ (if zone t = 0 then ''Z''
        else (if zone t < 0 then ''-'' else ''+'')
             @ pad2 (nat \<bar>zone t\<bar> div 60) @ '':'' @ pad2 (nat \<bar>zone t\<bar> mod 60))"

definition num_in :: "nat \<Rightarrow> nat \<Rightarrow> string \<Rightarrow> nat option" where
  "num_in lo hi s =
     (if list_all is_digit s \<and> lo \<le> digits_val s \<and> digits_val s \<le> hi then Some (digits_val s) else None)"

definition parse_zone :: "string \<Rightarrow> int option" where
  "parse_zone s =
     (if s = ''Z'' then Some 0
      else if length s = 6 \<and> (s ! 0 = CHR ''-'' \<or> s ! 0 = CHR ''+'') \<and> s ! 3 = CHR '':'' then
        (case (num_in 0 23 (take 2 (drop 1 s)), num_in 0 59 (drop 4 s)) of
           (Some h, Some m) \<Rightarrow>
             Some (if s ! 0 = CHR ''-'' then - int (h * 60 + m) else int (h * 60 + m))
         | _ \<Rightarrow> None)
      else None)"

text \<open>The fraction after the seconds: up to nine digits count.\<close>

definition parse_frac :: "string \<Rightarrow> nat \<times> string" where
  "parse_frac s = (case s of
     c # d # _ \<Rightarrow>
       if c = CHR ''.'' \<and> is_digit d then
         (let ds = takeWhile is_digit (tl s); ds9 = take 9 ds in
          (digits_val ds9 * 10 ^ (9 - length ds9), drop (length ds) (tl s)))
       else (0, s)
   | _ \<Rightarrow> (0, s))"

definition parse_time :: "string \<Rightarrow> gotime option" where
  "parse_time s =
     (if length s < 19 then None
      else if \<not> (s ! 4 = CHR ''-'' \<and> s ! 7 = CHR ''-'' \<and> s ! 10 = CHR ''T'' \<and> s ! 13 = CHR '':'' \<and> s ! 16 = CHR '':'')
      then None
      else
        (case (num_in 0 9999 (take 4 s), num_in 1 12 (take 2 (drop 5 s))) of
           (Some y, Some mo) \<Rightarrow>
             (case (num_in 1 (days_in mo y) (take 2 (drop 8 s)), num_in 0 23 (take 2 (drop 11 s)),
                    num_in 0 59 (take 2 (drop 14 s)), num_in 0 59 (take 2 (drop 17 s))) of
                (Some d, Some h, Some mi, Some se) \<Rightarrow>
                  (case parse_frac (drop 19 s) of (ns, r) \<Rightarrow>
                     map_option (\<lambda>z. \<lparr>year = y, month = mo, day = d, hour = h, minute = mi, second = se,
                                       nanos = ns, zone = z\<rparr>)
                       (parse_zone r))
              | _ \<Rightarrow> None)
         | _ \<Rightarrow> None))"

definition js_time :: "gotime \<Rightarrow> json" where
  "js_time t = JStr (format_time t)"

text \<open>\<open>Time.UnmarshalJSON\<close> reads the literal without undoing escapes.\<close>

definition dec_time :: "json \<Rightarrow> gotime \<Rightarrow> gotime option" where
  "dec_time j old = (case j of JNull \<Rightarrow> Some old | JStr r \<Rightarrow> parse_time r | _ \<Rightarrow> None)"

definition zero_time :: gotime where
  "zero_time = \<lparr>year = 1, month = 1, day = 1, hour = 0, minute = 0, second = 0, nanos = 0, zone = 0\<rparr>"

text \<open>\<open>Time.Truncate(time.Second)\<close>.\<close>

definition truncate_second :: "gotime \<Rightarrow> gotime" where
  "truncate_second t = t\<lparr>nanos := 0\<rparr>"

section \<open>Integers round trip\<close>

lemma code_digit_char [simp]: "n < 10 \<Longrightarrow> code (digit_char n) = 48 + n"
  by (simp add: digit_char_def)

lemma is_digit_digit_char [simp]: "n < 10 \<Longrightarrow> is_digit (digit_char n)"
  by (simp add: is_digit_def code_in_def)

lemma digits_val_snoc: "digits_val (s @ [c]) = 10 * digits_val s + (code c - 48)"
  by (simp add: digits_val_def)

lemma nat_str_nonempty [simp]: "nat_str n \<noteq> []"
  by (subst nat_str.simps) simp

lemma digits_nat_str: "list_all is_digit (nat_str n)"
proof (induction n rule: nat_str.induct)
  case (1 n)
  then show ?case by (subst nat_str.simps) auto
qed

lemma digits_val_nat_str [simp]: "digits_val (nat_str n) = n"
proof (induction n rule: nat_str.induct)
  case (1 n)
  show ?case
  proof (cases "n < 10")
    case True
    then show ?thesis by (simp add: nat_str.simps digits_val_def)
  next
    case False
    with 1 have "digits_val (nat_str (n div 10) @ [digit_char (n mod 10)]) = n"
      by (simp add: digits_val_snoc)
    with False show ?thesis by (metis nat_str.simps)
  qed
qed

lemma hd_nat_str: "0 < n \<Longrightarrow> hd (nat_str n) \<noteq> CHR ''0''"
proof (induction n rule: nat_str.induct)
  case (1 n)
  show ?case
  proof (cases "n < 10")
    case True
    have "code (digit_char n) \<noteq> 48"
      using True 1 by simp
    then have "digit_char n \<noteq> CHR ''0''" by fastforce
    with True show ?thesis by (simp add: nat_str.simps)
  next
    case False
    with 1 show ?thesis by (subst nat_str.simps) simp
  qed
qed

lemma all_digits_while: "list_all is_digit s \<Longrightarrow> takeWhile is_digit s = s" "list_all is_digit s \<Longrightarrow> dropWhile is_digit s = []"
  by (auto simp: list_all_iff)

lemma scan_int_nat_str: "scan_int (nat_str n) = Some (nat_str n, [])"
proof (cases "n = 0")
  case True
  have "digit_char 0 = CHR ''0''" by (simp add: digit_char_def char_of_def bit_numeral_rec bit_Suc bit_0)
  with True show ?thesis by (simp add: nat_str.simps scan_int_def)
next
  case False
  obtain c s where cs: "nat_str n = c # s" by (cases "nat_str n") auto
  with False hd_nat_str [of n] digits_nat_str [of n] have "c \<noteq> CHR ''0''" "is_digit c" "list_all is_digit s"
    by auto
  with cs show ?thesis by (simp add: scan_int_def all_digits_while)
qed

lemma scan_tail_Nil: "scan_seq scan_frac scan_exp [] = Some ([], [])"
  by (simp add: scan_seq_def scan_frac_def scan_exp_def)

lemma wf_num_nat_str [simp]: "wf_num (nat_str n)"
proof -
  obtain c s where cs: "nat_str n = c # s" by (cases "nat_str n") auto
  then have "c \<noteq> CHR ''-''"
    using digits_nat_str [of n] by (auto simp: is_digit_def code_in_def)
  then have "scan_sign (nat_str n) = Some ([], nat_str n)"
    by (simp add: cs scan_sign_def)
  then show ?thesis
    by (simp add: wf_num_def scan_num_def scan_seq_Nil)
       (simp add: scan_seq_def [of scan_int] scan_int_nat_str scan_tail_Nil)
qed

lemma wf_num_int_str [simp]: "wf_num (int_str i)"
proof (cases "i < 0")
  case True
  then show ?thesis
    by (simp add: int_str_def wf_num_def scan_num_def scan_seq_def [of scan_sign] scan_sign_def)
       (simp add: scan_seq_def [of scan_int] scan_int_nat_str scan_tail_Nil)
qed (simp add: int_str_def)

lemma parse_uint_nat_str [simp]: "n < 2 ^ bits \<Longrightarrow> parse_uint bits (nat_str n) = Some n"
  by (simp add: parse_uint_def digits_nat_str)

lemma nat_str_no_minus: "\<not> has_prefix (nat_str n) ''-''"
proof
  assume "has_prefix (nat_str n) ''-''"
  then obtain t where "nat_str n = CHR ''-'' # t" by (auto simp: has_prefix_iff)
  with digits_nat_str [of n] show False by (simp add: is_digit_def code_in_def)
qed

lemma parse_int_int_str [simp]:
  assumes "- (2 ^ (bits - 1)) \<le> i" "i < 2 ^ (bits - 1)"
  shows "parse_int bits (int_str i) = Some i"
proof (cases "i < 0")
  case True
  have "has_prefix (CHR ''-'' # nat_str (nat (- i))) ''-''" "trim_prefix (CHR ''-'' # nat_str (nat (- i))) ''-'' = nat_str (nat (- i))"
    by (simp_all add: has_prefix_def trim_prefix_def)
  with True assms show ?thesis
    by (simp add: parse_int_def int_str_def digits_nat_str)
next
  case False
  with assms show ?thesis
    by (simp add: parse_int_def int_str_def digits_nat_str nat_str_no_minus trim_prefix_def)
qed

section \<open>Escaped messages stay as they are\<close>

lemma esc_html_plain:
  "code c < 128 \<Longrightarrow> c \<noteq> CHR 0x3C \<Longrightarrow> c \<noteq> CHR 0x3E \<Longrightarrow> c \<noteq> CHR 0x26 \<Longrightarrow> esc_html (c # s) = c # esc_html s"
  by (auto simp: esc_html.simps(2) has_prefix_def ls_sep_def ps_sep_def)

lemma hex_digit_plain: "n < 16 \<Longrightarrow> code (hex_digit n) < 128 \<and> hex_digit n \<noteq> CHR 0x3C \<and> hex_digit n \<noteq> CHR 0x3E \<and> hex_digit n \<noteq> CHR 0x26"
  using is_lower_hex_digit [of n] by (auto simp: is_lower_hex_def Let_def)

lemma esc_html_u_esc: "esc_html (u_esc n @ s) = u_esc n @ esc_html s"
  by (simp add: u_esc_def esc_html_plain hex_digit_plain)

lemma esc_html_esc_ascii: "code c < 128 \<Longrightarrow> esc_html (esc_ascii c @ s) = esc_ascii c @ esc_html s"
proof (cases "short_esc c")
  case None
  moreover assume "code c < 128"
  ultimately show ?thesis
    by (auto simp: esc_ascii_def esc_html_u_esc esc_html_plain)
next
  case (Some d)
  then have "code d < 128" "d \<noteq> CHR 0x3C" "d \<noteq> CHR 0x3E" "d \<noteq> CHR 0x26"
    by (auto simp: short_esc_def split: if_splits)
  with Some show ?thesis
    by (simp add: esc_ascii_def esc_html_plain)
qed

lemma esc_html_cont: "code_in 128 191 c \<Longrightarrow> esc_html (c # s) = c # esc_html s"
  by (auto simp: esc_html.simps(2) has_prefix_def ls_sep_def ps_sep_def code_in_def)

lemma utf8_unit_tail: "utf8_unit (a # p) \<Longrightarrow> c \<in> set p \<Longrightarrow> is_cont c"
  by (auto elim!: utf8_unit_cases simp: code_in_def split: if_splits)

lemma esc_html_conts: "\<forall>c \<in> set p. is_cont c \<Longrightarrow> esc_html (p @ s) = p @ esc_html s"
  by (induction p) (simp_all add: esc_html_cont)

lemma esc_html_high:
  assumes "utf8_unit (a # p)" "\<not> code a < 128" "a # p \<noteq> ls_sep" "a # p \<noteq> ps_sep"
  shows "esc_html (a # p @ s) = a # p @ esc_html s"
proof -
  have "\<not> has_prefix ((a # p) @ s) ls_sep" "\<not> has_prefix ((a # p) @ s) ps_sep"
    using assms utf8_unit_prefix sep_units by blast+
  moreover have "a \<noteq> CHR 0x3C" "a \<noteq> CHR 0x3E" "a \<noteq> CHR 0x26" using assms(2) by auto
  ultimately have "esc_html (a # p @ s) = a # esc_html (p @ s)"
    by (simp add: esc_html.simps(2))
  then show ?thesis
    using esc_html_conts utf8_unit_tail [OF assms(1)] by metis
qed

lemma esc_html_unit_quote:
  assumes "utf8_unit u"
  shows "esc_html (unit_quote u @ r) = unit_quote u @ esc_html r"
  using assms
proof (cases rule: utf8_unit_shape)
  case (2 a p)
  with assms show ?thesis
    by (auto simp: unit_quote_def esc_html_u_esc esc_html_high)
qed (simp add: unit_quote_def esc_html_esc_ascii)

lemma esc_html_quote_raw [simp]: "valid_utf8 s \<Longrightarrow> esc_html (quote_raw s) = quote_raw s"
proof (induction s rule: length_induct)
  case (1 s)
  show ?case
  proof (cases "s = []")
    case False
    then obtain u t where "s = u @ t" "utf8_unit u" "valid_utf8 t" "length t < length s"
      using 1 valid_utf8_cases by blast
    with 1 show ?thesis by (simp add: quote_raw_unit esc_html_unit_quote)
  qed simp
qed

section \<open>Times round trip\<close>

definition plain_char :: "char \<Rightarrow> bool" where
  "plain_char c \<longleftrightarrow> is_digit c \<or> c \<in> set ''-:.TZ+''"

lemma plain_char_scan: "list_all plain_char r \<Longrightarrow> scan_str (r @ t) = map_option (\<lambda>(x, y). (r @ x, y)) (scan_str t)"
proof (induction r)
  case (Cons c r)
  then have "32 \<le> code c" "c \<noteq> dq" "c \<noteq> bsl"
    by (auto simp: plain_char_def is_digit_def code_in_def)
  with Cons show ?case by (simp add: scan_str_plain option.map_comp comp_def split_def)
qed (simp add: option.map_ident split_def)

lemma plain_char_wf: "list_all plain_char r \<Longrightarrow> wf_raw r"
  using plain_char_scan [of r "[dq]"] by (simp add: wf_raw_def scan_str.simps(2))

lemma plain_char_esc: "list_all plain_char r \<Longrightarrow> esc_html r = r"
proof (induction r)
  case (Cons c r)
  then have "code c < 128" "c \<noteq> CHR 0x3C" "c \<noteq> CHR 0x3E" "c \<noteq> CHR 0x26"
    by (auto simp: plain_char_def is_digit_def code_in_def)
  with Cons show ?case by (simp add: esc_html_plain)
qed simp

lemma digits_pad2: "list_all is_digit (pad2 n)" "length (pad2 n) = 2"
  by (simp_all add: pad2_def)

lemma digits_pad4: "list_all is_digit (pad4 n)" "length (pad4 n) = 4"
  using digits_pad2 by (simp_all add: pad4_def)

lemma digits_val_append: "digits_val (s @ t) = digits_val s * 10 ^ length t + digits_val t"
proof (induction t rule: rev_induct)
  case (snoc c t)
  then show ?case
    by (simp add: digits_val_snoc append_assoc [symmetric] algebra_simps del: append_assoc)
qed (simp add: digits_val_def)

lemma digits_val_pad2: "n < 100 \<Longrightarrow> digits_val (pad2 n) = n"
  by (simp add: pad2_def digits_val_def)

lemma digits_val_pad4: "n < 10000 \<Longrightarrow> digits_val (pad4 n) = n"
  by (simp add: pad4_def digits_val_append digits_val_pad2 digits_pad2)

lemma digits_pad9: "list_all is_digit (pad9 n)" "length (pad9 n) = 9"
  using digits_pad4 by (simp_all add: pad9_def)

lemma digits_val_pad9: "n < 1000000000 \<Longrightarrow> digits_val (pad9 n) = n"
proof -
  assume n: "n < 1000000000"
  have "n mod 100000000 = 10000 * (n div 10000 mod 10000) + n mod 10000"
    using mod_mult2_eq [of n 10000 10000] by simp
  then have "n = 100000000 * (n div 100000000) + 10000 * (n div 10000 mod 10000) + n mod 10000"
    using mult_div_mod_eq [of 100000000 n] by linarith
  moreover have "n div 100000000 < 10" using n by linarith
  ultimately show ?thesis
    using digits_val_append [of "[digit_char (n div 100000000 mod 10)]" "pad4 (n div 10000 mod 10000) @ pad4 (n mod 10000)"]
    by (simp add: pad9_def digits_val_append digits_val_pad4 digits_pad4) (simp add: digits_val_def)
qed

lemma trim_zeros_val:
  "digits_val (trim_zeros s) * 10 ^ (length s - length (trim_zeros s)) = digits_val s"
  "length (trim_zeros s) \<le> length s" "list_all is_digit s \<Longrightarrow> list_all is_digit (trim_zeros s)"
  "digits_val s \<noteq> 0 \<Longrightarrow> trim_zeros s \<noteq> []"
proof -
  let ?z = "rev (takeWhile (\<lambda>c. c = CHR ''0'') (rev s))"
  have s: "s = trim_zeros s @ ?z"
    by (metis rev_append rev_rev_ident takeWhile_dropWhile_id trim_zeros_def)
  have z: "set z \<subseteq> {CHR ''0''} \<Longrightarrow> digits_val z = 0" for z
    by (induction z rule: rev_induct) (auto simp: digits_val_snoc, simp add: digits_val_def)
  have zv: "digits_val ?z = 0"
    by (rule z) (auto dest: set_takeWhileD)
  have len: "length s - length (trim_zeros s) = length ?z"
    using arg_cong [OF s, of length] by simp
  show "digits_val (trim_zeros s) * 10 ^ (length s - length (trim_zeros s)) = digits_val s"
    unfolding len using digits_val_append [of "trim_zeros s" ?z] zv s [symmetric] by simp
  show "length (trim_zeros s) \<le> length s"
    using arg_cong [OF s, of length] by simp
  show "list_all is_digit s \<Longrightarrow> list_all is_digit (trim_zeros s)"
    using arg_cong [OF s, of "list_all is_digit"] by simp
  show "digits_val s \<noteq> 0 \<Longrightarrow> trim_zeros s \<noteq> []"
    using s zv by force
qed

lemma num_in_pad2: "n < 100 \<Longrightarrow> lo \<le> n \<Longrightarrow> n \<le> hi \<Longrightarrow> num_in lo hi (pad2 n) = Some n"
  by (simp add: num_in_def digits_val_pad2 digits_pad2)

lemma num_in_pad4: "n \<le> 9999 \<Longrightarrow> num_in 0 9999 (pad4 n) = Some n"
  by (simp add: num_in_def digits_val_pad4 digits_pad4)

lemma pad2_shape: "\<exists>a b. pad2 n = [a, b]"
  by (simp add: pad2_def)

lemma pad4_shape: "\<exists>a b c d. pad4 n = [a, b, c, d]"
  by (simp add: pad4_def pad2_def)

definition zone_str :: "int \<Rightarrow> string" where
  "zone_str z = (if z = 0 then ''Z''
     else (if z < 0 then ''-'' else ''+'') @ pad2 (nat \<bar>z\<bar> div 60) @ '':'' @ pad2 (nat \<bar>z\<bar> mod 60))"

definition frac_str :: "nat \<Rightarrow> string" where
  "frac_str n = (if n = 0 then [] else ''.'' @ trim_zeros (pad9 n))"

lemma parse_zone_str:
  assumes "- 1440 < z" "z < 1440"
  shows "parse_zone (zone_str z) = Some z"
proof (cases "z = 0")
  case False
  let ?a = "nat \<bar>z\<bar>"
  have a: "?a div 60 < 24" using assms by linarith
  obtain h1 h2 m1 m2 where p: "pad2 (?a div 60) = [h1, h2]" "pad2 (?a mod 60) = [m1, m2]"
    using pad2_shape by metis
  have "num_in 0 23 [h1, h2] = Some (?a div 60)" "num_in 0 59 [m1, m2] = Some (?a mod 60)"
    using a unfolding p [symmetric] by (simp_all add: num_in_pad2)
  then have "parse_zone (zone_str z) = Some (if z < 0 then - int (?a div 60 * 60 + ?a mod 60) else int (?a div 60 * 60 + ?a mod 60))"
    using False p by (simp add: zone_str_def parse_zone_def)
  then show ?thesis by simp
qed (simp add: zone_str_def parse_zone_def)

lemma zone_str_hd: "\<exists>c r. zone_str z = c # r \<and> \<not> is_digit c \<and> c \<noteq> CHR ''.''"
  by (simp add: zone_str_def is_digit_def code_in_def)

lemma parse_frac_str:
  assumes "n < 1000000000"
  shows "parse_frac (frac_str n @ zone_str z) = (n, zone_str z)"
proof -
  obtain c r where z: "zone_str z = c # r" "\<not> is_digit c" "c \<noteq> CHR ''.''"
    using zone_str_hd by blast
  show ?thesis
  proof (cases "n = 0")
    case True
    with z show ?thesis by (cases r) (simp_all add: frac_str_def parse_frac_def)
  next
    case False
    let ?t = "trim_zeros (pad9 n)"
    have v: "digits_val (pad9 n) = n" using digits_val_pad9 assms by simp
    have t: "?t \<noteq> []" "list_all is_digit ?t" "length ?t \<le> 9" "digits_val ?t * 10 ^ (9 - length ?t) = n"
      using trim_zeros_val [of "pad9 n"] digits_pad9 [of n] v False by auto
    then obtain d u where du: "?t = d # u" "is_digit d" by (cases ?t) auto
    have "takeWhile is_digit (?t @ zone_str z) = ?t"
      using t z by (simp add: takeWhile_append list_all_iff)
    with False du t show ?thesis
      by (simp add: frac_str_def parse_frac_def Let_def)
  qed
qed

lemma parse_time_parts:
  assumes "num_in 0 9999 [y1, y2, y3, y4] = Some y" "num_in 1 12 [o1, o2] = Some mo"
    "num_in 1 (days_in mo y) [d1, d2] = Some d" "num_in 0 23 [h1, h2] = Some h"
    "num_in 0 59 [m1, m2] = Some mi" "num_in 0 59 [s1, s2] = Some se"
    "parse_frac r = (ns, zs)" "parse_zone zs = Some z"
  shows "parse_time ([y1, y2, y3, y4] @ ''-'' @ [o1, o2] @ ''-'' @ [d1, d2] @ ''T'' @ [h1, h2] @ '':''
      @ [m1, m2] @ '':'' @ [s1, s2] @ r)
    = Some \<lparr>year = y, month = mo, day = d, hour = h, minute = mi, second = se, nanos = ns, zone = z\<rparr>"
  using assms by (simp add: parse_time_def eval_nat_numeral)

theorem parse_format_time:
  assumes "wf_time t"
  shows "parse_time (format_time t) = Some t"
proof -
  have f: "format_time t = pad4 (year t) @ ''-'' @ pad2 (month t) @ ''-'' @ pad2 (day t) @ ''T''
     @ pad2 (hour t) @ '':'' @ pad2 (minute t) @ '':'' @ pad2 (second t) @ frac_str (nanos t) @ zone_str (zone t)"
    by (simp add: format_time_def frac_str_def zone_str_def)
  have b: "year t \<le> 9999" "1 \<le> month t" "month t \<le> 12" "1 \<le> day t" "day t \<le> days_in (month t) (year t)"
    "hour t \<le> 23" "minute t \<le> 59" "second t \<le> 59" "nanos t < 1000000000" "- 1440 < zone t" "zone t < 1440"
    using assms by (simp_all add: wf_time_def)
  have "day t \<le> 31" using b(5) by (simp add: days_in_def split: if_splits)
  then have p: "num_in 0 9999 (pad4 (year t)) = Some (year t)" "num_in 1 12 (pad2 (month t)) = Some (month t)"
    "num_in 1 (days_in (month t) (year t)) (pad2 (day t)) = Some (day t)"
    "num_in 0 23 (pad2 (hour t)) = Some (hour t)" "num_in 0 59 (pad2 (minute t)) = Some (minute t)"
    "num_in 0 59 (pad2 (second t)) = Some (second t)"
    using b by (simp_all add: num_in_pad2 num_in_pad4)
  obtain y1 y2 y3 y4 where y: "pad4 (year t) = [y1, y2, y3, y4]" using pad4_shape by metis
  obtain o1 o2 d1 d2 h1 h2 m1 m2 s1 s2 where q: "pad2 (month t) = [o1, o2]" "pad2 (day t) = [d1, d2]"
      "pad2 (hour t) = [h1, h2]" "pad2 (minute t) = [m1, m2]" "pad2 (second t) = [s1, s2]"
    using pad2_shape by metis
  show ?thesis
    unfolding f y q
    using parse_time_parts [OF p [unfolded y q] parse_frac_str [OF b(9)] parse_zone_str [OF b(10,11)]]
    by simp
qed

lemma format_time_plain: "list_all plain_char (format_time t)"
proof -
  have dig: "list_all is_digit s \<Longrightarrow> list_all plain_char s" for s
    by (auto simp: list_all_iff plain_char_def)
  show ?thesis
    using dig digits_pad2 digits_pad4 digits_pad9 trim_zeros_val(3)
    by (simp add: format_time_def) (simp add: plain_char_def)
qed

end
