(* ===== verification/Json_Wf.thy ===== *)
theory Json_Wf
  imports Go_Codec
begin

text \<open>
  Facts about documents: whatever the parser accepts is well-formed, HTML escaping keeps it so,
  and the decoders of \<open>Go_Codec\<close> invert its encoders on strings that are valid UTF-8.
\<close>

section \<open>Parsed documents are well-formed\<close>

text \<open>A scanner is local when what it takes does not change if less follows.\<close>

definition local_scan :: "(string \<Rightarrow> (string \<times> string) option) \<Rightarrow> bool" where
  "local_scan f \<longleftrightarrow> (\<forall>s a r. f s = Some (a, r) \<longrightarrow>
     s = a @ r \<and> (\<forall>b c. r = b @ c \<longrightarrow> f (a @ b) = Some (a, b)))"

lemma local_scanD:
  "local_scan f \<Longrightarrow> f s = Some (a, r) \<Longrightarrow> s = a @ r"
  "local_scan f \<Longrightarrow> f s = Some (a, b @ c) \<Longrightarrow> f (a @ b) = Some (a, b)"
  by (auto simp: local_scan_def)

lemma local_scan_seq:
  assumes f: "local_scan f" and g: "local_scan g"
  shows "local_scan (scan_seq f g)"
  unfolding local_scan_def
proof (intro allI impI)
  fix s a r assume "scan_seq f g s = Some (a, r)"
  then obtain x u y where x: "f s = Some (x, u)" "g u = Some (y, r)" "a = x @ y"
    by (auto simp: scan_seq_def split: option.splits)
  have u: "u = y @ r" using local_scanD(1) [OF g x(2)] .
  have "scan_seq f g (a @ b) = Some (a, b)" if "r = b @ c" for b c
  proof -
    have "f (x @ (y @ b)) = Some (x, y @ b)"
      using local_scanD(2) [OF f, of s x "y @ b" c] x(1) u that by simp
    moreover have "g (y @ b) = Some (y, b)"
      using local_scanD(2) [OF g, of u y b c] x(2) that by simp
    ultimately show ?thesis by (simp add: scan_seq_def x(3))
  qed
  then show "s = a @ r \<and> (\<forall>b c. r = b @ c \<longrightarrow> scan_seq f g (a @ b) = Some (a, b))"
    using local_scanD(1) [OF f x(1)] u x(3) by simp
qed

lemma takeWhile_local:
  "takeWhile P (b @ c) = [] \<Longrightarrow> takeWhile P b = []"
  by (cases b) (auto split: if_splits)

lemma digits_local:
  assumes "dropWhile is_digit s = b @ c"
  shows "takeWhile is_digit (takeWhile is_digit s @ b) = takeWhile is_digit s"
    "dropWhile is_digit (takeWhile is_digit s @ b) = b"
proof -
  have b: "b = [] \<or> \<not> is_digit (hd b)"
    using assms by (cases b) (auto simp: dropWhile_eq_Cons_conv)
  then have "takeWhile is_digit b = []" "dropWhile is_digit b = b"
    by (cases b; simp)+
  then show "takeWhile is_digit (takeWhile is_digit s @ b) = takeWhile is_digit s"
    "dropWhile is_digit (takeWhile is_digit s @ b) = b"
    by (auto simp: takeWhile_append dropWhile_append dest: set_takeWhileD)
qed

lemma local_scan_digits: "local_scan scan_digits"
  unfolding local_scan_def scan_digits_def
  by (auto simp: digits_local split: if_splits)

lemma local_scan_sign: "local_scan scan_sign"
  unfolding local_scan_def scan_sign_def
  by (auto simp: append_eq_Cons_conv Cons_eq_append_conv split: list.splits if_splits)

lemma local_scan_int: "local_scan scan_int"
  unfolding local_scan_def
proof (intro allI impI)
  fix s a r assume s: "scan_int s = Some (a, r)"
  then obtain c t where ct: "s = c # t" by (cases s) (auto simp: scan_int_def)
  show "s = a @ r \<and> (\<forall>b c. r = b @ c \<longrightarrow> scan_int (a @ b) = Some (a, b))"
  proof (cases "c = CHR ''0''")
    case True
    with s ct show ?thesis by (auto simp: scan_int_def)
  next
    case False
    with s ct have a: "is_digit c" "a = takeWhile is_digit s" "r = dropWhile is_digit s"
      by (auto simp: scan_int_def split: if_splits)
    with ct obtain u where u: "a = c # u" by simp
    have "scan_int (a @ b) = Some (a, b)" if "r = b @ d" for b d
    proof -
      have "takeWhile is_digit (a @ b) = a" "dropWhile is_digit (a @ b) = b"
        using digits_local [of s b d] that a by simp_all
      with u False a(1) show ?thesis by (simp add: scan_int_def)
    qed
    with a show ?thesis by simp
  qed
qed

lemma local_scan_frac: "local_scan scan_frac"
  unfolding local_scan_def
proof (intro allI impI)
  fix s a r assume s: "scan_frac s = Some (a, r)"
  show "s = a @ r \<and> (\<forall>b c. r = b @ c \<longrightarrow> scan_frac (a @ b) = Some (a, b))"
  proof (cases "\<exists>t. s = CHR ''.'' # t")
    case True
    with s obtain t x where "s = CHR ''.'' # t" "scan_digits t = Some (x, r)" "a = CHR ''.'' # x"
      by (auto simp: scan_frac_def)
    with local_scanD [OF local_scan_digits] show ?thesis by (auto simp: scan_frac_def)
  next
    case False
    with s have "a = []" "r = s" by (auto simp: scan_frac_def split: list.splits if_splits)
    with False show ?thesis by (auto simp: scan_frac_def split: list.splits)
  qed
qed

lemma local_scan_exp: "local_scan scan_exp"
  unfolding local_scan_def
proof (intro allI impI)
  fix s a r assume s: "scan_exp s = Some (a, r)"
  show "s = a @ r \<and> (\<forall>b c. r = b @ c \<longrightarrow> scan_exp (a @ b) = Some (a, b))"
  proof (cases "\<exists>e t. s = e # t \<and> (e = CHR ''e'' \<or> e = CHR ''E'')")
    case True
    then obtain e t where e: "s = e # t" "e = CHR ''e'' \<or> e = CHR ''E''" by blast
    with s obtain d u where d: "t = d # u" by (cases t) (auto simp: scan_exp_def)
    show ?thesis
    proof (cases "d = CHR ''+'' \<or> d = CHR ''-''")
      case True
      with s e d obtain x where "scan_digits u = Some (x, r)" "a = e # d # x"
        by (auto simp: scan_exp_def)
      with e d True local_scanD [OF local_scan_digits] show ?thesis by (auto simp: scan_exp_def)
    next
      case False
      with s e d obtain x where x: "scan_digits t = Some (x, r)" "a = e # x"
        by (auto simp: scan_exp_def)
      then have "t = x @ r" "x \<noteq> []"
        using local_scanD(1) [OF local_scan_digits] by (auto simp: scan_digits_def split: if_splits)
      with d obtain y where "x = d # y" by (cases x) auto
      moreover have "scan_digits (x @ b) = Some (x, b)" if "r = b @ c" for b c
        using local_scanD(2) [OF local_scan_digits, of t x b c] x(1) that by simp
      ultimately show ?thesis
        using x e False \<open>t = x @ r\<close> by (auto simp: scan_exp_def)
    qed
  next
    case False
    with s have "a = []" "r = s" by (auto simp: scan_exp_def split: list.splits if_splits)
    with False show ?thesis by (auto simp: scan_exp_def split: list.splits)
  qed
qed

lemma local_scan_num: "local_scan scan_num"
  unfolding scan_num_def
  by (intro local_scan_seq local_scan_sign local_scan_int local_scan_frac local_scan_exp)

lemma scan_int_nonempty: "scan_int s = Some (a, r) \<Longrightarrow> a \<noteq> []"
  by (auto simp: scan_int_def split: list.splits if_splits)

lemma scan_num_wf:
  assumes "scan_num s = Some (l, u)"
  shows "wf_num l"
proof -
  have "scan_num (l @ []) = Some (l, [])"
    by (rule local_scanD(2) [OF local_scan_num, of s l "[]" u]) (use assms in simp)
  moreover have "l \<noteq> []"
    using assms by (auto simp: scan_num_def scan_seq_def dest!: scan_int_nonempty split: option.splits)
  ultimately show ?thesis by (simp add: wf_num_def)
qed

text \<open>The literals the scanner accepts.\<close>

inductive raw_lit :: "string \<Rightarrow> bool" where
  Nil: "raw_lit []"
| Simple: "simple_esc d = Some x \<Longrightarrow> raw_lit r \<Longrightarrow> raw_lit (bsl # d # r)"
| Hex: "length h = 4 \<Longrightarrow> list_all (\<lambda>x. hex_val x \<noteq> None) h \<Longrightarrow> raw_lit r \<Longrightarrow> raw_lit (bsl # CHR ''u'' # h @ r)"
| Plain: "c \<noteq> dq \<Longrightarrow> c \<noteq> bsl \<Longrightarrow> 32 \<le> code c \<Longrightarrow> raw_lit r \<Longrightarrow> raw_lit (c # r)"

lemma raw_lit_scan: "raw_lit r \<Longrightarrow> scan_str (r @ dq # t) = Some (r, t)"
  by (induction rule: raw_lit.induct)
     (simp_all add: scan_str_simple scan_str_hex scan_str_plain, simp add: scan_str.simps(2))

lemma scan_raw_lit: "scan_str s = Some (r, u) \<Longrightarrow> raw_lit r"
proof (induction s arbitrary: r u rule: measure_induct_rule [where f = length])
  case (less s)
  obtain c s' where s: "s = c # s'" using less.prems by (cases s) auto
  with less(2) have "scan_str (c # s') = Some (r, u)" by simp
  then show ?case
  proof (cases rule: scan_str_cases)
    case (2 d s2 x r')
    with less.IH [of s2 r' u] s show ?thesis by (auto intro: raw_lit.Simple)
  next
    case (3 h s2 r')
    with less.IH [of s2 r' u] s show ?thesis by (auto intro: raw_lit.Hex)
  next
    case (4 r')
    with less.IH [of s' r' u] s show ?thesis by (auto intro: raw_lit.Plain)
  qed (auto intro: raw_lit.Nil)
qed

lemma wf_raw_iff: "wf_raw r \<longleftrightarrow> raw_lit r"
  using raw_lit_scan [of r "[]"] scan_raw_lit [of "r @ [dq]" r "[]"] by (auto simp: wf_raw_def)

inductive_cases raw_lit_highE: "raw_lit (c # r)"

lemma raw_lit_tail: "raw_lit (c # r) \<Longrightarrow> 128 \<le> code c \<Longrightarrow> raw_lit r"
  by (erule raw_lit_highE) auto

lemma raw_lit_u_esc: "raw_lit r \<Longrightarrow> raw_lit (u_esc n @ r)"
  using raw_lit.Hex [of "drop 2 (u_esc n)" r] by (simp add: u_esc_def hex_val_digit)

lemma raw_lit_esc_html: "raw_lit r \<Longrightarrow> raw_lit (esc_html r)"
proof (induction r rule: length_induct)
  case (1 r)
  show ?case
    using 1(2)
  proof (cases rule: raw_lit.cases)
    case (Simple d x r')
    then have "code d < 128" "d \<noteq> CHR 0x3C" "d \<noteq> CHR 0x3E" "d \<noteq> CHR 0x26"
      by (auto simp: simple_esc_def split: if_splits)
    then have "esc_html r = bsl # d # esc_html r'"
      using Simple by (simp add: esc_html_plain)
    with Simple 1 show ?thesis by (auto intro: raw_lit.Simple)
  next
    case (Hex h r')
    have "esc_html (h @ r') = h @ esc_html r'"
      using Hex(3)
    proof (induction h)
      case (Cons x h)
      then have "code x < 128" "x \<noteq> CHR 0x3C" "x \<noteq> CHR 0x3E" "x \<noteq> CHR 0x26"
        by (auto simp: hex_val_def Let_def split: if_splits)
      with Cons show ?case by (simp add: esc_html_plain)
    qed simp
    then have "esc_html r = bsl # CHR ''u'' # h @ esc_html r'"
      using Hex by (simp add: esc_html_plain)
    with Hex 1 show ?thesis by (auto intro: raw_lit.Hex)
  next
    case (Plain c r')
    then have "raw_lit (esc_html r')" using 1 by auto
    moreover have "raw_lit (esc_html (drop 2 r'))" if sep: "has_prefix r ls_sep \<or> has_prefix r ps_sep"
    proof -
      obtain x y r2 where r': "r' = x # y # r2" "128 \<le> code x" "128 \<le> code y"
        using sep Plain(1) by (auto simp: has_prefix_iff ls_sep_def ps_sep_def)
      then have "raw_lit r2"
        using Plain(5) by (metis raw_lit_tail)
      then show ?thesis using 1(1) Plain(1) r' by auto
    qed
    ultimately show ?thesis
      using Plain by (auto simp: esc_html.simps(2) intro: raw_lit_u_esc raw_lit.Plain)
  qed (auto intro: raw_lit.Nil)
qed

lemma wf_raw_esc_html: "wf_raw r \<Longrightarrow> wf_raw (esc_html r)"
  by (simp add: wf_raw_iff raw_lit_esc_html)

lemma wf_json_jesc: "wf_json j \<Longrightarrow> wf_json (jesc j)"
  by (induction j) (auto simp: wf_raw_esc_html)

lemma parse_wf:
  "parse_val n s = Some (j, t) \<Longrightarrow> wf_json j"
  "parse_elems n s = Some (xs, t) \<Longrightarrow> x \<in> set xs \<Longrightarrow> wf_json x"
  "parse_members n s = Some (ms, t) \<Longrightarrow> (k, x') \<in> set ms \<Longrightarrow> wf_raw k \<and> wf_json x'"
proof (induction n s and n s and n s arbitrary: j t and xs x t and ms k x' t
    rule: parse_val_parse_elems_parse_members.induct)
  case (2 n s)
  show ?case
  proof (cases "skip_ws s")
    case Nil
    with 2 show ?thesis by (simp add: parse_val.simps(2))
  next
    case (Cons c t')
    note eq = "2.prems" [unfolded parse_val.simps(2) Cons, simplified]
    note IH = "2.IH" [OF Cons]
    consider "c = dq" | "c = CHR ''[''" | "c = CHR ''{''" | "c \<noteq> dq" "c \<noteq> CHR ''[''" "c \<noteq> CHR ''{''" by blast
    then show ?thesis
    proof cases
      case 1
      with eq show ?thesis by (auto simp: wf_raw_iff dest: scan_raw_lit)
    next
      case 2
      with eq IH(1) show ?thesis by (fastforce split: list.splits if_splits)
    next
      case 3
      with eq IH(2) show ?thesis by (fastforce split: list.splits if_splits)
    next
      case 4
      with eq show ?thesis by (auto dest: scan_num_wf split: if_splits)
    qed
  qed
next
  case (4 n s)
  from "4.prems"(1) obtain y u where y: "parse_val n s = Some (y, u)"
    by (auto simp: parse_elems.simps(2) split: option.splits)
  then have "wf_json y" using "4.IH"(1) by blast
  with y 4 show ?case
    by (fastforce simp: parse_elems.simps(2) split: list.splits if_splits)
next
  case (6 n s)
  from "6.prems"(1) obtain t1 k1 u v y w where p: "skip_ws s = dq # t1" "scan_str t1 = Some (k1, u)"
     "skip_ws u = CHR '':'' # v" "parse_val n v = Some (y, w)"
    by (auto simp: parse_members.simps(2) split: option.splits list.splits if_splits)
  then have "wf_raw k1" "wf_json y"
    using 6 by (auto simp: wf_raw_iff dest: scan_raw_lit)
  with p 6 show ?case
    by (fastforce simp: parse_members.simps(2) split: list.splits if_splits)
qed simp_all

lemma json_parse_wf: "json_parse s = Some j \<Longrightarrow> wf_json j"
  by (auto simp: json_parse_def dest: parse_wf(1) split: option.splits if_splits)

section \<open>Escaping twice changes nothing more\<close>

lemma esc_html_copy:
  assumes "esc_html s = x # t" "128 \<le> code x"
  shows "\<exists>s'. s = x # s' \<and> t = esc_html s' \<and> \<not> has_prefix s ls_sep \<and> \<not> has_prefix s ps_sep"
proof (cases s)
  case (Cons a s')
  with assms show ?thesis
    by (auto simp: esc_html.simps(2) u_esc_def split: if_splits)
qed (use assms in simp)

lemma esc_html_idem [simp]: "esc_html (esc_html s) = esc_html s"
proof (induction s rule: esc_html.induct)
  case (2 a s)
  show ?case
  proof (cases "a = CHR 0x3C \<or> a = CHR 0x3E \<or> a = CHR 0x26 \<or> has_prefix (a # s) ls_sep \<or> has_prefix (a # s) ps_sep")
    case True
    with 2 show ?thesis by (auto simp: esc_html.simps(2) [of a s] esc_html_u_esc)
  next
    case False
    then have e: "esc_html (a # s) = a # esc_html s" by (auto simp: esc_html.simps(2))
    have "\<not> has_prefix (a # esc_html s) sep" if sep: "sep = ls_sep \<or> sep = ps_sep" for sep
    proof
      assume "has_prefix (a # esc_html s) sep"
      then obtain x y t where xy: "sep = [a, x, y]" "esc_html s = x # y # t" "128 \<le> code x" "128 \<le> code y"
        using sep by (auto simp: has_prefix_iff ls_sep_def ps_sep_def)
      then obtain s1 where s1: "s = x # s1" "y # t = esc_html s1"
        using esc_html_copy [of s x "y # t"] by auto
      then obtain s2 where "s1 = y # s2"
        using esc_html_copy [of s1 y t] xy by auto
      then have "has_prefix (a # s) sep"
        using xy s1 by (simp add: has_prefix_def)
      with False sep show False by auto
    qed
    with False have "esc_html (a # esc_html s) = a # esc_html (esc_html s)"
      by (auto simp: esc_html.simps(2))
    with e False 2 show ?thesis by simp
  qed
qed simp

lemma jesc_idem [simp]: "jesc (jesc j) = jesc j"
  by (induction j) auto

section \<open>Unquoted literals are valid UTF-8\<close>

lemma valid_utf8_unit: "utf8_unit u \<Longrightarrow> valid_utf8 (u @ t) = valid_utf8 t"
proof -
  assume u: "utf8_unit u"
  then obtain a p where ap: "u = a # p" by (auto elim!: utf8_unit_shape)
  show ?thesis
    using utf8_len_unit [OF u, of t] by (simp add: ap Let_def)
qed

lemma utf8_unit_enc:
  assumes "r < 1114112" "\<not> (55296 \<le> r \<and> r < 57344)"
  shows "utf8_unit (utf8_enc r)"
proof -
  consider "r < 128" | "128 \<le> r" "r < 2048" | "2048 \<le> r" "r < 65536" | "65536 \<le> r" by linarith
  then show ?thesis
  proof cases
    case 1
    then show ?thesis by (simp add: utf8_enc_def utf8_unit_def)
  next
    case 2
    have "2 \<le> r div 64" "r div 64 < 32" using 2 by linarith+
    with 2 show ?thesis by (simp add: utf8_enc_def utf8_unit_def code_in_def)
  next
    case 3
    let ?x = "r div 64"
    have x: "32 \<le> ?x" "?x < 1024" "\<not> (864 \<le> ?x \<and> ?x < 896)" using 3 assms(2) by linarith+
    have d: "r div 4096 = ?x div 64" by (simp add: div_mult2_eq [symmetric])
    have "?x div 64 < 16" using x by linarith
    moreover have "?x div 64 = 0 \<Longrightarrow> 32 \<le> ?x mod 64" using x by (simp add: mod_less)
    moreover have "?x mod 64 \<le> 31" if "?x div 64 = 13"
    proof -
      have "?x = 832 + ?x mod 64" using that mult_div_mod_eq [of 64 ?x] by linarith
      then show ?thesis using x(3) by linarith
    qed
    moreover have "?x mod 64 < 64" "r mod 64 < 64" by simp_all
    ultimately show ?thesis using 3
      by (auto simp: utf8_enc_def utf8_unit_def code_in_def d)
  next
    case 4
    let ?x = "r div 4096"
    have x: "16 \<le> ?x" "?x < 272" using 4 assms(1) by linarith+
    have d: "r div 262144 = ?x div 64" by (simp add: div_mult2_eq [symmetric])
    have "?x div 64 < 5" using x by linarith
    moreover have "?x div 64 = 0 \<Longrightarrow> 16 \<le> ?x mod 64" using x by (simp add: mod_less)
    moreover have "?x mod 64 \<le> 15" if "?x div 64 = 4"
    proof -
      have "?x = 256 + ?x mod 64" using that mult_div_mod_eq [of 64 ?x] by linarith
      then show ?thesis using x by linarith
    qed
    moreover have "?x mod 64 < 64" "r div 64 mod 64 < 64" "r mod 64 < 64" by simp_all
    ultimately show ?thesis using 4
      by (auto simp: utf8_enc_def utf8_unit_def code_in_def d)
  qed
qed

lemma utf8_unit_rune_error: "utf8_unit rune_error"
  by (simp add: utf8_unit_def rune_error_def code_in_def)

lemma hex_val_less: "hex_val c = Some n \<Longrightarrow> n < 16"
  by (auto simp: hex_val_def Let_def split: if_splits)

lemma read_u4_less: "read_u4 s = Some (r, t) \<Longrightarrow> r < 65536"
  by (auto simp: read_u4_def dest!: hex_val_less split: list.splits option.splits prod.splits)

lemma utf8_unit_simple: "simple_esc d = Some c \<Longrightarrow> utf8_unit [c]"
  by (auto simp: simple_esc_def utf8_unit_def split: if_splits)

lemma valid_utf8_units:
  "utf8_unit u \<Longrightarrow> valid_utf8 t \<Longrightarrow> valid_utf8 (u @ t)"
  "utf8_unit [c] \<Longrightarrow> valid_utf8 t \<Longrightarrow> valid_utf8 (c # t)"
  using valid_utf8_unit [of u t] valid_utf8_unit [of "[c]" t] by simp_all

lemma utf8_unit_ascii: "code c < 128 \<Longrightarrow> utf8_unit [c]"
  by (simp add: utf8_unit_def)

theorem valid_utf8_unquote: "valid_utf8 (unquote s)"
proof (induction s rule: measure_induct_rule [where f = length])
  case (less s)
  show ?case
  proof (cases s)
    case Nil
    then show ?thesis by simp
  next
    case (Cons a s')
    note IH = less.IH [unfolded Cons, simplified]
    show ?thesis
    proof (cases "a = bsl")
      case False
      have "valid_utf8 (take (utf8_len (a # s')) (a # s') @ unquote (drop (utf8_len (a # s') - 1) s'))"
        if "utf8_len (a # s') > 0"
        using utf8_len_take [OF that] IH by (intro valid_utf8_units(1)) auto
      then show ?thesis
        using False IH valid_utf8_units utf8_unit_rune_error utf8_unit_ascii
        by (simp add: Cons unquote.simps(2) del: valid_utf8.simps)
    next
      case True
      show ?thesis
      proof (cases s')
        case Nil
        with True Cons show ?thesis by (simp add: unquote.simps(2))
      next
        case (Cons d t)
        note s' = this
        show ?thesis
        proof (cases "d = CHR ''u''")
          case False
          then show ?thesis
            using True \<open>s = a # s'\<close> s' IH [of t]
            by (auto simp: unquote.simps(2) simp del: valid_utf8.simps(2)
                intro!: valid_utf8_units(2) dest: utf8_unit_simple split: option.splits)
        next
          case u: True
          show ?thesis
          proof (cases "read_u4 t")
            case None
            with True u s' Cons \<open>s = a # s'\<close> show ?thesis by (simp add: unquote.simps(2))
          next
            case (Some p)
            obtain r t1 where p: "p = (r, t1)" by (cases p)
            have t1: "length t1 < length t" "r < 65536"
              using Some p read_u4_length [of t r t1] read_u4_less [of t r t1] by auto
            have v1: "valid_utf8 (rune_error @ unquote t1)" "\<not> (55296 \<le> r \<and> r < 57344) \<Longrightarrow> valid_utf8 (utf8_enc r @ unquote t1)"
              using IH [of t1] t1 s' utf8_unit_enc [of r] utf8_unit_rune_error
              by (auto intro!: valid_utf8_units(1))
            have v2: "valid_utf8 (utf8_enc (65536 + (r - 55296) * 1024 + (r2 - 56320)) @ unquote t2)"
              if "read_u4 (drop 2 t1) = Some (r2, t2)" "r < 56320" "55296 \<le> r" "56320 \<le> r2" "r2 < 57344" for r2 t2
              using that IH [of t2] t1 s' read_u4_length [OF that(1)]
              by (intro valid_utf8_units(1) utf8_unit_enc) auto
            show ?thesis
              using True u \<open>s = a # s'\<close> s' Some p v1 v2
              by (auto simp: unquote.simps(2) split: option.splits bool.splits)
          qed
        qed
      qed
    qed
  qed
qed

section \<open>Decoding what was encoded\<close>

lemma dec_scalars [simp]:
  "valid_utf8 s \<Longrightarrow> dec_string (js_string s) old = Some s"
  "n < 2 ^ bits \<Longrightarrow> dec_uint bits (js_nat n) m = Some n"
  "- (2 ^ (bits - 1)) \<le> i \<Longrightarrow> i < 2 ^ (bits - 1) \<Longrightarrow> dec_int bits (js_int i) k = Some i"
  "wf_time t \<Longrightarrow> dec_time (js_time t) told = Some t"
  by (simp_all add: dec_string_def js_string_def dec_uint_def js_nat_def dec_int_def js_int_def
      dec_time_def js_time_def unquote_quote_raw parse_format_time)

lemma wf_scalars [simp]:
  "valid_utf8 s \<Longrightarrow> wf_json (js_string s)" "wf_json (js_nat n)" "wf_json (js_int i)" "wf_json (js_time t)"
  by (simp_all add: js_string_def js_nat_def js_int_def js_time_def plain_char_wf format_time_plain)

lemma jesc_scalars [simp]:
  "valid_utf8 s \<Longrightarrow> jesc (js_string s) = js_string s" "jesc (js_nat n) = js_nat n" "jesc (js_int i) = js_int i"
  "jesc (js_time t) = js_time t"
  by (simp_all add: js_string_def js_nat_def js_int_def js_time_def plain_char_esc format_time_plain)

lemma wf_js_map: "(\<And>k v. (k, v) \<in> set m \<Longrightarrow> valid_utf8 k \<and> wf_json (f v)) \<Longrightarrow> wf_json (js_map f m)"
  by (auto simp: js_map_def)

lemma fold_opt_append: "fold_opt f (xs @ ys) b = (case fold_opt f xs b of None \<Rightarrow> None | Some b' \<Rightarrow> fold_opt f ys b')"
  by (induction xs arbitrary: b) (auto split: option.splits)

lemma dec_map_js_map:
  assumes "mok m" "\<And>k v. (k, v) \<in> set m \<Longrightarrow> valid_utf8 k \<and> f (g v) = Some v"
  shows "dec_map f (js_map g m) [] = Some m"
proof -
  have "fold_opt (\<lambda>(k, x) m. map_option (\<lambda>v. mput (unquote k) v m) (f x)) (map (\<lambda>(k, v). (quote_raw k, g v)) n) acc
        = Some (mput_all n acc)" if "set n \<subseteq> set m" for n acc
    using that assms(2)
    by (induction n arbitrary: acc) (auto simp: unquote_quote_raw)
  from this [of m "[]"] show ?thesis
    using assms(1) by (simp add: dec_map_def js_map_def mput_all_self)
qed

lemma dec_slice_map: "(\<And>x. x \<in> set xs \<Longrightarrow> f (g x) = Some x) \<Longrightarrow> dec_slice f (JArr (map g xs)) = Some xs"
  unfolding dec_slice_def by (induction xs) auto

lemma field_for_mem [simp]: "k \<in> set names \<Longrightarrow> field_for names k = Some k"
  by (simp add: field_for_def)

lemma dec_struct_js_struct:
  assumes "\<forall>(k, v) \<in> set fs. valid_utf8 k \<and> k \<in> set names"
  shows "dec_struct names f (js_struct fs) r
         = fold_opt (\<lambda>(k, v) r. case v of None \<Rightarrow> Some r | Some j \<Rightarrow> f k j r) fs r"
proof -
  have "fold_opt (\<lambda>(k, x) r. case field_for names (unquote k) of None \<Rightarrow> Some r | Some n \<Rightarrow> f n x r)
      (concat (map (\<lambda>(k, v). case v of None \<Rightarrow> [] | Some j \<Rightarrow> [(quote_raw k, j)]) fs)) r
     = fold_opt (\<lambda>(k, v) r. case v of None \<Rightarrow> Some r | Some j \<Rightarrow> f k j r) fs r"
    using assms
    by (induction fs arbitrary: r) (auto simp: unquote_quote_raw split: option.splits)
  then show ?thesis by (simp add: dec_struct_def js_struct_def)
qed

lemma wf_js_struct: "\<forall>(k, v) \<in> set fs. valid_utf8 k \<and> (\<forall>j. v = Some j \<longrightarrow> wf_json j) \<Longrightarrow> wf_json (js_struct fs)"
  by (fastforce simp: js_struct_def split: option.splits)

lemma jesc_js_struct:
  "\<forall>(k, v) \<in> set fs. valid_utf8 k \<and> (\<forall>j. v = Some j \<longrightarrow> jesc j = j) \<Longrightarrow> jesc (js_struct fs) = js_struct fs"
  unfolding js_struct_def by (induction fs) (auto split: option.splits)

lemma unmarshal_marshal_raw_map:
  assumes "mok m" "\<And>k v. (k, v) \<in> set m \<Longrightarrow> valid_utf8 k \<and> wf_json v"
  shows "unmarshal_raw_map (print_compact (marshal_raw_map m)) = Some (Some (map (\<lambda>(k, v). (k, jesc v)) m))"
proof -
  let ?m = "map (\<lambda>(k, v). (k, jesc v)) m"
  have wf: "wf_json (marshal_raw_map m)"
    unfolding marshal_raw_map_def using assms(2) by (intro wf_js_map) (auto simp: wf_json_jesc)
  have k: "map (\<lambda>(k, x). (unquote k, x)) (map (\<lambda>(k, v). (quote_raw k, jesc v)) n) = map (\<lambda>(k, v). (k, jesc v)) n"
    if "set n \<subseteq> set m" for n
    using that assms(2) by (induction n) (auto simp: unquote_quote_raw)
  have "mok ?m" using assms(1) by (simp add: mok_def comp_def split_def)
  then have "mput_all (map (\<lambda>(k, x). (unquote k, x)) (map (\<lambda>(k, v). (quote_raw k, jesc v)) m)) [] = ?m"
    by (simp only: k [of m] subset_refl mput_all_self)
  then show ?thesis
    using json_parse_compact [OF wf]
    by (simp add: unmarshal_raw_map_def marshal_raw_map_def js_map_def del: map_map)
qed

lemma unmarshal_raw_map_wf:
  assumes "unmarshal_raw_map s = Some (Some m)"
  shows "mok m \<and> (\<forall>(k, v) \<in> set m. wf_json v)"
proof -
  obtain ms where ms: "json_parse s = Some (JObj ms)" "m = mput_all (map (\<lambda>(k, x). (unquote k, x)) ms) []"
    using assms by (auto simp: unmarshal_raw_map_def split: option.splits json.splits)
  have "\<forall>(k, v) \<in> set ms. wf_json v"
    using json_parse_wf [OF ms(1)] by auto
  moreover have mput_set: "set (mput k v n) \<subseteq> insert (k, v) (set n)" for k v and n :: "(string, json) gomap"
    by (induction k v n rule: mput.induct) auto
  have "set (mput_all kvs n) \<subseteq> set kvs \<union> set n" for kvs and n :: "(string, json) gomap"
    by (induction kvs arbitrary: n) (use mput_set in fastforce)+
  ultimately show ?thesis using ms(2) by fastforce
qed

end
