(* ===== verification/Object_Store.thy ===== *)
theory Object_Store
  imports Json_Wf
begin

text \<open>
  The storage contract (\<open>internal/storage\<close>). The Go interface \<open>ObjectStore\<close> is a record of
  operations over a world \<open>'w\<close>: the world holds the bucket, whatever the adapter keeps beside
  it, the faults to come and the operations of other clients that run in between. Locale
  \<open>object_store\<close> states what every adapter promises, in terms of the bucket a world shows
  (\<open>view\<close>): each operation takes effect at one instant between its call and its return, and other
  clients change the bucket only as \<open>rely\<close> allows. \<open>vers\<close> relates a content to the versions the
  adapter may give it. A failed write may have taken effect, except
  where it fails with the sentinel that says it did not. \<open>busy\<close> adds other clients to a store.
\<close>

section \<open>The interface\<close>

datatype storage_error =
    ErrNotFound | ErrAlreadyExists | ErrVersionMismatch | ErrThrottled | ErrTransient
  | ErrInvalidArgument | ErrAccessDenied | ErrNotSupported | ErrReadOnlyReplica | ErrOther string

datatype VersionKind = VersionUnknown | VersionEtag | VersionGeneration | VersionVersionID | VersionOpaque

record ObjectVersion =
  Provider :: string
  VToken :: string
  Kind :: VersionKind

record ObjectMetadata =
  md_Key :: string
  md_Version :: ObjectVersion
  md_Size :: nat
  md_ContentType :: string
  md_ModifiedAt :: gotime

text \<open>The result of a \<open>Get\<close>: the bytes its body yields, and whether reading them ends in an
  error instead of end of file.\<close>

record Object =
  obj_Body :: string
  obj_ReadErr :: bool
  obj_Metadata :: ObjectMetadata

record ListOptions =
  lo_MaxKeys :: int
  lo_Token :: string
  lo_Delimiter :: string

record ListPage =
  lp_Objects :: "ObjectMetadata list"
  lp_NextToken :: string
  lp_CommonPrefixes :: "string list"

type_synonym ('w, 'a) store_op = "'w \<Rightarrow> (storage_error + 'a) \<times> 'w"

record 'w ObjectStore =
  os_Get :: "string \<Rightarrow> ObjectVersion option \<Rightarrow> ('w, Object) store_op"
  os_Head :: "string \<Rightarrow> ('w, ObjectMetadata) store_op"
  os_GetRange :: "string \<Rightarrow> int \<Rightarrow> int \<Rightarrow> ('w, string) store_op"
  os_PutIfAbsent :: "string \<Rightarrow> string \<Rightarrow> string \<Rightarrow> ('w, ObjectVersion) store_op"
  os_PutIfVersionMatches :: "string \<Rightarrow> ObjectVersion \<Rightarrow> string \<Rightarrow> string \<Rightarrow> ('w, ObjectVersion) store_op"
  os_DeleteIfVersionMatches :: "string \<Rightarrow> ObjectVersion \<Rightarrow> ('w, unit) store_op"
  os_List :: "string \<Rightarrow> ListOptions \<Rightarrow> ('w, ListPage) store_op"

definition empty_page :: ListPage where
  "empty_page = \<lparr>lp_Objects = [], lp_NextToken = [], lp_CommonPrefixes = []\<rparr>"

section \<open>What an operation does to the bucket\<close>

type_synonym bucket = "string \<rightharpoonup> string \<times> ObjectVersion"

definition get_post :: "bucket \<Rightarrow> string \<Rightarrow> storage_error + Object \<Rightarrow> bool" where
  "get_post b k r = (case r of
     Inr obj \<Rightarrow> (\<exists>c. b k = Some (c, md_Version (obj_Metadata obj)) \<and> (\<not> obj_ReadErr obj \<longrightarrow> obj_Body obj = c))
   | Inl e \<Rightarrow> e = ErrNotFound \<longrightarrow> b k = None)"

definition head_post :: "bucket \<Rightarrow> string \<Rightarrow> storage_error + ObjectMetadata \<Rightarrow> bool" where
  "head_post b k r = (case r of
     Inr md \<Rightarrow> (\<exists>c. b k = Some (c, md_Version md))
   | Inl e \<Rightarrow> e = ErrNotFound \<longrightarrow> b k = None)"

definition put_post :: "(string \<Rightarrow> ObjectVersion \<Rightarrow> bool) \<Rightarrow> bucket \<Rightarrow> string \<Rightarrow> string \<Rightarrow> storage_error + ObjectVersion \<Rightarrow> bucket \<Rightarrow> bool" where
  "put_post vers b k c r b' = (case r of
     Inr v \<Rightarrow> b k = None \<and> vers c v \<and> b' = b(k \<mapsto> (c, v))
   | Inl e \<Rightarrow> b' = b \<or> (e \<noteq> ErrAlreadyExists \<and> b k = None \<and> (\<exists>v. vers c v \<and> b' = b(k \<mapsto> (c, v)))))"

definition cas_post ::
  "(string \<Rightarrow> ObjectVersion \<Rightarrow> bool) \<Rightarrow> bucket \<Rightarrow> string \<Rightarrow> ObjectVersion \<Rightarrow> string \<Rightarrow> storage_error + ObjectVersion \<Rightarrow> bucket \<Rightarrow> bool" where
  "cas_post vers b k ev c r b' = (case r of
     Inr v \<Rightarrow> (\<exists>c0. b k = Some (c0, ev)) \<and> vers c v \<and> b' = b(k \<mapsto> (c, v))
   | Inl e \<Rightarrow> b' = b \<or> (e \<noteq> ErrVersionMismatch \<and> (\<exists>c0. b k = Some (c0, ev)) \<and> (\<exists>v. vers c v \<and> b' = b(k \<mapsto> (c, v)))))"

definition del_post :: "bucket \<Rightarrow> string \<Rightarrow> ObjectVersion \<Rightarrow> storage_error + unit \<Rightarrow> bucket \<Rightarrow> bool" where
  "del_post b k ev r b' = (case r of
     Inr _ \<Rightarrow> (\<exists>c0. b k = Some (c0, ev)) \<and> b' = b(k := None)
   | Inl e \<Rightarrow> b' = b \<or> (e \<noteq> ErrNotFound \<and> e \<noteq> ErrVersionMismatch \<and> (\<exists>c0. b k = Some (c0, ev)) \<and> b' = b(k := None)))"

section \<open>The contract\<close>

locale object_store =
  fixes S :: "'w ObjectStore"
    and view :: "'w \<Rightarrow> bucket"
    and good :: "'w \<Rightarrow> bool"
    and vers :: "string \<Rightarrow> ObjectVersion \<Rightarrow> bool"
    and rely :: "bucket \<Rightarrow> bucket \<Rightarrow> bool"
  assumes rely_refl: "rely b b"
    and rely_trans: "rely b b' \<Longrightarrow> rely b' b'' \<Longrightarrow> rely b b''"
    and get_law: "good w \<Longrightarrow> os_Get S k None w = (r, w') \<Longrightarrow>
          good w' \<and> (\<exists>b. rely (view w) b \<and> rely b (view w') \<and> get_post b k r)"
    and head_law: "good w \<Longrightarrow> os_Head S k w = (hr, w') \<Longrightarrow>
          good w' \<and> (\<exists>b. rely (view w) b \<and> rely b (view w') \<and> head_post b k hr)"
    and put_law: "good w \<Longrightarrow> os_PutIfAbsent S k c ct w = (pr, w') \<Longrightarrow>
          good w' \<and> (\<exists>b b'. rely (view w) b \<and> put_post vers b k c pr b' \<and> rely b' (view w'))"
    and cas_law: "good w \<Longrightarrow> os_PutIfVersionMatches S k ev c ct w = (pr, w') \<Longrightarrow>
          good w' \<and> (\<exists>b b'. rely (view w) b \<and> cas_post vers b k ev c pr b' \<and> rely b' (view w'))"
    and del_law: "good w \<Longrightarrow> os_DeleteIfVersionMatches S k ev w = (dr, w') \<Longrightarrow>
          good w' \<and> (\<exists>b b'. rely (view w) b \<and> del_post b k ev dr b' \<and> rely b' (view w'))"
    and list_law: "good w \<Longrightarrow> os_List S p lo w = (lr, w') \<Longrightarrow>
          good w' \<and> (\<exists>b. rely (view w) b \<and> rely b (view w'))"

text \<open>A store nobody else writes to: its operations are atomic on the bucket.\<close>

locale atomic_store = object_store S view good vers "(=)"
  for S :: "'w ObjectStore" and view :: "'w \<Rightarrow> bucket" and good :: "'w \<Rightarrow> bool"
    and vers :: "string \<Rightarrow> ObjectVersion \<Rightarrow> bool"

section \<open>Other clients\<close>

text \<open>A world with other clients: the store's world and what they do to it before each of our
  next operations.\<close>

type_synonym 'w busy_world = "'w \<times> ('w \<Rightarrow> 'w) list"

definition interfere :: "'w busy_world \<Rightarrow> 'w busy_world" where
  "interfere W = (case snd W of [] \<Rightarrow> W | f # fs \<Rightarrow> (f (fst W), fs))"

definition busy_op :: "('w, 'a) store_op \<Rightarrow> ('w busy_world, 'a) store_op" where
  "busy_op f W = (let W1 = interfere W; res = f (fst W1) in (fst res, (snd res, snd W1)))"

definition busy :: "'w ObjectStore \<Rightarrow> 'w busy_world ObjectStore" where
  "busy S = \<lparr>
     os_Get = (\<lambda>k iv. busy_op (os_Get S k iv)),
     os_Head = (\<lambda>k. busy_op (os_Head S k)),
     os_GetRange = (\<lambda>k s e. busy_op (os_GetRange S k s e)),
     os_PutIfAbsent = (\<lambda>k c ct. busy_op (os_PutIfAbsent S k c ct)),
     os_PutIfVersionMatches = (\<lambda>k ev c ct. busy_op (os_PutIfVersionMatches S k ev c ct)),
     os_DeleteIfVersionMatches = (\<lambda>k ev. busy_op (os_DeleteIfVersionMatches S k ev)),
     os_List = (\<lambda>p lo. busy_op (os_List S p lo))\<rparr>"

definition busy_good :: "('w \<Rightarrow> bucket) \<Rightarrow> ('w \<Rightarrow> bool) \<Rightarrow> (bucket \<Rightarrow> bucket \<Rightarrow> bool) \<Rightarrow> 'w busy_world \<Rightarrow> bool" where
  "busy_good view good R W \<longleftrightarrow>
     good (fst W) \<and> (\<forall>f \<in> set (snd W). \<forall>w. good w \<longrightarrow> good (f w) \<and> R (view w) (view (f w)))"

lemma interfere_good:
  assumes "busy_good view good R W" "\<And>b. R b b"
  shows "busy_good view good R (interfere W)" "R (view (fst W)) (view (fst (interfere W)))"
  using assms by (cases W; cases "snd W"; auto simp: busy_good_def interfere_def)+

context atomic_store
begin

lemma busy_store:
  assumes R: "\<And>b. R b b" "\<And>b b' b''. R b b' \<Longrightarrow> R b' b'' \<Longrightarrow> R b b''"
  shows "object_store (busy S) (view \<circ> fst) (busy_good view good R) vers R"
proof
  show "R b b" for b by (rule R(1))
  show "R b b' \<Longrightarrow> R b' b'' \<Longrightarrow> R b b''" for b b' b'' by (rule R(2))
  have op: "busy_good view good R W' \<and> (\<exists>w w'. R (view (fst W)) (view w) \<and> good w \<and> f w = (r, w') \<and> fst W' = w')"
    if W: "busy_good view good R W" and f: "busy_op f W = (r, W')"
      and keep: "\<And>w r w'. good w \<Longrightarrow> f w = (r, w') \<Longrightarrow> good w'" for f :: "('w, 'x) store_op" and W W' r
  proof -
    let ?W1 = "interfere W"
    have W1: "busy_good view good R ?W1" "R (view (fst W)) (view (fst ?W1))"
      using interfere_good [OF W R(1)] by auto
    have W': "f (fst ?W1) = (r, fst W')" "snd W' = snd ?W1"
      using f by (auto simp: busy_op_def Let_def prod_eq_iff)
    with W1 keep have "busy_good view good R W'"
      by (auto simp: busy_good_def)
    with W1 W' show ?thesis by (auto simp: busy_good_def)
  qed
  show "busy_good view good R w' \<and> (\<exists>b. R ((view \<circ> fst) w) b \<and> R b ((view \<circ> fst) w') \<and> get_post b k r)"
    if "busy_good view good R w" "os_Get (busy S) k None w = (r, w')" for w k r w'
    using op [OF that(1), of "os_Get S k None" r w'] that(2) get_law R(1)
    by (fastforce simp: busy_def)
  show "busy_good view good R w' \<and> (\<exists>b. R ((view \<circ> fst) w) b \<and> R b ((view \<circ> fst) w') \<and> head_post b k r)"
    if "busy_good view good R w" "os_Head (busy S) k w = (r, w')" for w k r w'
    using op [OF that(1), of "os_Head S k" r w'] that(2) head_law R(1)
    by (fastforce simp: busy_def)
  show "busy_good view good R w' \<and> (\<exists>b b'. R ((view \<circ> fst) w) b \<and> put_post vers b k c r b' \<and> R b' ((view \<circ> fst) w'))"
    if "busy_good view good R w" "os_PutIfAbsent (busy S) k c ct w = (r, w')" for w k c ct r w'
    using op [OF that(1), of "os_PutIfAbsent S k c ct" r w'] that(2) put_law R(1)
    by (fastforce simp: busy_def)
  show "busy_good view good R w' \<and> (\<exists>b b'. R ((view \<circ> fst) w) b \<and> cas_post vers b k ev c r b' \<and> R b' ((view \<circ> fst) w'))"
    if "busy_good view good R w" "os_PutIfVersionMatches (busy S) k ev c ct w = (r, w')" for w k ev c ct r w'
    using op [OF that(1), of "os_PutIfVersionMatches S k ev c ct" r w'] that(2) cas_law R(1)
    by (fastforce simp: busy_def)
  show "busy_good view good R w' \<and> (\<exists>b b'. R ((view \<circ> fst) w) b \<and> del_post b k ev r b' \<and> R b' ((view \<circ> fst) w'))"
    if "busy_good view good R w" "os_DeleteIfVersionMatches (busy S) k ev w = (r, w')" for w k ev r w'
    using op [OF that(1), of "os_DeleteIfVersionMatches S k ev" r w'] that(2) del_law R(1)
    by (fastforce simp: busy_def)
  show "busy_good view good R w' \<and> (\<exists>b. R ((view \<circ> fst) w) b \<and> R b ((view \<circ> fst) w'))"
    if "busy_good view good R w" "os_List (busy S) p lo w = (r, w')" for w p lo r w'
    using op [OF that(1), of "os_List S p lo" r w'] that(2) list_law R(1)
    by (fastforce simp: busy_def)
qed

end

section \<open>A store within a larger world\<close>

definition on_store :: "('a, 'b) store_op \<Rightarrow> ('a \<times> 'p, 'b) store_op" where
  "on_store f W = (case f (fst W) of (r, w) \<Rightarrow> (r, (w, snd W)))"

definition within :: "'a ObjectStore \<Rightarrow> ('a \<times> 'p) ObjectStore" where
  "within S = \<lparr>
     os_Get = (\<lambda>k iv. on_store (os_Get S k iv)),
     os_Head = (\<lambda>k. on_store (os_Head S k)),
     os_GetRange = (\<lambda>k s e. on_store (os_GetRange S k s e)),
     os_PutIfAbsent = (\<lambda>k c ct. on_store (os_PutIfAbsent S k c ct)),
     os_PutIfVersionMatches = (\<lambda>k ev c ct. on_store (os_PutIfVersionMatches S k ev c ct)),
     os_DeleteIfVersionMatches = (\<lambda>k ev. on_store (os_DeleteIfVersionMatches S k ev)),
     os_List = (\<lambda>p lo. on_store (os_List S p lo))\<rparr>"

lemma on_store_eq: "on_store f W = (r, W') \<longleftrightarrow> f (fst W) = (r, fst W') \<and> snd W' = snd W"
  by (cases W'; auto simp: on_store_def split: prod.splits)

lemmas within_ops = within_def on_store_eq o_def

context object_store
begin

lemma within_store: "object_store (within S) (view \<circ> fst) (good \<circ> fst) vers rely"
proof (unfold_locales, goal_cases)
  case (3 w k r w') then show ?case using get_law [of "fst w" k r "fst w'"] by (simp add: within_ops)
next
  case (4 w k r w') then show ?case using head_law [of "fst w" k r "fst w'"] by (simp add: within_ops)
next
  case (5 w k c ct r w') then show ?case using put_law [of "fst w" k c ct r "fst w'"] by (simp add: within_ops)
next
  case (6 w k ev c ct r w') then show ?case using cas_law [of "fst w" k ev c ct r "fst w'"] by (simp add: within_ops)
next
  case (7 w k ev r w') then show ?case using del_law [of "fst w" k ev r "fst w'"] by (simp add: within_ops)
next
  case (8 w p lo r w') then show ?case using list_law [of "fst w" p lo r "fst w'"] by (simp add: within_ops)
qed (blast intro: rely_refl rely_trans)+

end

end
