(* ===== verification/Sha256.thy ===== *)
theory Sha256
  imports Bv_Prelude
begin

text \<open>
  SHA-256 as \<open>crypto/sha256\<close> computes it, over byte lists. Content addresses and localfs version
  tokens are its hex digest. The development never assumes that it is injective: theorems that
  need two contents to have different digests say so of those contents.
\<close>

unbundle bit_operations_syntax

text \<open>The round constants are the first 32 bits of the fractional parts of the cube roots of the first
  64 primes, and the initial state those of the square roots of the first eight. \<open>int_root k b n r\<close>
  extends \<open>r\<close> bit by bit to the integer \<open>k\<close>-th root of \<open>n\<close>.\<close>

fun int_root :: "nat \<Rightarrow> nat \<Rightarrow> int \<Rightarrow> int \<Rightarrow> int" where
  "int_root k 0 n r = r"
| "int_root k (Suc b) n r = (let c = r + 2 ^ b in int_root k b n (if c ^ k \<le> n then c else r))"

definition sha_primes :: "int list" where
  "sha_primes =
   [2, 3, 5, 7, 11, 13, 17, 19, 23, 29, 31, 37, 41, 43, 47, 53,
    59, 61, 67, 71, 73, 79, 83, 89, 97, 101, 103, 107, 109, 113, 127, 131,
    137, 139, 149, 151, 157, 163, 167, 173, 179, 181, 191, 193, 197, 199, 211, 223,
    227, 229, 233, 239, 241, 251, 257, 263, 269, 271, 277, 281, 283, 293, 307, 311]"

definition root_frac :: "nat \<Rightarrow> int \<Rightarrow> 32 word" where
  "root_frac k p = of_int (int_root k 35 (p * 2 ^ (32 * k)) 0)"

definition sha_k :: "32 word list" where
  "sha_k = map (root_frac 3) sha_primes"

definition sha_init :: "32 word list" where
  "sha_init = map (root_frac 2) (take 8 sha_primes)"

definition sha_pad :: "bytes \<Rightarrow> bytes" where
  "sha_pad m = m @ [0x80] @ replicate ((119 - length m mod 64) mod 64) 0 @ put_be_u64 (of_nat (8 * length m))"

text \<open>The message schedule, kept with the newest word first.\<close>

fun sha_schedule :: "nat \<Rightarrow> 32 word list \<Rightarrow> 32 word list" where
  "sha_schedule 0 ws = ws"
| "sha_schedule (Suc n) ws =
     (let w15 = ws ! 14; w2 = ws ! 1;
          s0 = (word_rotr 7 w15 XOR word_rotr 18 w15) XOR drop_bit 3 w15;
          s1 = (word_rotr 17 w2 XOR word_rotr 19 w2) XOR drop_bit 10 w2
      in sha_schedule n ((ws ! 15 + s0 + ws ! 6 + s1) # ws))"

fun sha_round :: "32 word \<times> 32 word \<Rightarrow> 32 word list \<Rightarrow> 32 word list" where
  "sha_round (k, w) [a, b, c, d, e, f, g, h] =
     (let s1 = (word_rotr 6 e XOR word_rotr 11 e) XOR word_rotr 25 e;
          ch = (e AND f) XOR (NOT e AND g);
          t1 = h + s1 + ch + k + w;
          s0 = (word_rotr 2 a XOR word_rotr 13 a) XOR word_rotr 22 a;
          maj = ((a AND b) XOR (a AND c)) XOR (b AND c)
      in [t1 + (s0 + maj), a, b, c, d + t1, e, f, g])"
| "sha_round _ st = st"

definition sha_words :: "bytes \<Rightarrow> 32 word list" where
  "sha_words block = map (\<lambda>i. be_u32 (drop (4 * i) block)) [0..<16]"

definition sha_block :: "bytes \<Rightarrow> 32 word list \<Rightarrow> 32 word list" where
  "sha_block block st =
     map2 (+) st (fold sha_round (zip sha_k (rev (sha_schedule 48 (rev (sha_words block))))) st)"

function sha_blocks :: "bytes \<Rightarrow> 32 word list \<Rightarrow> 32 word list" where
  "sha_blocks m st = (if length m < 64 then st else sha_blocks (drop 64 m) (sha_block (take 64 m) st))"
  by pat_completeness auto
termination
  by (relation "measure (\<lambda>(m, st). length m)") auto

declare sha_blocks.simps [simp del]

definition sha256 :: "bytes \<Rightarrow> bytes" where
  "sha256 m = concat (map put_be_u32 (sha_blocks (sha_pad m) sha_init))"

definition sha256_hex :: "string \<Rightarrow> string" where
  "sha256_hex s = hex_encode (sha256 (bytes_of_str s))"

lemma length_sha_round [simp]: "length st = 8 \<Longrightarrow> length (sha_round kw st) = 8"
  by (cases "(kw, st)" rule: sha_round.cases) (auto simp: Let_def)

lemma length_fold_round [simp]: "length st = 8 \<Longrightarrow> length (fold sha_round kws st) = 8"
  by (induction kws arbitrary: st) auto

lemma length_sha_block [simp]: "length st = 8 \<Longrightarrow> length (sha_block b st) = 8"
  by (simp add: sha_block_def)

lemma length_sha_blocks: "length st = 8 \<Longrightarrow> length (sha_blocks m st) = 8"
proof (induction m st rule: sha_blocks.induct)
  case (1 m st)
  then show ?case by (subst sha_blocks.simps) simp
qed

lemma length_concat_u32: "length (concat (map put_be_u32 ws)) = 4 * length ws"
  by (induction ws) auto

lemma length_sha256 [simp]: "length (sha256 m) = 32"
  by (simp add: sha256_def length_concat_u32 length_sha_blocks sha_init_def sha_primes_def)

lemma length_sha256_hex [simp]: "length (sha256_hex s) = 64"
  by (simp add: sha256_hex_def)

lemma sha256_hex_lower: "c \<in> set (sha256_hex s) \<Longrightarrow> is_lower_hex c"
  unfolding sha256_hex_def by (rule hex_encode_lower)

end
