(* ===== verification/Localfs.thy ===== *)
theory Localfs
  imports Object_Store Sha256
begin

text \<open>
  The local-filesystem store (\<open>internal/storage/localfs\<close>). The state is what the directory tree
  under the root holds: object files with their modification times, sidecar files, directories;
  and what the instance holds: the listing generation and cache, whether it is closed, the clock
  \<open>time.Now\<close> reads. Every exported call takes the next entry of a fault script, the step of that
  call the operating system fails (if any); a step is a system call or a run of calls whose
  failures have the same effect. The per-key mutex makes a call atomic, so calls do not
  interleave here; \<open>busy\<close> puts other clients between them. Symbolic links, which nothing in the
  program creates, are not modelled; nor are the multipart uploads and \<open>Verify\<close>.
\<close>

section \<open>Keys\<close>

definition maxKeyBytes :: nat where "maxKeyBytes = 1024"

definition bad_segment :: "string \<Rightarrow> bool" where
  "bad_segment seg \<longleftrightarrow> seg = ''..'' \<or> seg = ''.'' \<or> seg = []"

definition reserved_segment :: "string \<Rightarrow> bool" where
  "reserved_segment seg \<longleftrightarrow> has_prefix seg ''.'' \<or> has_suffix seg ''.meta''"

definition validateKey :: "string \<Rightarrow> bool" where
  "validateKey key =
     (if key = [] then False
      else if length key > maxKeyBytes then False
      else if has_prefix key ''/'' then False
      else if has_suffix key ''/'' then False
      else if str_contains key [bsl] then False
      else if CHR 0x00 \<in> set key then False
      else list_all (\<lambda>seg. \<not> bad_segment seg \<and> \<not> reserved_segment seg) (str_split (CHR ''/'') key))"

definition validatePrefix :: "string \<Rightarrow> bool" where
  "validatePrefix prefix =
     (if prefix = [] then True
      else if length prefix > maxKeyBytes then False
      else if has_prefix prefix ''/'' then False
      else if str_contains prefix [bsl] then False
      else if CHR 0x00 \<in> set prefix then False
      else
        (let p = trim_suffix prefix ''/'' in
         if p = [] then True
         else
           (let segs = str_split (CHR ''/'') p in
            list_all (\<lambda>seg. \<not> bad_segment seg) segs \<and>
            list_all (\<lambda>seg. \<not> reserved_segment seg)
              (if has_suffix prefix ''/'' then segs else butlast segs))))"

section \<open>Sidecars\<close>

record sidecar =
  sc_Version :: int
  sc_Sha256 :: string
  sc_Size :: int
  sc_ContentType :: string
  sc_ModifiedAt :: gotime

definition sidecarSchemaVersion :: int where "sidecarSchemaVersion = 1"

text \<open>Times are kept in UTC, as the clock and the modification times of the model are.\<close>

definition newSidecar :: "string \<Rightarrow> int \<Rightarrow> string \<Rightarrow> gotime \<Rightarrow> sidecar" where
  "newSidecar sha n contentType modifiedAt =
     \<lparr>sc_Version = sidecarSchemaVersion, sc_Sha256 = sha, sc_Size = n, sc_ContentType = contentType,
      sc_ModifiedAt = modifiedAt\<rparr>"

definition js_sidecar :: "sidecar \<Rightarrow> json" where
  "js_sidecar s = js_struct
     [(''version'', Some (js_int (sc_Version s))),
      (''sha256'', Some (js_string (sc_Sha256 s))),
      (''size'', Some (js_int (sc_Size s))),
      (''content_type'', Some (js_string (sc_ContentType s))),
      (''modified_at'', Some (js_time (sc_ModifiedAt s)))]"

definition encodeSidecar :: "sidecar \<Rightarrow> string option" where
  "encodeSidecar s =
     (if year (sc_ModifiedAt s) \<le> 9999 \<and> - 1440 < zone (sc_ModifiedAt s) \<and> zone (sc_ModifiedAt s) < 1440
      then Some (print_compact (js_sidecar s)) else None)"

definition sidecar_names :: "string list" where
  "sidecar_names = [''version'', ''sha256'', ''size'', ''content_type'', ''modified_at'']"

definition dec_sidecar_field :: "string \<Rightarrow> json \<Rightarrow> sidecar \<Rightarrow> sidecar option" where
  "dec_sidecar_field n j s =
     (if n = ''version'' then map_option (\<lambda>i. s\<lparr>sc_Version := i\<rparr>) (dec_int 64 j (sc_Version s))
      else if n = ''sha256'' then map_option (\<lambda>x. s\<lparr>sc_Sha256 := x\<rparr>) (dec_string j (sc_Sha256 s))
      else if n = ''size'' then map_option (\<lambda>i. s\<lparr>sc_Size := i\<rparr>) (dec_int 64 j (sc_Size s))
      else if n = ''content_type'' then map_option (\<lambda>x. s\<lparr>sc_ContentType := x\<rparr>) (dec_string j (sc_ContentType s))
      else map_option (\<lambda>t. s\<lparr>sc_ModifiedAt := t\<rparr>) (dec_time j (sc_ModifiedAt s)))"

definition zero_sidecar :: sidecar where
  "zero_sidecar = \<lparr>sc_Version = 0, sc_Sha256 = [], sc_Size = 0, sc_ContentType = [], sc_ModifiedAt = zero_time\<rparr>"

datatype sidecar_read = SideOk sidecar | SideUnsupported | SideCorrupt

definition parseSidecar :: "string \<Rightarrow> sidecar_read" where
  "parseSidecar data =
     (case Option.bind (json_parse data) (\<lambda>j. dec_struct sidecar_names dec_sidecar_field j zero_sidecar) of
        None \<Rightarrow> SideCorrupt
      | Some s \<Rightarrow>
          if sc_Version s > sidecarSchemaVersion then SideUnsupported
          else if sc_Version s \<noteq> sidecarSchemaVersion then SideCorrupt
          else SideOk s)"

section \<open>The state\<close>

datatype lfs_step =
    StLstat | StStat | StReadMeta | StOpen | StRead | StHealWrite | StHealFsync
  | StMkdir | StTempContent | StTempMeta | StRenameContent | StFsyncContent | StRenameMeta | StFsyncMeta
  | StRemove | StFsyncRemove | StRemoveMeta | StFsyncRemoveMeta | StWalk | StSeek

record lfs =
  lf_files :: "(string, string \<times> gotime) gomap"
  lf_metas :: "(string, string) gomap"
  lf_dirs :: "string list"
  lf_listGen :: nat
  lf_listCache :: "(string, nat \<times> string list) gomap"
  lf_closed :: bool
  lf_clock :: gotime
  lf_faults :: "lfs_step option list"

type_synonym fault = "lfs_step option"

definition take_fault :: "lfs \<Rightarrow> fault \<times> lfs" where
  "take_fault w = (case lf_faults w of [] \<Rightarrow> (None, w) | f # fs \<Rightarrow> (f, w\<lparr>lf_faults := fs\<rparr>))"

definition bumpListGen :: "lfs \<Rightarrow> lfs" where
  "bumpListGen w = w\<lparr>lf_listGen := lf_listGen w + 1, lf_listCache := []\<rparr>"

definition lfs_version :: "string \<Rightarrow> ObjectVersion" where
  "lfs_version token = \<lparr>Provider = ''localfs'', VToken = token, Kind = VersionEtag\<rparr>"

text \<open>The directories above a key.\<close>

fun parents_from :: "string \<Rightarrow> string list \<Rightarrow> string list" where
  "parents_from base [] = []"
| "parents_from base [seg] = []"
| "parents_from base (seg # segs) =
     (let d = (if base = [] then seg else base @ ''/'' @ seg) in d # parents_from d segs)"

definition parent_dirs :: "string \<Rightarrow> string list" where
  "parent_dirs key = parents_from [] (str_split (CHR ''/'') key)"

section \<open>Metadata\<close>

definition sys_err :: "storage_error" where "sys_err = ErrOther ''os''"

definition lstatNoSymlink :: "fault \<Rightarrow> string \<Rightarrow> lfs \<Rightarrow> storage_error option" where
  "lstatNoSymlink f key w =
     (if f = Some StLstat \<or> (\<exists>d \<in> set (parent_dirs key). mget (lf_files w) d \<noteq> None) then Some sys_err
      else if mget (lf_files w) key = None \<and> key \<notin> set (lf_dirs w) then Some ErrNotFound
      else None)"

definition healSidecar :: "fault \<Rightarrow> string \<Rightarrow> string \<Rightarrow> gotime \<Rightarrow> lfs \<Rightarrow> (storage_error + sidecar) \<times> lfs" where
  "healSidecar f key content mtime w =
     (if f = Some StOpen \<or> f = Some StRead then (Inl sys_err, w)
      else
        (let sc = newSidecar (sha256_hex content) (int (length content)) [] mtime in
         case encodeSidecar sc of
           None \<Rightarrow> (Inl sys_err, w)
         | Some scBytes \<Rightarrow>
             if f = Some StHealWrite then (Inl sys_err, w)
             else
               (let w1 = w\<lparr>lf_metas := mput key scBytes (lf_metas w)\<rparr> in
                if f = Some StHealFsync then (Inl sys_err, w1) else (Inr sc, w1))))"

definition md_of_sidecar :: "string \<Rightarrow> sidecar \<Rightarrow> ObjectMetadata" where
  "md_of_sidecar key sc =
     \<lparr>md_Key = key, md_Version = lfs_version (sc_Sha256 sc), md_Size = nat (sc_Size sc),
      md_ContentType = sc_ContentType sc, md_ModifiedAt = sc_ModifiedAt sc\<rparr>"

definition headLocked :: "fault \<Rightarrow> string \<Rightarrow> (lfs, ObjectMetadata) store_op" where
  "headLocked f key w =
     (if f = Some StStat then (Inl sys_err, w)
      else (case mget (lf_files w) key of
         None \<Rightarrow> if key \<in> set (lf_dirs w) then (Inl sys_err, w) else (Inl ErrNotFound, w)
       | Some (content, mtime) \<Rightarrow>
           (let rd = (if f = Some StReadMeta then SideCorrupt
                      else (case mget (lf_metas w) key of None \<Rightarrow> SideCorrupt | Some raw \<Rightarrow> parseSidecar raw));
                rd' = (case rd of SideOk sc \<Rightarrow> if sc_Size sc \<noteq> int (length content) then SideCorrupt else rd | _ \<Rightarrow> rd) in
            case rd' of
              SideOk sc \<Rightarrow> (Inr (md_of_sidecar key sc), w)
            | SideUnsupported \<Rightarrow> (Inl sys_err, w)
            | SideCorrupt \<Rightarrow>
                (case healSidecar f key content mtime w of
                   (Inl e, w1) \<Rightarrow> (Inl e, w1)
                 | (Inr sc, w1) \<Rightarrow> (Inr (md_of_sidecar key sc), w1)))))"

section \<open>Reading\<close>

definition checked :: "(fault \<Rightarrow> (lfs, 'a) store_op) \<Rightarrow> bool \<Rightarrow> (lfs, 'a) store_op" where
  "checked body valid w0 =
     (case take_fault w0 of (f, w) \<Rightarrow>
        if lf_closed w then (Inl (ErrOther ''closed''), w)
        else if \<not> valid then (Inl ErrInvalidArgument, w)
        else body f w)"

definition lfs_Get :: "string \<Rightarrow> ObjectVersion option \<Rightarrow> (lfs, Object) store_op" where
  "lfs_Get key ifMatch = checked (\<lambda>f w.
     case lstatNoSymlink f key w of
       Some e \<Rightarrow> (Inl e, w)
     | None \<Rightarrow>
         (case headLocked f key w of
            (Inl e, w1) \<Rightarrow> (Inl e, w1)
          | (Inr md, w1) \<Rightarrow>
              if ifMatch \<noteq> None \<and> ifMatch \<noteq> Some (md_Version md) then (Inl ErrVersionMismatch, w1)
              else if f = Some StOpen then (Inl sys_err, w1)
              else
                (case mget (lf_files w1) key of
                   None \<Rightarrow> (Inl ErrNotFound, w1)
                 | Some (content, _) \<Rightarrow>
                     (Inr \<lparr>obj_Body = content, obj_ReadErr = (f = Some StRead), obj_Metadata = md\<rparr>, w1))))
     (validateKey key)"

definition lfs_Head :: "string \<Rightarrow> (lfs, ObjectMetadata) store_op" where
  "lfs_Head key = checked (\<lambda>f w.
     case lstatNoSymlink f key w of Some e \<Rightarrow> (Inl e, w) | None \<Rightarrow> headLocked f key w)
     (validateKey key)"

definition lfs_GetRange :: "string \<Rightarrow> int \<Rightarrow> int \<Rightarrow> (lfs, string) store_op" where
  "lfs_GetRange key start endInclusive = checked (\<lambda>f w.
     if start < 0 \<or> endInclusive < start then (Inl ErrInvalidArgument, w)
     else (case lstatNoSymlink f key w of
       Some e \<Rightarrow> (Inl e, w)
     | None \<Rightarrow>
         (case headLocked f key w of
            (Inl e, w1) \<Rightarrow> (Inl e, w1)
          | (Inr md, w1) \<Rightarrow>
              if f = Some StOpen then (Inl sys_err, w1)
              else
                (case mget (lf_files w1) key of
                   None \<Rightarrow> (Inl ErrNotFound, w1)
                 | Some (content, _) \<Rightarrow>
                     (let sz = int (length content) in
                      if start \<ge> sz then (Inr [], w1)
                      else if f = Some StSeek then (Inl sys_err, w1)
                      else
                        (let lim = (if endInclusive \<ge> sz then sz - 1 else endInclusive) in
                         (Inr (take (nat (lim - start + 1)) (drop (nat start) content)), w1)))))))
     (validateKey key)"

section \<open>Writing\<close>

definition writeAtomic :: "fault \<Rightarrow> string \<Rightarrow> string \<Rightarrow> string \<Rightarrow> (lfs, ObjectVersion) store_op" where
  "writeAtomic f key body contentType w =
     (if f = Some StMkdir \<or> (\<exists>d \<in> set (parent_dirs key). mget (lf_files w) d \<noteq> None) then (Inl sys_err, w)
      else
        (let w1 = w\<lparr>lf_dirs := remdups (parent_dirs key @ lf_dirs w)\<rparr>;
             digest = sha256_hex body in
         if f = Some StTempContent then (Inl sys_err, w1)
         else (case encodeSidecar (newSidecar digest (int (length body)) contentType (lf_clock w1)) of
           None \<Rightarrow> (Inl sys_err, w1)
         | Some scBytes \<Rightarrow>
             if f = Some StTempMeta then (Inl sys_err, w1)
             else if f = Some StRenameContent then (Inl sys_err, w1)
             else
               (let w2 = w1\<lparr>lf_files := mput key (body, lf_clock w1) (lf_files w1)\<rparr> in
                if f = Some StFsyncContent then (Inl sys_err, w2)
                else if f = Some StRenameMeta then (Inl sys_err, w2)
                else
                  (let w3 = w2\<lparr>lf_metas := mput key scBytes (lf_metas w2)\<rparr> in
                   if f = Some StFsyncMeta then (Inl sys_err, w3)
                   else (Inr (lfs_version digest), bumpListGen w3))))))"

definition lfs_PutIfAbsent :: "string \<Rightarrow> string \<Rightarrow> string \<Rightarrow> (lfs, ObjectVersion) store_op" where
  "lfs_PutIfAbsent key body contentType = checked (\<lambda>f w.
     if f = Some StLstat then (Inl sys_err, w)
     else if mget (lf_files w) key \<noteq> None \<or> key \<in> set (lf_dirs w) then (Inl ErrAlreadyExists, w)
     else writeAtomic f key body contentType w)
     (validateKey key)"

definition lfs_PutIfVersionMatches ::
  "string \<Rightarrow> ObjectVersion \<Rightarrow> string \<Rightarrow> string \<Rightarrow> (lfs, ObjectVersion) store_op" where
  "lfs_PutIfVersionMatches key expected body contentType = checked (\<lambda>f w.
     case lstatNoSymlink f key w of
       Some e \<Rightarrow> (Inl (if e = ErrNotFound then ErrVersionMismatch else e), w)
     | None \<Rightarrow>
         (case headLocked f key w of
            (Inl e, w1) \<Rightarrow> (Inl (if e = ErrNotFound then ErrVersionMismatch else e), w1)
          | (Inr current, w1) \<Rightarrow>
              if md_Version current \<noteq> expected then (Inl ErrVersionMismatch, w1)
              else writeAtomic f key body contentType w1))
     (validateKey key)"

definition lfs_DeleteIfVersionMatches :: "string \<Rightarrow> ObjectVersion \<Rightarrow> (lfs, unit) store_op" where
  "lfs_DeleteIfVersionMatches key expected = checked (\<lambda>f w.
     case lstatNoSymlink f key w of
       Some e \<Rightarrow> (Inl e, w)
     | None \<Rightarrow>
         (case headLocked f key w of
            (Inl e, w1) \<Rightarrow> (Inl e, w1)
          | (Inr current, w1) \<Rightarrow>
              if md_Version current \<noteq> expected then (Inl ErrVersionMismatch, w1)
              else if f = Some StRemove then (Inl sys_err, w1)
              else if mget (lf_files w1) key = None then (Inl ErrNotFound, w1)
              else
                (let w2 = w1\<lparr>lf_files := mdel key (lf_files w1)\<rparr> in
                 if f = Some StFsyncRemove then (Inl sys_err, w2)
                 else if f = Some StRemoveMeta then (Inl sys_err, w2)
                 else
                   (let w3 = w2\<lparr>lf_metas := mdel key (lf_metas w2)\<rparr> in
                    if f = Some StFsyncRemoveMeta then (Inl sys_err, w3)
                    else (Inr (), bumpListGen w3)))))
     (validateKey key)"

section \<open>Listing\<close>

definition base_name :: "string \<Rightarrow> string" where
  "base_name key = last (str_split (CHR ''/'') key)"

definition collectKeys :: "fault \<Rightarrow> string \<Rightarrow> lfs \<Rightarrow> storage_error + string list" where
  "collectKeys f prefix w =
     (if f = Some StWalk then Inl sys_err
      else Inr (sort (filter (\<lambda>k. \<not> has_suffix (base_name k) ''.meta'' \<and> \<not> has_prefix (base_name k) ''.''
                                \<and> has_prefix k prefix)
                       (map fst (lf_files w)))))"

definition cachedKeys :: "fault \<Rightarrow> string \<Rightarrow> (lfs, string list) store_op" where
  "cachedKeys f prefix w =
     (case mget (lf_listCache w) prefix of
        Some (g, keys) \<Rightarrow>
          if g = lf_listGen w then (Inr keys, w)
          else (case collectKeys f prefix w of
                  Inl e \<Rightarrow> (Inl e, w)
                | Inr ks \<Rightarrow> (Inr ks, w\<lparr>lf_listCache := mput prefix (lf_listGen w, ks) (lf_listCache w)\<rparr>))
      | None \<Rightarrow>
          (case collectKeys f prefix w of
             Inl e \<Rightarrow> (Inl e, w)
           | Inr ks \<Rightarrow> (Inr ks, w\<lparr>lf_listCache := mput prefix (lf_listGen w, ks) (lf_listCache w)\<rparr>)))"

definition page_len :: "ListPage \<Rightarrow> int" where
  "page_len p = int (length (lp_Objects p)) + int (length (lp_CommonPrefixes p))"

text \<open>The loop over the keys after the continuation token.\<close>

fun list_loop :: "fault \<Rightarrow> string \<Rightarrow> string \<Rightarrow> int \<Rightarrow> string list \<Rightarrow> ListPage \<Rightarrow> (lfs, ListPage) store_op" where
  "list_loop f prefix delimiter maxKeys [] page w = (Inr page, w)"
| "list_loop f prefix delimiter maxKeys (k # ks) page w =
     (case (if delimiter \<noteq> [] then str_index (trim_prefix k prefix) delimiter else None) of
        Some i \<Rightarrow>
          (let cp = prefix @ take (i + length delimiter) (trim_prefix k prefix) in
           if cp \<in> set (lp_CommonPrefixes page) then list_loop f prefix delimiter maxKeys ks page w
           else
             (let page1 = page\<lparr>lp_CommonPrefixes := lp_CommonPrefixes page @ [cp]\<rparr> in
              if page_len page1 \<ge> maxKeys then (Inr (page1\<lparr>lp_NextToken := cp @ [CHR 0xFF]\<rparr>), w)
              else list_loop f prefix delimiter maxKeys ks page1 w))
      | None \<Rightarrow>
          (case headLocked f k w of
             (Inl e, w1) \<Rightarrow> (Inl e, w1)
           | (Inr md, w1) \<Rightarrow>
               (let page1 = page\<lparr>lp_Objects := lp_Objects page @ [md]\<rparr> in
                if page_len page1 \<ge> maxKeys then (Inr (page1\<lparr>lp_NextToken := k\<rparr>), w1)
                else list_loop f prefix delimiter maxKeys ks page1 w1)))"

definition lfs_List :: "string \<Rightarrow> ListOptions \<Rightarrow> (lfs, ListPage) store_op" where
  "lfs_List prefix opts = checked (\<lambda>f w.
     (let maxKeys = (if lo_MaxKeys opts > 0 then lo_MaxKeys opts else 1000);
          cont = lo_Token opts in
      case cachedKeys f prefix w of
        (Inl e, w1) \<Rightarrow> (Inl e, w1)
      | (Inr keys, w1) \<Rightarrow>
          list_loop f prefix (lo_Delimiter opts) maxKeys
            (if cont \<noteq> [] then dropWhile (\<lambda>k. k \<le> cont) keys else keys) empty_page w1))
     (validatePrefix prefix)"

definition localfs :: "lfs ObjectStore" where
  "localfs = \<lparr>os_Get = lfs_Get, os_Head = lfs_Head, os_GetRange = lfs_GetRange,
     os_PutIfAbsent = lfs_PutIfAbsent, os_PutIfVersionMatches = lfs_PutIfVersionMatches,
     os_DeleteIfVersionMatches = lfs_DeleteIfVersionMatches, os_List = lfs_List\<rparr>"

section \<open>Every string quotes to a readable literal\<close>

lemma scan_str_quote_any: "scan_str (quote_raw s @ dq # r) = Some (quote_raw s, r)"
proof (induction s rule: measure_induct_rule [where f = length])
  case (less s)
  show ?case
  proof (cases s)
    case Nil
    then show ?thesis by (simp add: scan_str.simps(2))
  next
    case (Cons a t)
    show ?thesis
    proof (cases "utf8_len s = 0")
      case True
      then have "\<not> code a < 128"
        by (auto simp: Cons utf8_len_def utf8_unit_def)
      with True Cons have "quote_raw s = u_esc 65533 @ quote_raw t"
        by (simp add: quote_raw.simps(2))
      with less [of t] Cons show ?thesis by (simp add: scan_str_u_esc)
    next
      case False
      then obtain u t where u: "s = u @ t" "utf8_unit u" "utf8_len s = length u"
        using utf8_len_split by blast
      with False less [of t] show ?thesis
        by (simp add: quote_raw_unit scan_str_unit_quote)
    qed
  qed
qed

lemma wf_raw_quote_any [simp]: "wf_raw (quote_raw s)"
  by (simp add: wf_raw_def scan_str_quote_any)

section \<open>The sidecar of a write\<close>

lemma sidecar_names_valid: "list_all valid_utf8 sidecar_names"
  by code_simp

lemma lower_hex_utf8: "\<forall>c \<in> set s. is_lower_hex c \<Longrightarrow> valid_utf8 s"
proof (induction s)
  case (Cons c s)
  then have "code c < 128" by (auto simp: is_lower_hex_def Let_def)
  with Cons show ?case by (auto intro!: valid_utf8_units(2) utf8_unit_ascii simp del: valid_utf8.simps)
qed simp

lemma sha256_hex_utf8 [simp]: "valid_utf8 (sha256_hex c)"
  using lower_hex_utf8 sha256_hex_lower by blast

lemma parse_written_sidecar:
  assumes "encodeSidecar (newSidecar (sha256_hex c) n ct t) = Some raw" "parseSidecar raw = SideOk sc"
  shows "sc_Sha256 sc = sha256_hex c"
proof -
  let ?s = "newSidecar (sha256_hex c) n ct t"
  let ?fs = "[(''version'', Some (js_int (sc_Version ?s))), (''sha256'', Some (js_string (sc_Sha256 ?s))),
      (''size'', Some (js_int (sc_Size ?s))), (''content_type'', Some (js_string (sc_ContentType ?s))),
      (''modified_at'', Some (js_time (sc_ModifiedAt ?s)))]"
  have raw: "raw = print_compact (js_struct ?fs)"
    using assms(1) by (auto simp: encodeSidecar_def js_sidecar_def split: if_splits)
  have v: "\<forall>(k, v) \<in> set ?fs. valid_utf8 k \<and> k \<in> set sidecar_names"
    using sidecar_names_valid by (auto simp: sidecar_names_def)
  have "wf_json (js_struct ?fs)"
    using v by (intro wf_js_struct) (auto simp: js_string_def newSidecar_def)
  then have "json_parse raw = Some (js_struct ?fs)"
    unfolding raw by (rule json_parse_compact)
  then show ?thesis
    using assms(2) dec_struct_js_struct [OF v, of dec_sidecar_field zero_sidecar]
    by (auto simp: parseSidecar_def dec_sidecar_field_def newSidecar_def split: option.splits if_splits)
qed

section \<open>The contract holds\<close>

definition lfs_view :: "lfs \<Rightarrow> bucket" where
  "lfs_view w k = map_option (\<lambda>(c, mt). (c, lfs_version (sha256_hex c))) (mget (lf_files w) k)"

text \<open>The version of an object is the digest of its content.\<close>

definition lfs_vers :: "string \<Rightarrow> ObjectVersion \<Rightarrow> bool" where
  "lfs_vers c v \<longleftrightarrow> v = lfs_version (sha256_hex c)"

text \<open>No sidecar that reads as current lies about the content beside it.\<close>

definition coherent :: "lfs \<Rightarrow> bool" where
  "coherent w \<longleftrightarrow> (\<forall>k c mt raw sc. mget (lf_files w) k = Some (c, mt) \<longrightarrow> mget (lf_metas w) k = Some raw \<longrightarrow>
     parseSidecar raw = SideOk sc \<longrightarrow> sc_Size sc = int (length c) \<longrightarrow> sc_Sha256 sc = sha256_hex c)"

text \<open>The two faults that leave new content beside an old sidecar.\<close>

definition tearing :: "fault \<Rightarrow> bool" where
  "tearing f \<longleftrightarrow> f = Some StFsyncContent \<or> f = Some StRenameMeta"

definition lfs_ok :: "lfs \<Rightarrow> bool" where
  "lfs_ok w \<longleftrightarrow> mok (lf_files w) \<and> mok (lf_metas w) \<and> coherent w"

definition lfs_good :: "lfs \<Rightarrow> bool" where
  "lfs_good w \<longleftrightarrow> lfs_ok w \<and> list_all (\<lambda>f. \<not> tearing f) (lf_faults w)"

lemma lfs_ok_upd [simp]:
  "lfs_ok (w\<lparr>lf_faults := fs\<rparr>) = lfs_ok w" "lfs_ok (w\<lparr>lf_dirs := ds\<rparr>) = lfs_ok w"
  "lfs_ok (w\<lparr>lf_listCache := lc\<rparr>) = lfs_ok w" "lfs_ok (bumpListGen w) = lfs_ok w"
  by (simp_all add: lfs_ok_def coherent_def bumpListGen_def)

lemma lfs_view_files: "lf_files w' = lf_files w \<Longrightarrow> lfs_view w' = lfs_view w"
  by (simp add: lfs_view_def fun_eq_iff)

lemma take_fault_good:
  "lfs_good w \<Longrightarrow> take_fault w = (f, w') \<Longrightarrow> lfs_good w' \<and> \<not> tearing f \<and> lf_files w' = lf_files w"
  by (auto simp: take_fault_def lfs_good_def split: list.splits) (simp add: tearing_def)

lemma coherentD:
  "coherent w \<Longrightarrow> mget (lf_files w) k = Some (c, mt) \<Longrightarrow> mget (lf_metas w) k = Some raw \<Longrightarrow>
   parseSidecar raw = SideOk sc \<Longrightarrow> sc_Size sc = int (length c) \<Longrightarrow> sc_Sha256 sc = sha256_hex c"
  unfolding coherent_def by blast

lemma coherent_heal:
  assumes "lfs_ok w" "mget (lf_files w) k = Some (c, mt)"
    "encodeSidecar (newSidecar (sha256_hex c) (int (length c)) ct t) = Some raw"
  shows "lfs_ok (w\<lparr>lf_metas := mput k raw (lf_metas w)\<rparr>)"
  using assms parse_written_sidecar [OF assms(3)] by (auto simp: lfs_ok_def coherent_def)

definition head_spec :: "string \<Rightarrow> lfs \<Rightarrow> storage_error + ObjectMetadata \<Rightarrow> lfs \<Rightarrow> bool" where
  "head_spec k w r w' \<longleftrightarrow> lfs_ok w' \<and> lf_files w' = lf_files w \<and> lf_faults w' = lf_faults w \<and> lf_dirs w' = lf_dirs w
     \<and> lf_clock w' = lf_clock w \<and> (case r of
         Inr md \<Rightarrow> md_Key md = k \<and> (\<exists>c mt. mget (lf_files w) k = Some (c, mt) \<and> md_Version md = lfs_version (sha256_hex c))
       | Inl e \<Rightarrow> e = ErrNotFound \<longrightarrow> mget (lf_files w) k = None)"

lemma healSidecar_spec:
  assumes "lfs_ok w" "mget (lf_files w) k = Some (c, mt)" "healSidecar f k c mt w = (r, w')"
  shows "lfs_ok w' \<and> lf_files w' = lf_files w \<and> lf_faults w' = lf_faults w \<and> lf_dirs w' = lf_dirs w
     \<and> lf_clock w' = lf_clock w \<and> (case r of Inr sc \<Rightarrow> sc_Sha256 sc = sha256_hex c | Inl e \<Rightarrow> e = sys_err)"
  using assms coherent_heal [OF assms(1,2)]
  by (auto simp: healSidecar_def Let_def newSidecar_def split: if_splits option.splits)

lemma headLocked_spec:
  assumes "lfs_ok w" "headLocked f k w = (r, w')"
  shows "head_spec k w r w'"
proof (cases "f = Some StStat \<or> mget (lf_files w) k = None")
  case True
  with assms show ?thesis
    by (auto simp: headLocked_def head_spec_def sys_err_def split: if_splits option.splits)
next
  case False
  then obtain c mt where c: "mget (lf_files w) k = Some (c, mt)" by auto
  obtain hr w1 where heal: "healSidecar f k c mt w = (hr, w1)" by fastforce
  note hs = healSidecar_spec [OF assms(1) c heal]
  let ?rd = "if f = Some StReadMeta then SideCorrupt
             else (case mget (lf_metas w) k of None \<Rightarrow> SideCorrupt | Some raw \<Rightarrow> parseSidecar raw)"
  show ?thesis
  proof (cases ?rd)
    case (SideOk sc)
    then obtain raw where "mget (lf_metas w) k = Some raw" "parseSidecar raw = SideOk sc"
      by (auto split: if_splits option.splits)
    then have "sc_Size sc = int (length c) \<Longrightarrow> sc_Sha256 sc = sha256_hex c"
      using assms(1) c by (auto simp: lfs_ok_def intro: coherentD)
    with SideOk False c heal hs assms show ?thesis
      by (auto simp: headLocked_def head_spec_def md_of_sidecar_def sys_err_def split: if_splits sum.splits)
  next
    case SideUnsupported
    with False c assms show ?thesis
      by (auto simp: headLocked_def head_spec_def sys_err_def)
  next
    case SideCorrupt
    with False c heal hs assms show ?thesis
      by (auto simp: headLocked_def head_spec_def md_of_sidecar_def sys_err_def split: sum.splits)
  qed
qed

lemma coherent_write:
  assumes "lfs_ok w" "encodeSidecar (newSidecar (sha256_hex c) (int (length c)) ct t) = Some raw"
  shows "lfs_ok (w\<lparr>lf_files := mput k (c, mt) (lf_files w), lf_metas := mput k raw (lf_metas w)\<rparr>)"
  using assms parse_written_sidecar [OF assms(2)] by (auto simp: lfs_ok_def coherent_def)

lemma writeAtomic_spec:
  assumes "lfs_ok w" "\<not> tearing f" "writeAtomic f k c ct w = (r, w')"
  shows "lfs_ok w' \<and> lf_faults w' = lf_faults w \<and> (case r of
      Inr v \<Rightarrow> v = lfs_version (sha256_hex c) \<and> lf_files w' = mput k (c, lf_clock w) (lf_files w)
    | Inl e \<Rightarrow> e = sys_err \<and> (lf_files w' = lf_files w \<or> lf_files w' = mput k (c, lf_clock w) (lf_files w)))"
proof (cases "f = Some StMkdir \<or> (\<exists>d \<in> set (parent_dirs k). mget (lf_files w) d \<noteq> None) \<or> f = Some StTempContent
    \<or> encodeSidecar (newSidecar (sha256_hex c) (int (length c)) ct (lf_clock w)) = None \<or> f = Some StTempMeta \<or> f = Some StRenameContent")
  case True
  with assms show ?thesis
    by (auto simp: writeAtomic_def Let_def split: if_splits option.splits)
next
  case False
  then obtain raw where raw: "encodeSidecar (newSidecar (sha256_hex c) (int (length c)) ct (lf_clock w)) = Some raw" by auto
  let ?w1 = "w\<lparr>lf_dirs := remdups (parent_dirs k @ lf_dirs w)\<rparr>"
  let ?w3 = "?w1\<lparr>lf_files := mput k (c, lf_clock w) (lf_files ?w1), lf_metas := mput k raw (lf_metas ?w1)\<rparr>"
  have "lfs_ok ?w1" using assms(1) by simp
  then have ok: "lfs_ok ?w3" by (rule coherent_write [OF _ raw])
  have "(r, w') = (if f = Some StFsyncMeta then (Inl sys_err, ?w3) else (Inr (lfs_version (sha256_hex c)), bumpListGen ?w3))"
    using False assms(2,3) raw by (auto simp: writeAtomic_def Let_def tearing_def)
  then show ?thesis
    using ok by (auto simp: bumpListGen_def split: if_splits) (simp add: lfs_ok_def coherent_def)
qed

lemma checked_cases:
  assumes "lfs_good w0" "checked body v w0 = (r, w')"
  obtains e where "r = Inl e" "e = ErrInvalidArgument \<or> e = ErrOther ''closed''" "lfs_good w'" "lf_files w' = lf_files w0"
  | f w where "lfs_good w" "\<not> tearing f" "lf_files w = lf_files w0" "body f w = (r, w')" "v"
proof -
  obtain f w where t: "take_fault w0 = (f, w)" by fastforce
  note g = take_fault_good [OF assms(1) t]
  show thesis
  proof (cases "lf_closed w \<or> \<not> v")
    case True
    with assms(2) t have "r = Inl (ErrOther ''closed'') \<or> r = Inl ErrInvalidArgument" "w' = w"
      by (auto simp: checked_def split: if_splits)
    with g that(1) show ?thesis by blast
  next
    case False
    with assms(2) t have "body f w = (r, w')" by (simp add: checked_def)
    with g False that(2) show ?thesis by blast
  qed
qed

lemma head_spec_good: "lfs_good w \<Longrightarrow> head_spec k w r w' \<Longrightarrow> lfs_good w' \<and> lfs_view w' = lfs_view w"
  by (auto simp: head_spec_def lfs_good_def intro: lfs_view_files)

lemma lfs_view_Some: "mget (lf_files w) k = Some (c, mt) \<Longrightarrow> lfs_view w k = Some (c, lfs_version (sha256_hex c))"
  by (simp add: lfs_view_def)

lemma lfs_view_put:
  "lfs_ok w \<Longrightarrow> lf_files w' = mput k (c, t) (lf_files w) \<Longrightarrow> lfs_view w' = (lfs_view w)(k \<mapsto> (c, lfs_version (sha256_hex c)))"
  by (simp add: lfs_view_def lfs_ok_def fun_eq_iff)

lemma lfs_view_del: "lf_files w' = mdel k (lf_files w) \<Longrightarrow> lfs_view w' = (lfs_view w)(k := None)"
  by (simp add: lfs_view_def fun_eq_iff)

lemma lstat_NotFound: "lstatNoSymlink f k w = Some ErrNotFound \<Longrightarrow> mget (lf_files w) k = None"
  by (auto simp: lstatNoSymlink_def sys_err_def split: if_splits)

lemma lstat_view: "lstatNoSymlink f k w = Some ErrNotFound \<Longrightarrow> lfs_view w k = None"
  by (auto simp: lfs_view_def dest: lstat_NotFound)

lemma lfs_Get_law:
  assumes "lfs_good w0" "lfs_Get k None w0 = (r, w')"
  shows "lfs_good w' \<and> lfs_view w' = lfs_view w0 \<and> get_post (lfs_view w') k r"
  using assms(1) assms(2) [unfolded lfs_Get_def]
proof (cases rule: checked_cases)
  case (1 e)
  then show ?thesis using lfs_view_files [of w' w0] by (auto simp: get_post_def)
next
  case (2 f w)
  obtain h w1 where h: "headLocked f k w = (h, w1)" by fastforce
  have hs: "head_spec k w h w1"
    using 2(1) h by (auto simp: lfs_good_def intro: headLocked_spec)
  note g = head_spec_good [OF 2(1) hs]
  have v0: "lfs_view w = lfs_view w0" using 2(3) by (rule lfs_view_files)
  show ?thesis
  proof (cases "lstatNoSymlink f k w")
    case (Some e)
    with 2 v0 lstat_view [of f k w] show ?thesis by (auto simp: get_post_def)
  next
    case None
    then show ?thesis
      using 2 h hs g v0
      by (auto simp: get_post_def head_spec_def lfs_view_def sys_err_def split: sum.splits if_splits option.splits)
  qed
qed


lemma lfs_Head_law:
  assumes "lfs_good w0" "lfs_Head k w0 = (r, w')"
  shows "lfs_good w' \<and> lfs_view w' = lfs_view w0 \<and> head_post (lfs_view w') k r"
  using assms(1) assms(2) [unfolded lfs_Head_def]
proof (cases rule: checked_cases)
  case (1 e)
  then show ?thesis using lfs_view_files [of w' w0] by (auto simp: head_post_def)
next
  case (2 f w)
  obtain h w1 where h: "headLocked f k w = (h, w1)" by fastforce
  have hs: "head_spec k w h w1"
    using 2(1) h by (auto simp: lfs_good_def intro: headLocked_spec)
  note g = head_spec_good [OF 2(1) hs]
  have v0: "lfs_view w = lfs_view w0" using 2(3) by (rule lfs_view_files)
  show ?thesis
  proof (cases "lstatNoSymlink f k w")
    case (Some e)
    with 2 v0 lstat_view [of f k w] show ?thesis by (auto simp: head_post_def)
  next
    case None
    then show ?thesis
      using 2 h hs g v0
      by (auto simp: head_post_def head_spec_def lfs_view_def split: sum.splits)
  qed
qed

lemma writeAtomic_good:
  assumes "lfs_good w" "\<not> tearing f" "writeAtomic f k c ct w = (r, w')"
  shows "lfs_good w' \<and> (case r of
      Inr v \<Rightarrow> lfs_vers c v \<and> lfs_view w' = (lfs_view w)(k \<mapsto> (c, v))
    | Inl e \<Rightarrow> e = sys_err \<and> (lfs_view w' = lfs_view w \<or> (\<exists>v. lfs_vers c v \<and> lfs_view w' = (lfs_view w)(k \<mapsto> (c, v)))))"
proof -
  have ok: "lfs_ok w" using assms(1) by (simp add: lfs_good_def)
  note ws = writeAtomic_spec [OF ok assms(2,3)]
  have "lfs_good w'" using ws assms(1) by (simp add: lfs_good_def)
  with ws lfs_view_put [OF ok, of w' k c] lfs_view_files [of w' w] show ?thesis
    by (cases r) (auto simp: lfs_vers_def)
qed

lemma lfs_PutIfAbsent_law:
  assumes "lfs_good w0" "lfs_PutIfAbsent k c ct w0 = (r, w')"
  shows "lfs_good w' \<and> put_post lfs_vers (lfs_view w0) k c r (lfs_view w')"
  using assms(1) assms(2) [unfolded lfs_PutIfAbsent_def]
proof (cases rule: checked_cases)
  case (1 e)
  then show ?thesis using lfs_view_files [of w' w0] by (auto simp: put_post_def)
next
  case (2 f w)
  have v0: "lfs_view w = lfs_view w0" using 2(3) by (rule lfs_view_files)
  show ?thesis
  proof (cases "f = Some StLstat \<or> mget (lf_files w) k \<noteq> None \<or> k \<in> set (lf_dirs w)")
    case True
    with 2(4) have "(\<exists>e. r = Inl e) \<and> w' = w" by (simp split: if_split_asm) blast+
    with 2(1) v0 show ?thesis by (auto simp: put_post_def)
  next
    case False
    then have n: "mget (lf_files w) k = None" by (cases "mget (lf_files w) k") auto
    with False 2(4) have wr: "writeAtomic f k c ct w = (r, w')" by simp
    have "lfs_view w k = None" using n by (simp add: lfs_view_def)
    with writeAtomic_good [OF 2(1,2) wr] v0 show ?thesis
      by (cases r) (auto simp: put_post_def sys_err_def)
  qed
qed

lemma lfs_PutIfVersionMatches_law:
  assumes "lfs_good w0" "lfs_PutIfVersionMatches k ev c ct w0 = (r, w')"
  shows "lfs_good w' \<and> cas_post lfs_vers (lfs_view w0) k ev c r (lfs_view w')"
  using assms(1) assms(2) [unfolded lfs_PutIfVersionMatches_def]
proof (cases rule: checked_cases)
  case (1 e)
  then show ?thesis using lfs_view_files [of w' w0] by (auto simp: cas_post_def)
next
  case (2 f w)
  obtain h w1 where h: "headLocked f k w = (h, w1)" by fastforce
  have hs: "head_spec k w h w1"
    using 2(1) h by (auto simp: lfs_good_def intro: headLocked_spec)
  note g = head_spec_good [OF 2(1) hs]
  have v0: "lfs_view w = lfs_view w0" using 2(3) by (rule lfs_view_files)
  show ?thesis
  proof (cases "lstatNoSymlink f k w = None \<and> (\<exists>md. h = Inr md \<and> md_Version md = ev)")
    case False
    then have "(\<exists>e. r = Inl e) \<and> (w' = w \<or> w' = w1)"
      using 2(4) h by (cases "lstatNoSymlink f k w"; cases h; auto split: if_split_asm)
    with g v0 2(1) show ?thesis by (auto simp: cas_post_def)
  next
    case True
    then obtain md where md: "h = Inr md" "md_Version md = ev" by blast
    with True 2(4) h have wr: "writeAtomic f k c ct w1 = (r, w')" by simp
    have "\<exists>c0. lfs_view w1 k = Some (c0, ev)"
      using hs md by (auto simp: head_spec_def lfs_view_def)
    with writeAtomic_good [OF _ 2(2) wr] g v0 show ?thesis
      by (cases r) (auto simp: cas_post_def sys_err_def)
  qed
qed

lemma bumpListGen_lfs:
  "lf_files (bumpListGen w) = lf_files w" "lf_faults (bumpListGen w) = lf_faults w"
  by (simp_all add: bumpListGen_def)

lemma lfs_ok_del:
  "lfs_ok w \<Longrightarrow> lfs_ok (w\<lparr>lf_files := mdel k (lf_files w)\<rparr>)"
  "lfs_ok w \<Longrightarrow> lfs_ok (w\<lparr>lf_files := mdel k (lf_files w), lf_metas := mdel k (lf_metas w)\<rparr>)"
  by (auto simp: lfs_ok_def coherent_def split: if_splits)

lemma lfs_DeleteIfVersionMatches_law:
  assumes "lfs_good w0" "lfs_DeleteIfVersionMatches k ev w0 = (r, w')"
  shows "lfs_good w' \<and> del_post (lfs_view w0) k ev r (lfs_view w')"
  using assms(1) assms(2) [unfolded lfs_DeleteIfVersionMatches_def]
proof (cases rule: checked_cases)
  case (1 e)
  then show ?thesis using lfs_view_files [of w' w0] by (auto simp: del_post_def)
next
  case (2 f w)
  obtain h w1 where h: "headLocked f k w = (h, w1)" by fastforce
  have hs: "head_spec k w h w1"
    using 2(1) h by (auto simp: lfs_good_def intro: headLocked_spec)
  note g = head_spec_good [OF 2(1) hs]
  have v0: "lfs_view w = lfs_view w0" using 2(3) by (rule lfs_view_files)
  show ?thesis
  proof (cases "lstatNoSymlink f k w = None \<and> (\<exists>md. h = Inr md \<and> md_Version md = ev) \<and> f \<noteq> Some StRemove")
    case False
    then have "(\<exists>e. r = Inl e) \<and> (w' = w \<or> w' = w1)"
      using 2(4) h by (cases "lstatNoSymlink f k w"; cases h; auto split: if_split_asm)
    with g v0 2(1) show ?thesis by (auto simp: del_post_def)
  next
    case True
    then obtain md where md: "h = Inr md" "md_Version md = ev" by blast
    then obtain c mt where c: "mget (lf_files w1) k = Some (c, mt)" "ev = lfs_version (sha256_hex c)"
      using hs by (auto simp: head_spec_def)
    have ok1: "lfs_ok w1" using g by (simp add: lfs_good_def)
    let ?w2 = "w1\<lparr>lf_files := mdel k (lf_files w1)\<rparr>"
    let ?w3 = "w1\<lparr>lf_files := mdel k (lf_files w1), lf_metas := mdel k (lf_metas w1)\<rparr>"
    have "(r, w') = (if f = Some StFsyncRemove then (Inl sys_err, ?w2) else if f = Some StRemoveMeta then (Inl sys_err, ?w2)
        else if f = Some StFsyncRemoveMeta then (Inl sys_err, ?w3) else (Inr (), bumpListGen ?w3))"
      using True md c 2(4) h by (simp add: Let_def split: if_split_asm)
    then have "(r = Inl sys_err \<and> w' = ?w2) \<or> (r = Inl sys_err \<and> w' = ?w3) \<or> (r = Inr () \<and> w' = bumpListGen ?w3)"
      by (simp split: if_splits)
    then have files: "lf_files w' = mdel k (lf_files w1)" "lf_faults w' = lf_faults w1" "lfs_ok w'"
      and res: "r = Inr () \<or> r = Inl sys_err"
      using lfs_ok_del [OF ok1, of k] by (auto simp: bumpListGen_lfs)
    have "lfs_good w'" using files g by (simp add: lfs_good_def)
    moreover have "lfs_view w1 k = Some (c, ev)" using c by (simp add: lfs_view_def)
    ultimately show ?thesis
      using files(1) res g v0 lfs_view_del [of w' k w1] by (auto simp: del_post_def sys_err_def)
  qed
qed

lemma list_loop_good:
  "lfs_good w \<Longrightarrow> list_loop f p d m ks pg w = (r, w') \<Longrightarrow> lfs_good w' \<and> lf_files w' = lf_files w"
proof (induction ks arbitrary: pg w)
  case (Cons k ks)
  obtain h w1 where h: "headLocked f k w = (h, w1)" by fastforce
  have hs: "head_spec k w h w1"
    using Cons.prems(1) h by (auto simp: lfs_good_def intro: headLocked_spec)
  have g: "lfs_good w1" "lf_files w1 = lf_files w"
    using head_spec_good [OF Cons.prems(1) hs] hs by (auto simp: head_spec_def)
  show ?case
  proof (cases "if d \<noteq> [] then str_index (trim_prefix k p) d else None")
    case (Some i)
    note eq = Cons.prems(2) [unfolded list_loop.simps Some option.case Let_def]
    show ?thesis
      using eq Cons.prems(1) Cons.IH [OF Cons.prems(1)] by (simp split: if_split_asm)
  next
    case None
    note eq = Cons.prems(2) [unfolded list_loop.simps None option.case Let_def h prod.case]
    show ?thesis
      using eq g Cons.IH [OF g(1)] by (cases h) (simp_all split: if_split_asm)
  qed
qed simp

lemma cachedKeys_good:
  "lfs_good w \<Longrightarrow> cachedKeys f p w = (r, w') \<Longrightarrow> lfs_good w' \<and> lf_files w' = lf_files w"
  by (auto simp: cachedKeys_def lfs_good_def split: option.splits if_splits sum.splits)

lemma lfs_List_law:
  assumes "lfs_good w0" "lfs_List p lo w0 = (r, w')"
  shows "lfs_good w' \<and> lfs_view w' = lfs_view w0"
  using assms(1) assms(2) [unfolded lfs_List_def]
proof (cases rule: checked_cases)
  case (1 e)
  then show ?thesis using lfs_view_files [of w' w0] by auto
next
  case (2 f w)
  obtain kr w1 where k: "cachedKeys f p w = (kr, w1)" by fastforce
  note ck = cachedKeys_good [OF 2(1) k]
  show ?thesis
  proof (cases kr)
    case (Inl e)
    with 2 k ck show ?thesis by (auto simp: Let_def intro: lfs_view_files)
  next
    case (Inr keys)
    have "lfs_good w' \<and> lf_files w' = lf_files w1"
      using ck by (rule_tac list_loop_good) (use 2(4) k Inr in \<open>auto simp: Let_def\<close>)
    with ck 2(3) show ?thesis by (auto intro: lfs_view_files)
  qed
qed

interpretation lfs: atomic_store localfs lfs_view lfs_good lfs_vers
proof (unfold_locales, goal_cases)
  case (3 w k r w')
  then show ?case using lfs_Get_law [of w k r w'] by (auto simp: localfs_def)
next
  case (4 w k r w')
  then show ?case using lfs_Head_law [of w k r w'] by (auto simp: localfs_def)
next
  case (5 w k c ct r w')
  then show ?case using lfs_PutIfAbsent_law [of w k c ct r w'] by (simp add: localfs_def)
next
  case (6 w k ev c ct r w')
  then show ?case using lfs_PutIfVersionMatches_law [of w k ev c ct r w'] by (simp add: localfs_def)
next
  case (7 w k ev r w')
  then show ?case using lfs_DeleteIfVersionMatches_law [of w k ev r w'] by (simp add: localfs_def)
next
  case (8 w p lo r w')
  then show ?case using lfs_List_law [of w p lo r w'] by (simp add: localfs_def)
qed simp_all

end
