(* ===== verification/Repo_Keys.thy ===== *)
theory Repo_Keys
  imports Go_Json
begin

text \<open>
  The durable key names of a repository (\<open>internal/repo/keys\<close>): the identifier check, the prefix
  of a (tenant, repo) pair and the key constructors. A panic is \<open>None\<close>.
\<close>

section \<open>Identifiers\<close>

definition id_char :: "char \<Rightarrow> bool" where
  "id_char c \<longleftrightarrow> code_in 65 90 c \<or> code_in 97 122 c \<or> code_in 48 57 c \<or> c = CHR ''_'' \<or> c = CHR ''-''"

text \<open>The regular expression \<open>^[A-Za-z0-9_-]{1,128}$\<close>.\<close>

definition idPattern :: "string \<Rightarrow> bool" where
  "idPattern s \<longleftrightarrow> 1 \<le> length s \<and> length s \<le> 128 \<and> list_all id_char s"

definition ValidateID :: "string \<Rightarrow> bool" where
  "ValidateID s =
     (if \<not> idPattern s then False
      else if s = ''.'' \<or> s = ''..'' \<or> str_contains s ''..'' then False
      else True)"

datatype id_error = ErrInvalidTenantID | ErrInvalidRepoID

record keys_repo =
  kr_tenantID :: string
  kr_repoID :: string
  kr_prefix :: string

definition NewRepo :: "string \<Rightarrow> string \<Rightarrow> id_error + keys_repo" where
  "NewRepo tenantID repoID =
     (if \<not> ValidateID tenantID then Inl ErrInvalidTenantID
      else if \<not> ValidateID repoID then Inl ErrInvalidRepoID
      else Inr \<lparr>kr_tenantID = tenantID, kr_repoID = repoID,
                kr_prefix = ''tenants/'' @ tenantID @ ''/repos/'' @ repoID @ ''/''\<rparr>)"

section \<open>Key constructors\<close>

definition RootManifestKey :: "keys_repo \<Rightarrow> string" where
  "RootManifestKey r = kr_prefix r @ ''manifest/root.json''"

definition TxRecordKey :: "keys_repo \<Rightarrow> string \<Rightarrow> string" where
  "TxRecordKey r txID = kr_prefix r @ ''tx/'' @ txID @ ''.json''"

definition TxPrefix :: "keys_repo \<Rightarrow> string" where
  "TxPrefix r = kr_prefix r @ ''tx/''"

definition CommitMarkerKey :: "keys_repo \<Rightarrow> string \<Rightarrow> string" where
  "CommitMarkerKey r txID = TxRecordKey r txID @ ''.commit''"

definition CanonicalPackKey :: "keys_repo \<Rightarrow> string \<Rightarrow> string" where
  "CanonicalPackKey r packHash = kr_prefix r @ ''packs/canonical/'' @ packHash @ ''.pack''"

definition GeneratedPackKey :: "keys_repo \<Rightarrow> string \<Rightarrow> string" where
  "GeneratedPackKey r packHash = kr_prefix r @ ''packs/generated/'' @ packHash @ ''.pack''"

definition checkPackArea :: "string \<Rightarrow> bool" where
  "checkPackArea area \<longleftrightarrow> area = ''canonical'' \<or> area = ''generated''"

definition PackIdxKey :: "keys_repo \<Rightarrow> string \<Rightarrow> string \<Rightarrow> string option" where
  "PackIdxKey r packHash area =
     (if checkPackArea area then Some (kr_prefix r @ ''packs/'' @ area @ ''/'' @ packHash @ ''.idx'') else None)"

definition PackBitmapKey :: "keys_repo \<Rightarrow> string \<Rightarrow> string" where
  "PackBitmapKey r packHash = kr_prefix r @ ''packs/canonical/'' @ packHash @ ''.bitmap''"

definition CommitGraphKey :: "keys_repo \<Rightarrow> string \<Rightarrow> string" where
  "CommitGraphKey r graphHash = kr_prefix r @ ''indexes/commit-graph/'' @ graphHash @ ''.bvcg''"

definition ObjectMapKey :: "keys_repo \<Rightarrow> string \<Rightarrow> string" where
  "ObjectMapKey r objectMapHash = kr_prefix r @ ''indexes/object-map/'' @ objectMapHash @ ''.bvom''"

definition ReachabilityKey :: "keys_repo \<Rightarrow> string \<Rightarrow> string" where
  "ReachabilityKey r indexHash = kr_prefix r @ ''indexes/reachability/'' @ indexHash @ ''.json''"

definition BundleKey :: "keys_repo \<Rightarrow> string \<Rightarrow> string" where
  "BundleKey r bundleID = kr_prefix r @ ''bundles/'' @ bundleID @ ''.bundle''"

definition BundleManifestKey :: "keys_repo \<Rightarrow> string \<Rightarrow> string" where
  "BundleManifestKey r bundleID = kr_prefix r @ ''bundles/'' @ bundleID @ ''.json''"

definition LFSObjectKey :: "keys_repo \<Rightarrow> string \<Rightarrow> string" where
  "LFSObjectKey r sha = kr_prefix r @ ''lfs/objects/'' @ sha"

definition HookKey :: "keys_repo \<Rightarrow> string \<Rightarrow> string \<Rightarrow> string" where
  "HookKey r hookID name = kr_prefix r @ ''hooks/'' @ hookID @ ''/'' @ name"

definition GCMarkKey :: "keys_repo \<Rightarrow> string \<Rightarrow> string" where
  "GCMarkKey r markID = kr_prefix r @ ''gc/marks/'' @ markID @ ''.json''"

definition GCSweepKey :: "keys_repo \<Rightarrow> string \<Rightarrow> string" where
  "GCSweepKey r sweepID = kr_prefix r @ ''gc/sweeps/'' @ sweepID @ ''.json''"

definition RefShardKey :: "keys_repo \<Rightarrow> string \<Rightarrow> string" where
  "RefShardKey r shardHash = kr_prefix r @ ''manifest/ref-shards/'' @ shardHash @ ''.json''"

definition ReachabilityDeltaKey :: "keys_repo \<Rightarrow> string \<Rightarrow> string" where
  "ReachabilityDeltaKey r h = kr_prefix r @ ''indexes/reachability-delta/'' @ h @ ''.bvrd''"

definition ReachabilityDeltaPrefix :: "keys_repo \<Rightarrow> string" where
  "ReachabilityDeltaPrefix r = kr_prefix r @ ''indexes/reachability-delta/''"

section \<open>Keys of different objects differ\<close>

lemma key_neq [simp]:
  "TxRecordKey r t \<noteq> RootManifestKey r" "CommitMarkerKey r t \<noteq> RootManifestKey r"
  "RootManifestKey r \<noteq> TxRecordKey r t" "RootManifestKey r \<noteq> CommitMarkerKey r t"
  by (simp_all add: TxRecordKey_def RootManifestKey_def CommitMarkerKey_def)

lemma TxRecordKey_inject [simp]: "TxRecordKey r t = TxRecordKey r u \<longleftrightarrow> t = u"
  by (simp add: TxRecordKey_def)

lemma marker_not_record: "CommitMarkerKey r t \<noteq> TxRecordKey r u"
proof
  assume "CommitMarkerKey r t = TxRecordKey r u"
  then have "rev (t @ ''.json.commit'') = rev (u @ ''.json'')"
    by (simp add: CommitMarkerKey_def TxRecordKey_def)
  then show False by simp
qed

lemma id_char_no_slash: "list_all id_char s \<Longrightarrow> CHR ''/'' \<notin> set s"
  by (auto simp: list_all_iff id_char_def code_in_def)

lemma ValidateID_no_slash: "ValidateID s \<Longrightarrow> CHR ''/'' \<notin> set s"
  by (auto simp: ValidateID_def idPattern_def dest: id_char_no_slash split: if_splits)

text \<open>A field without the separator ends where the separator is.\<close>

lemma field_unique:
  assumes "c \<notin> set a" "c \<notin> set b" "a @ c # x = b @ c # y"
  shows "a = b \<and> x = y"
  using assms
proof (induction a arbitrary: b)
  case Nil
  then show ?case by (cases b) auto
next
  case (Cons z a)
  then show ?case by (cases b) auto
qed

text \<open>C20: no object of one repository lies under the prefix of another. If a key starts with
  the prefixes of two repositories whose identifiers passed \<open>NewRepo\<close>, they are the same tenant
  and the same repository, so listing or deleting under one prefix never touches another.\<close>

theorem repo_prefixes_disjoint:
  assumes "NewRepo t1 r1 = Inr k1" "NewRepo t2 r2 = Inr k2"
    and "has_prefix key (kr_prefix k1)" "has_prefix key (kr_prefix k2)"
  shows "t1 = t2 \<and> r1 = r2 \<and> k1 = k2"
proof -
  have v: "ValidateID t1" "ValidateID r1" "ValidateID t2" "ValidateID r2"
    using assms(1,2) by (auto simp: NewRepo_def split: if_splits)
  have k: "k1 = \<lparr>kr_tenantID = t1, kr_repoID = r1, kr_prefix = ''tenants/'' @ t1 @ ''/repos/'' @ r1 @ ''/''\<rparr>"
    "k2 = \<lparr>kr_tenantID = t2, kr_repoID = r2, kr_prefix = ''tenants/'' @ t2 @ ''/repos/'' @ r2 @ ''/''\<rparr>"
    using assms(1,2) v by (auto simp: NewRepo_def)
  obtain x y where "kr_prefix k1 @ x = kr_prefix k2 @ y"
    using assms(3,4) by (auto simp: has_prefix_iff)
  then have "t1 @ CHR ''/'' # ''repos/'' @ r1 @ ''/'' @ x = t2 @ CHR ''/'' # ''repos/'' @ r2 @ ''/'' @ y"
    by (simp add: k)
  then have t: "t1 = t2" and rest: "''repos/'' @ r1 @ ''/'' @ x = ''repos/'' @ r2 @ ''/'' @ y"
    using field_unique [OF ValidateID_no_slash [OF v(1)] ValidateID_no_slash [OF v(3)]] by blast+
  from rest have "r1 @ CHR ''/'' # x = r2 @ CHR ''/'' # y"
    by simp
  then have "r1 = r2"
    using field_unique [OF ValidateID_no_slash [OF v(2)] ValidateID_no_slash [OF v(4)]] by blast
  with t k show ?thesis by simp
qed

theorem repo_prefixes_disjoint_witness:
  "\<exists>k1 k2. NewRepo ''acme'' ''app'' = Inr k1 \<and> NewRepo ''acme'' ''app'' = Inr k2 \<and>
     has_prefix (RootManifestKey k1) (kr_prefix k1) \<and> k1 = k2"
proof -
  have ok: "NewRepo ''acme'' ''app''
      = Inr \<lparr>kr_tenantID = ''acme'', kr_repoID = ''app'', kr_prefix = ''tenants/acme/repos/app/''\<rparr>"
    by code_simp
  show ?thesis
    using repo_prefixes_disjoint [OF ok ok, of "RootManifestKey
      \<lparr>kr_tenantID = ''acme'', kr_repoID = ''app'', kr_prefix = ''tenants/acme/repos/app/''\<rparr>"] ok
    by (simp add: RootManifestKey_def has_prefix_def)
qed

end
