(* ===== verification/Manifest.thy ===== *)
theory Manifest
  imports Object_Store Repo_Keys Sha256
begin

text \<open>
  The root manifest (\<open>internal/repo/manifest\<close>): the header the repository engine owns and its
  schema gate, the splicing of the header into a body and back, and the reader and the
  compare-and-swap of the root object. \<open>golang.org/x/mod/semver\<close> is a parameter. The body a root
  carries is opaque here; \<open>Manifest_Body\<close> gives it its type.
\<close>

section \<open>Errors of the repository engine\<close>

datatype repo_error =
    ErrRepoExists
  | ErrRepoNotFound
  | ErrUnsupportedSchema
  | ErrCallbackFailed repo_error
  | EInvalidTenantID
  | EInvalidRepoID
  | ErrInvalidManifest string
  | EStorage storage_error
  | EReadBody
  | EParse string
  | EReservedKey string
  | EMarshal string
  | EObjectFormat string
  | ECtx string
  | CommitGaveUpError int "string list" "repo_error option"
  | EOther string

section \<open>The header\<close>

record Format =
  fm_ObjectFormat :: string
  fm_Compatibility :: "string list"

record RootHeader =
  rh_SchemaVersion :: int
  rh_MinReaderVersion :: string
  rh_RepoID :: string
  rh_RepoFormat :: Format
  rh_ManifestVersion :: "64 word"
  rh_LatestTx :: string
  rh_CreatedAt :: gotime
  rh_UpdatedAt :: gotime

definition headerKeys :: "string list" where
  "headerKeys = [''schema_version'', ''min_reader_version'', ''repo_id'', ''repo_format'',
                 ''manifest_version'', ''latest_tx'', ''created_at'', ''updated_at'']"

definition zero_format :: Format where
  "zero_format = \<lparr>fm_ObjectFormat = [], fm_Compatibility = []\<rparr>"

definition zero_header :: RootHeader where
  "zero_header = \<lparr>rh_SchemaVersion = 0, rh_MinReaderVersion = [], rh_RepoID = [], rh_RepoFormat = zero_format,
     rh_ManifestVersion = 0, rh_LatestTx = [], rh_CreatedAt = zero_time, rh_UpdatedAt = zero_time\<rparr>"

section \<open>The schema gate\<close>

record semver =
  IsValid :: "string \<Rightarrow> bool"
  Compare :: "string \<Rightarrow> string \<Rightarrow> int"

definition CurrentSchemaVersion :: int where "CurrentSchemaVersion = 2"

definition SupportedReaderVersion :: string where "SupportedReaderVersion = ''0.1.0''"

definition vPrefix :: "string \<Rightarrow> string" where
  "vPrefix s = (if length s > 0 \<and> s ! 0 = CHR ''v'' then s else ''v'' @ s)"

definition SchemaGate :: "semver \<Rightarrow> int \<Rightarrow> string \<Rightarrow> repo_error option" where
  "SchemaGate sv schemaVersion minReaderVersion =
     (if schemaVersion < 1 \<or> schemaVersion > CurrentSchemaVersion then Some ErrUnsupportedSchema
      else if minReaderVersion = [] then None
      else
        (let mr = vPrefix minReaderVersion; supported = vPrefix SupportedReaderVersion in
         if \<not> IsValid sv mr then Some ErrUnsupportedSchema
         else if Compare sv mr supported > 0 then Some ErrUnsupportedSchema
         else None))"

section \<open>The header as JSON\<close>

text \<open>\<open>Time.MarshalJSON\<close> refuses years past 9999 and offsets of a day or more.\<close>

definition time_marshals :: "gotime \<Rightarrow> bool" where
  "time_marshals t \<longleftrightarrow> year t \<le> 9999 \<and> - 1440 < zone t \<and> zone t < 1440"

definition js_format :: "Format \<Rightarrow> json" where
  "js_format f = js_struct
     [(''object_format'', Some (js_string (fm_ObjectFormat f))),
      (''compatibility'', if fm_Compatibility f = [] then None
                          else Some (JArr (map js_string (fm_Compatibility f))))]"

definition js_header :: "RootHeader \<Rightarrow> json" where
  "js_header h = js_struct
     [(''schema_version'', Some (js_int (rh_SchemaVersion h))),
      (''min_reader_version'', Some (js_string (rh_MinReaderVersion h))),
      (''repo_id'', Some (js_string (rh_RepoID h))),
      (''repo_format'', Some (js_format (rh_RepoFormat h))),
      (''manifest_version'', Some (js_nat (unat (rh_ManifestVersion h)))),
      (''latest_tx'', Some (js_string (rh_LatestTx h))),
      (''created_at'', Some (js_time (rh_CreatedAt h))),
      (''updated_at'', Some (js_time (rh_UpdatedAt h)))]"

definition marshal_header :: "RootHeader \<Rightarrow> string option" where
  "marshal_header h =
     (if time_marshals (rh_CreatedAt h) \<and> time_marshals (rh_UpdatedAt h)
      then Some (print_compact (js_header h)) else None)"

definition dec_format_field :: "string \<Rightarrow> json \<Rightarrow> Format \<Rightarrow> Format option" where
  "dec_format_field n j f =
     (if n = ''object_format'' then
        map_option (\<lambda>s. f\<lparr>fm_ObjectFormat := s\<rparr>) (dec_string j (fm_ObjectFormat f))
      else
        map_option (\<lambda>c. f\<lparr>fm_Compatibility := c\<rparr>) (dec_slice (\<lambda>x. dec_string x []) j))"

definition dec_format :: "json \<Rightarrow> Format \<Rightarrow> Format option" where
  "dec_format = dec_struct [''object_format'', ''compatibility''] dec_format_field"

definition dec_header_field :: "string \<Rightarrow> json \<Rightarrow> RootHeader \<Rightarrow> RootHeader option" where
  "dec_header_field n j h =
     (if n = ''schema_version'' then
        map_option (\<lambda>i. h\<lparr>rh_SchemaVersion := i\<rparr>) (dec_int 64 j (rh_SchemaVersion h))
      else if n = ''min_reader_version'' then
        map_option (\<lambda>s. h\<lparr>rh_MinReaderVersion := s\<rparr>) (dec_string j (rh_MinReaderVersion h))
      else if n = ''repo_id'' then
        map_option (\<lambda>s. h\<lparr>rh_RepoID := s\<rparr>) (dec_string j (rh_RepoID h))
      else if n = ''repo_format'' then
        map_option (\<lambda>f. h\<lparr>rh_RepoFormat := f\<rparr>) (dec_format j (rh_RepoFormat h))
      else if n = ''manifest_version'' then
        map_option (\<lambda>v. h\<lparr>rh_ManifestVersion := of_nat v\<rparr>) (dec_uint 64 j (unat (rh_ManifestVersion h)))
      else if n = ''latest_tx'' then
        map_option (\<lambda>s. h\<lparr>rh_LatestTx := s\<rparr>) (dec_string j (rh_LatestTx h))
      else if n = ''created_at'' then
        map_option (\<lambda>t. h\<lparr>rh_CreatedAt := t\<rparr>) (dec_time j (rh_CreatedAt h))
      else
        map_option (\<lambda>t. h\<lparr>rh_UpdatedAt := t\<rparr>) (dec_time j (rh_UpdatedAt h)))"

definition dec_header :: "json \<Rightarrow> RootHeader option" where
  "dec_header j = dec_struct headerKeys dec_header_field j zero_header"

text \<open>The two fields the schema gate reads before the rest is decoded.\<close>

definition dec_compat_field :: "string \<Rightarrow> json \<Rightarrow> int \<times> string \<Rightarrow> (int \<times> string) option" where
  "dec_compat_field n j c =
     (if n = ''schema_version'' then map_option (\<lambda>i. (i, snd c)) (dec_int 64 j (fst c))
      else map_option (\<lambda>s. (fst c, s)) (dec_string j (snd c)))"

definition compatHeader :: "json \<Rightarrow> (int \<times> string) option" where
  "compatHeader j = dec_struct [''schema_version'', ''min_reader_version''] dec_compat_field j (0, [])"

section \<open>Splicing and reading\<close>

definition pickHeader :: "(string, json) gomap \<Rightarrow> string" where
  "pickHeader topm =
     print_compact (marshal_raw_map
       (mput_all (concat (map (\<lambda>k. case mget topm k of None \<Rightarrow> [] | Some v \<Rightarrow> [(k, v)]) headerKeys)) []))"

definition WrapHeaderInBody :: "RootHeader \<Rightarrow> string \<Rightarrow> repo_error + string" where
  "WrapHeaderInBody h body =
     (let topm0 = (if length body = 0 then Inr []
                  else (case unmarshal_raw_map body of
                          None \<Rightarrow> Inl (EParse ''body must be a JSON object'')
                        | Some None \<Rightarrow> Inl (EParse ''body must be a JSON object, got null'')
                        | Some (Some m) \<Rightarrow> Inr m)) in
      case topm0 of
        Inl e \<Rightarrow> Inl e
      | Inr topm \<Rightarrow>
          (case List.find (\<lambda>k. mget topm k \<noteq> None) headerKeys of
             Some k \<Rightarrow> Inl (EReservedKey k)
           | None \<Rightarrow>
               (case marshal_header h of
                  None \<Rightarrow> Inl (EMarshal ''header'')
                | Some headerJSON \<Rightarrow>
                    (case unmarshal_raw_map headerJSON of
                       None \<Rightarrow> Inl (EParse ''header'')
                     | Some hm \<Rightarrow>
                         (let headerMap = (case hm of None \<Rightarrow> [] | Some m \<Rightarrow> m) in
                          Inr (print_compact (marshal_raw_map (mput_all headerMap topm))))))))"

text \<open>\<open>ReadRoot\<close> after the object has been read: parse, gate, header, remaining body.\<close>

definition decode_root :: "semver \<Rightarrow> string \<Rightarrow> repo_error + RootHeader \<times> string" where
  "decode_root sv raw =
     (case unmarshal_raw_map raw of
        None \<Rightarrow> Inl (EParse ''root manifest'')
      | Some topm0 \<Rightarrow>
          (let topm = (case topm0 of None \<Rightarrow> [] | Some m \<Rightarrow> m);
               headerJSON = pickHeader topm in
           case json_parse headerJSON of
             None \<Rightarrow> Inl (EParse ''compat header'')
           | Some hj \<Rightarrow>
               (case compatHeader hj of
                  None \<Rightarrow> Inl (EParse ''compat header'')
                | Some (sver, mrv) \<Rightarrow>
                    (case SchemaGate sv sver mrv of
                       Some e \<Rightarrow> Inl e
                     | None \<Rightarrow>
                         (case dec_header hj of
                            None \<Rightarrow> Inl (EParse ''root header'')
                          | Some header \<Rightarrow>
                              Inr (header, print_compact (marshal_raw_map (fold mdel headerKeys topm))))))))"

definition ReadRoot ::
  "semver \<Rightarrow> 'w ObjectStore \<Rightarrow> string \<Rightarrow> 'w \<Rightarrow> (repo_error + RootHeader \<times> string \<times> ObjectVersion) \<times> 'w" where
  "ReadRoot sv S key w =
     (case os_Get S key None w of
        (Inl e, w1) \<Rightarrow> (Inl (if e = ErrNotFound then ErrRepoNotFound else EStorage e), w1)
      | (Inr obj, w1) \<Rightarrow>
          if obj_ReadErr obj then (Inl EReadBody, w1)
          else
            (case decode_root sv (obj_Body obj) of
               Inl e \<Rightarrow> (Inl e, w1)
             | Inr (header, body) \<Rightarrow> (Inr (header, body, md_Version (obj_Metadata obj)), w1)))"

definition CASRoot ::
  "'w ObjectStore \<Rightarrow> string \<Rightarrow> string \<Rightarrow> ObjectVersion \<Rightarrow> 'w \<Rightarrow> (repo_error + ObjectVersion) \<times> 'w" where
  "CASRoot S key body prev w =
     (case os_PutIfVersionMatches S key prev body [] w of
        (Inl e, w1) \<Rightarrow> (Inl (EStorage e), w1)
      | (Inr v, w1) \<Rightarrow> (Inr v, w1))"

section \<open>Header and body come back\<close>

definition wf_header :: "RootHeader \<Rightarrow> bool" where
  "wf_header h \<longleftrightarrow>
     - (2 ^ 63) \<le> rh_SchemaVersion h \<and> rh_SchemaVersion h < 2 ^ 63 \<and>
     valid_utf8 (rh_MinReaderVersion h) \<and> valid_utf8 (rh_RepoID h) \<and> valid_utf8 (rh_LatestTx h) \<and>
     valid_utf8 (fm_ObjectFormat (rh_RepoFormat h)) \<and>
     list_all valid_utf8 (fm_Compatibility (rh_RepoFormat h)) \<and>
     wf_time (rh_CreatedAt h) \<and> wf_time (rh_UpdatedAt h)"

definition header_fields :: "RootHeader \<Rightarrow> (string \<times> json) list" where
  "header_fields h =
     [(''schema_version'', js_int (rh_SchemaVersion h)),
      (''min_reader_version'', js_string (rh_MinReaderVersion h)),
      (''repo_id'', js_string (rh_RepoID h)),
      (''repo_format'', js_format (rh_RepoFormat h)),
      (''manifest_version'', js_nat (unat (rh_ManifestVersion h))),
      (''latest_tx'', js_string (rh_LatestTx h)),
      (''created_at'', js_time (rh_CreatedAt h)),
      (''updated_at'', js_time (rh_UpdatedAt h))]"

definition header_map :: "RootHeader \<Rightarrow> (string, json) gomap" where
  "header_map h =
     [(''created_at'', js_time (rh_CreatedAt h)),
      (''latest_tx'', js_string (rh_LatestTx h)),
      (''manifest_version'', js_nat (unat (rh_ManifestVersion h))),
      (''min_reader_version'', js_string (rh_MinReaderVersion h)),
      (''repo_format'', js_format (rh_RepoFormat h)),
      (''repo_id'', js_string (rh_RepoID h)),
      (''schema_version'', js_int (rh_SchemaVersion h)),
      (''updated_at'', js_time (rh_UpdatedAt h))]"

lemma header_map_fields: "mput_all (header_fields h) [] = header_map h"
  by (simp add: header_fields_def header_map_def)

lemma keys_valid: "list_all valid_utf8 headerKeys" "valid_utf8 ''object_format''" "valid_utf8 ''compatibility''"
  by code_simp+

lemma header_fields_keys: "map fst (header_fields h) = headerKeys"
  by (simp add: header_fields_def headerKeys_def)

lemma header_fields_mem: "(k, v) \<in> set (header_fields h) \<Longrightarrow> k \<in> set headerKeys"
  unfolding header_fields_keys [of h, symmetric] by force

lemma js_header_fields: "js_header h = JObj (map (\<lambda>(k, v). (quote_raw k, v)) (header_fields h))"
  by (simp add: js_header_def js_struct_def header_fields_def)

lemma format_ok:
  assumes "valid_utf8 (fm_ObjectFormat f)" "list_all valid_utf8 (fm_Compatibility f)"
  shows "wf_json (js_format f)" "jesc (js_format f) = js_format f" "dec_format (js_format f) zero_format = Some f"
proof -
  have c: "wf_json (JArr (map js_string (fm_Compatibility f)))"
      "jesc (JArr (map js_string (fm_Compatibility f))) = JArr (map js_string (fm_Compatibility f))"
      "dec_slice (\<lambda>x. dec_string x []) (JArr (map js_string (fm_Compatibility f))) = Some (fm_Compatibility f)"
    using assms(2) by (auto simp: list_all_iff intro!: dec_slice_map)
  show "wf_json (js_format f)"
    unfolding js_format_def using assms(1) c keys_valid by (intro wf_js_struct) auto
  show "jesc (js_format f) = js_format f"
    unfolding js_format_def using assms(1) c keys_valid by (intro jesc_js_struct) auto
  show "dec_format (js_format f) zero_format = Some f"
    unfolding js_format_def dec_format_def using assms(1) c keys_valid
    by (subst dec_struct_js_struct) (auto simp: dec_format_field_def zero_format_def)
qed

lemma header_fields_ok:
  assumes "wf_header h" "(k, v) \<in> set (header_fields h)"
  shows "valid_utf8 k" "wf_json v" "jesc v = v"
proof -
  have "k \<in> set headerKeys"
    using assms(2) by (rule header_fields_mem)
  then show "valid_utf8 k" using keys_valid(1) by (auto simp: list_all_iff)
  show "wf_json v" "jesc v = v"
    using assms format_ok [of "rh_RepoFormat h"] by (auto simp: header_fields_def wf_header_def)
qed

lemma wf_js_header: "wf_header h \<Longrightarrow> wf_json (js_header h)"
  using header_fields_ok [of h] by (auto simp: js_header_fields)

lemma unquote_fields:
  assumes "\<forall>(k, v) \<in> set fs. valid_utf8 k"
  shows "map (\<lambda>(k, x). (unquote k, x)) (map (\<lambda>(k, v). (quote_raw k, v)) fs) = fs"
  using assms by (induction fs) (auto simp: unquote_quote_raw)

lemma unmarshal_header:
  assumes "wf_header h"
  shows "unmarshal_raw_map (print_compact (js_header h)) = Some (Some (header_map h))"
  using json_parse_compact [OF wf_js_header [OF assms]]
    unquote_fields [of "header_fields h"] header_fields_ok(1) [OF assms]
  by (force simp: unmarshal_raw_map_def js_header_fields header_map_fields del: map_map)

lemma mok_header_map: "mok (header_map h)"
  unfolding header_map_fields [symmetric] by simp

lemma header_map_ok:
  assumes "wf_header h" "(k, v) \<in> set (header_map h)"
  shows "valid_utf8 k" "wf_json v" "jesc v = v" "k \<in> set headerKeys"
proof -
  have "(k, v) \<in> set (header_fields h)"
    using assms(2) by (auto simp: header_map_def header_fields_def)
  then show "valid_utf8 k" "wf_json v" "jesc v = v" "k \<in> set headerKeys"
    using header_fields_ok [OF assms(1)] header_fields_mem by blast+
qed

lemma js_map_struct: "js_map f m = js_struct (map (\<lambda>(k, v). (k, Some (f v))) m)"
  unfolding js_map_def js_struct_def by (induction m) auto

lemma header_map_jesc: "wf_header h \<Longrightarrow> map (\<lambda>(k, v). (k, jesc v)) (header_map h) = header_map h"
  by (rule map_idI) (auto dest: header_map_ok(3))

lemma dec_struct_fields:
  assumes "\<forall>(k, v) \<in> set fs. valid_utf8 k"
  shows "dec_struct names f (js_struct fs) r
         = fold_opt (\<lambda>(k, v) r. case v of None \<Rightarrow> Some r
             | Some j \<Rightarrow> (case field_for names k of None \<Rightarrow> Some r | Some n \<Rightarrow> f n j r)) fs r"
proof -
  have "fold_opt (\<lambda>(k, x) r. case field_for names (unquote k) of None \<Rightarrow> Some r | Some n \<Rightarrow> f n x r)
      (concat (map (\<lambda>(k, v). case v of None \<Rightarrow> [] | Some j \<Rightarrow> [(quote_raw k, j)]) fs)) r
     = fold_opt (\<lambda>(k, v) r. case v of None \<Rightarrow> Some r
             | Some j \<Rightarrow> (case field_for names k of None \<Rightarrow> Some r | Some n \<Rightarrow> f n j r)) fs r"
    using assms
    by (induction fs arbitrary: r) (auto simp: unquote_quote_raw split: option.splits)
  then show ?thesis by (simp add: dec_struct_def js_struct_def)
qed

definition compat_names :: "string list" where
  "compat_names = [''schema_version'', ''min_reader_version'']"

lemma compat_field_for:
  "map (field_for compat_names) headerKeys
     = [Some ''schema_version'', Some ''min_reader_version'', None, None, None, None, None, None]"
  by code_simp

lemma compat_fields:
  "field_for compat_names ''schema_version'' = Some ''schema_version''"
  "field_for compat_names ''min_reader_version'' = Some ''min_reader_version''"
  "field_for compat_names ''repo_id'' = None" "field_for compat_names ''repo_format'' = None"
  "field_for compat_names ''manifest_version'' = None" "field_for compat_names ''latest_tx'' = None"
  "field_for compat_names ''created_at'' = None" "field_for compat_names ''updated_at'' = None"
  using compat_field_for by (simp_all only: headerKeys_def list.map list.inject)

text \<open>The sorted header decodes to the header.\<close>

lemma dec_sorted_header:
  assumes "wf_header h"
  shows "dec_header (js_map jesc (header_map h)) = Some h"
    "compatHeader (js_map jesc (header_map h)) = Some (rh_SchemaVersion h, rh_MinReaderVersion h)"
proof -
  have "js_map jesc (header_map h) = js_map id (map (\<lambda>(k, v). (k, jesc v)) (header_map h))"
    by (simp add: js_map_def comp_def split_def)
  then have e: "js_map jesc (header_map h) = js_struct (map (\<lambda>(k, v). (k, Some v)) (header_map h))"
    by (simp only: header_map_jesc [OF assms] js_map_struct id_apply)
  have v: "\<forall>(k, v) \<in> set (map (\<lambda>(k, v). (k, Some v)) (header_map h)). valid_utf8 k \<and> k \<in> set headerKeys"
    using header_map_ok(1,4) [OF assms] by auto
  have m: "unat (rh_ManifestVersion h) < 2 ^ 64"
    using unat_lt_pow [of "rh_ManifestVersion h"] by simp
  show "dec_header (js_map jesc (header_map h)) = Some h"
    unfolding dec_header_def e dec_struct_js_struct [OF v]
    using assms m format_ok(3) [of "rh_RepoFormat h"]
    by (simp add: header_map_def dec_header_field_def wf_header_def zero_header_def)
  show "compatHeader (js_map jesc (header_map h)) = Some (rh_SchemaVersion h, rh_MinReaderVersion h)"
  proof -
    have v': "\<forall>(k, v) \<in> set (map (\<lambda>(k, v). (k, Some v)) (header_map h)). valid_utf8 k"
      using v by auto
    show ?thesis
      unfolding compatHeader_def e compat_names_def [symmetric] dec_struct_fields [OF v']
      using assms by (simp add: header_map_def wf_header_def dec_compat_field_def compat_fields)
  qed
qed

text \<open>The members of a body, as \<open>WrapHeaderInBody\<close> reads it.\<close>

definition body_map :: "string \<Rightarrow> (string, json) gomap option" where
  "body_map body = (if body = [] then Some [] else (case unmarshal_raw_map body of Some (Some m) \<Rightarrow> Some m | _ \<Rightarrow> None))"

abbreviation map_jesc :: "(string, json) gomap \<Rightarrow> (string, json) gomap" where
  "map_jesc m \<equiv> map (\<lambda>(k, v). (k, jesc v)) m"

lemma set_mput_all: "set (mput_all kvs m) \<subseteq> set kvs \<union> set m"
proof -
  have "set (mput k v n) \<subseteq> insert (k, v) (set n)" for k v and n :: "('a::linorder, 'b) gomap"
    by (induction k v n rule: mput.induct) auto
  then show ?thesis
    by (induction kvs arbitrary: m) fastforce+
qed

lemma body_map_ok:
  assumes "body_map body = Some m"
  shows "mok m" "(k, v) \<in> set m \<Longrightarrow> valid_utf8 k \<and> wf_json v"
proof -
  have m: "m = [] \<or> unmarshal_raw_map body = Some (Some m)"
    using assms by (auto simp: body_map_def split: if_splits option.splits)
  then show "mok m" using unmarshal_raw_map_wf by auto
  show "(k, v) \<in> set m \<Longrightarrow> valid_utf8 k \<and> wf_json v"
  proof -
    assume kv: "(k, v) \<in> set m"
    with m have u: "unmarshal_raw_map body = Some (Some m)" by auto
    then obtain ms where "m = mput_all (map (\<lambda>(k, x). (unquote k, x)) ms) []"
      by (auto simp: unmarshal_raw_map_def split: option.splits json.splits)
    with kv set_mput_all [of "map (\<lambda>(k, x). (unquote k, x)) ms" "[]"]
    have "\<exists>r. k = unquote r" by auto
    then show ?thesis
      using unmarshal_raw_map_wf [OF u] kv valid_utf8_unquote by auto
  qed
qed

lemma wrap_spec:
  assumes "wf_header h"
  shows "WrapHeaderInBody h body = Inr raw \<longleftrightarrow>
    (\<exists>m. body_map body = Some m \<and> (\<forall>k \<in> set headerKeys. mget m k = None)
      \<and> raw = print_compact (marshal_raw_map (mput_all (header_map h) m)))"
proof -
  have mh: "marshal_header h = Some (print_compact (js_header h))"
    using assms by (simp add: marshal_header_def wf_header_def time_marshals_def wf_time_def)
  show ?thesis
  proof (cases "body_map body")
    case None
    then show ?thesis
      by (auto simp: WrapHeaderInBody_def body_map_def split: option.splits if_splits)
  next
    case (Some m)
    have e: "WrapHeaderInBody h body = (case List.find (\<lambda>k. mget m k \<noteq> None) headerKeys of
        Some k \<Rightarrow> Inl (EReservedKey k)
      | None \<Rightarrow> Inr (print_compact (marshal_raw_map (mput_all (header_map h) m))))"
      using Some mh unmarshal_header [OF assms]
      by (auto simp: WrapHeaderInBody_def body_map_def split: option.splits if_splits)
    show ?thesis
    proof (cases "\<forall>k \<in> set headerKeys. mget m k = None")
      case True
      then have "List.find (\<lambda>k. mget m k \<noteq> None) headerKeys = None"
        by (simp add: find_None_iff)
      with e Some True show ?thesis by auto
    next
      case False
      then have "List.find (\<lambda>k. mget m k \<noteq> None) headerKeys \<noteq> None"
        by (auto simp: find_None_iff)
      with e Some False show ?thesis by auto
    qed
  qed
qed

lemma mget_map_jesc: "mget (map_jesc m) k = map_option jesc (mget m k)"
  by (induction m) auto

lemma mok_map_jesc: "mok m \<Longrightarrow> mok (map_jesc m)"
  by (simp add: mok_def comp_def split_def)

lemma mok_fold_mdel: "mok m \<Longrightarrow> mok (fold mdel ks m)"
  by (induction ks arbitrary: m) auto

lemma mget_fold_mdel: "mget (fold mdel ks m) k = (if k \<in> set ks then None else mget m k)"
  by (induction ks arbitrary: m) auto

lemma mget_header_map: "k \<in> set headerKeys \<Longrightarrow> mget (header_map h) k = map_of (header_fields h) k"
  by (auto simp: header_fields_def header_map_def headerKeys_def)

lemma pick_fields:
  assumes "\<And>k. k \<in> set headerKeys \<Longrightarrow> mget t k = map_of (header_fields h) k"
  shows "concat (map (\<lambda>k. case mget t k of None \<Rightarrow> [] | Some v \<Rightarrow> [(k, v)]) headerKeys) = header_fields h"
  using assms by (simp add: header_fields_def headerKeys_def)

lemma mget_spliced:
  assumes "mok m" "\<forall>k \<in> set headerKeys. mget m k = None"
  shows "mget (mput_all (header_map h) m) k = (if k \<in> set headerKeys then mget (header_map h) k else mget m k)"
proof -
  have "mget (header_map h) k = None" if "k \<notin> set headerKeys"
    using that by (simp add: header_map_def headerKeys_def)
  then show ?thesis
    using assms mok_distinct [OF mok_header_map, of h]
    by (auto simp: mget_mput_all distinct_map_of_rev map_add_def split: option.splits)
qed

lemma decode_wrap:
  assumes h: "wf_header h" and w: "WrapHeaderInBody h body = Inr raw"
    and gate: "SchemaGate sv (rh_SchemaVersion h) (rh_MinReaderVersion h) = None"
  shows "\<exists>m. body_map body = Some m \<and> decode_root sv raw = Inr (h, print_compact (marshal_raw_map m)) \<and>
     body_map (print_compact (marshal_raw_map m)) = Some (map_jesc m)"
proof -
  obtain m where m: "body_map body = Some m" "\<forall>k \<in> set headerKeys. mget m k = None"
    and raw: "raw = print_compact (marshal_raw_map (mput_all (header_map h) m))"
    using w wrap_spec [OF h] by blast
  note mok = body_map_ok [OF m(1)]
  let ?t = "mput_all (header_map h) m"
  let ?T = "map_jesc ?t"
  have t_ok: "mok ?t" "\<And>k v. (k, v) \<in> set ?t \<Longrightarrow> valid_utf8 k \<and> wf_json v"
    using mok header_map_ok [OF h] set_mput_all [of "header_map h" m] by auto
  have un: "unmarshal_raw_map raw = Some (Some ?T)"
    unfolding raw by (rule unmarshal_marshal_raw_map) (use t_ok in auto)
  have hj: "jesc v = v" if "map_of (header_fields h) k = Some v" for k v
    using that header_fields_ok(3) [OF h] by (blast dest: map_of_SomeD)
  have T: "mget ?T k = map_of (header_fields h) k" if "k \<in> set headerKeys" for k
    using that mget_spliced [OF mok(1) m(2)] hj
    by (simp add: mget_map_jesc mget_header_map) (cases "map_of (header_fields h) k"; auto)
  have pick: "pickHeader ?T = print_compact (marshal_raw_map (header_map h))"
    unfolding pickHeader_def by (subst pick_fields [OF T]) (auto simp: header_map_fields)
  have hw: "wf_json (marshal_raw_map (header_map h))"
    unfolding marshal_raw_map_def using header_map_ok [OF h] by (intro wf_js_map) auto
  have rest: "fold mdel headerKeys ?T = map_jesc m"
  proof (rule mok_ext)
    show "mok (fold mdel headerKeys ?T)" "mok (map_jesc m)"
      using t_ok(1) mok(1) by (simp_all add: mok_fold_mdel mok_map_jesc)
    show "mget (fold mdel headerKeys ?T) = mget (map_jesc m)"
      using m(2) mget_spliced [OF mok(1) m(2)] by (auto simp: fun_eq_iff mget_fold_mdel mget_map_jesc)
  qed
  have idem: "marshal_raw_map (map_jesc m) = marshal_raw_map m"
    by (simp add: marshal_raw_map_def js_map_def comp_def split_def)
  let ?body' = "print_compact (marshal_raw_map m)"
  have "decode_root sv raw = Inr (h, ?body')"
    using un pick json_parse_compact [OF hw] dec_sorted_header [OF h] gate rest idem
    by (simp add: decode_root_def marshal_raw_map_def)
  moreover have "body_map ?body' = Some (map_jesc m)"
  proof -
    have "unmarshal_raw_map ?body' = Some (Some (map_jesc m))"
      by (rule unmarshal_marshal_raw_map) (use mok in auto)
    moreover have "?body' \<noteq> []"
      by (simp add: print_compact_def marshal_raw_map_def js_map_def)
    ultimately show ?thesis by (simp add: body_map_def)
  qed
  ultimately show ?thesis using m(1) by blast
qed

end
