(* ===== verification/Tx_Record.thy ===== *)
theory Tx_Record
  imports Manifest
begin

text \<open>
  Transaction records and commit markers (\<open>internal/repo/tx\<close>): the JSON of a record, its
  create-only write and the zero-byte marker that says its compare-and-swap won. A raw message
  is its bytes, the empty string being nil.
\<close>

record tx_Header =
  th_SchemaVersion :: int
  th_TxID :: string
  th_RepoID :: string
  th_BaseManifestVersion :: "64 word"
  th_BaseManifestObjectVersion :: string
  th_StartedAt :: gotime

record tx_Body =
  tb_Type :: string
  tb_Actor :: string
  tb_RefUpdates :: string
  tb_NewPacks :: string
  tb_Validation :: string
  tb_Extra :: string

definition tx_headerKeys :: "string list" where
  "tx_headerKeys = [''schema_version'', ''tx_id'', ''repo_id'', ''base_manifest_version'',
     ''base_manifest_object_version'', ''started_at'']"

definition bodyKnownKeys :: "string list" where
  "bodyKnownKeys = [''type'', ''actor'', ''ref_updates'', ''new_packs'', ''validation'']"

definition reservedKeySet :: "string list" where
  "reservedKeySet = tx_headerKeys @ bodyKnownKeys"

definition js_tx_header :: "tx_Header \<Rightarrow> json" where
  "js_tx_header h = js_struct
     [(''schema_version'', Some (js_int (th_SchemaVersion h))),
      (''tx_id'', Some (js_string (th_TxID h))),
      (''repo_id'', Some (js_string (th_RepoID h))),
      (''base_manifest_version'', Some (js_nat (unat (th_BaseManifestVersion h)))),
      (''base_manifest_object_version'', Some (js_string (th_BaseManifestObjectVersion h))),
      (''started_at'', Some (js_time (th_StartedAt h)))]"

text \<open>A raw message inside a struct: elided when empty, refused when it is not JSON.\<close>

definition raw_field :: "string \<Rightarrow> json option option" where
  "raw_field raw = (if raw = [] then Some None else map_option (\<lambda>j. Some (jesc j)) (json_parse raw))"

definition js_tx_body :: "tx_Body \<Rightarrow> json option" where
  "js_tx_body b =
     (case (raw_field (tb_RefUpdates b), raw_field (tb_NewPacks b), raw_field (tb_Validation b)) of
        (Some ru, Some np, Some va) \<Rightarrow>
          Some (js_struct
            [(''type'', Some (js_string (tb_Type b))),
             (''actor'', Some (js_string (tb_Actor b))),
             (''ref_updates'', ru), (''new_packs'', np), (''validation'', va)])
      | _ \<Rightarrow> None)"

definition splice_body :: "(string, json) gomap \<Rightarrow> (string, json) gomap \<Rightarrow> repo_error + (string, json) gomap" where
  "splice_body bodyMap topm =
     (case List.find (\<lambda>(k, v). mget topm k \<noteq> None) bodyMap of
        Some (k, v) \<Rightarrow> Inl (EReservedKey k)
      | None \<Rightarrow> Inr (mput_all bodyMap topm))"

definition splice_extra :: "string \<Rightarrow> (string, json) gomap \<Rightarrow> repo_error + (string, json) gomap" where
  "splice_extra extra topm =
     (if length extra > 0 then
        (case unmarshal_raw_map extra of
           None \<Rightarrow> Inl (EParse ''Extra must be a JSON object'')
         | Some None \<Rightarrow> Inl (EParse ''Extra must be a JSON object, got null'')
         | Some (Some extraMap) \<Rightarrow>
             (case List.find (\<lambda>(k, v). k \<in> set reservedKeySet) extraMap of
                Some (k, v) \<Rightarrow> Inl (EReservedKey k)
              | None \<Rightarrow> Inr (mput_all extraMap topm)))
      else Inr topm)"

definition tx_Marshal :: "tx_Header \<Rightarrow> tx_Body \<Rightarrow> repo_error + string" where
  "tx_Marshal h b =
     (if \<not> time_marshals (th_StartedAt h) then Inl (EMarshal ''tx header'')
      else
        (case unmarshal_raw_map (print_compact (js_tx_header h)) of
           Some (Some topm) \<Rightarrow>
             (case js_tx_body b of
                None \<Rightarrow> Inl (EMarshal ''tx body'')
              | Some bj \<Rightarrow>
                  (case unmarshal_raw_map (print_compact bj) of
                     Some (Some bodyMap) \<Rightarrow>
                       res_bind (splice_body bodyMap topm) (\<lambda>top1.
                       res_bind (splice_extra (tb_Extra b) top1) (\<lambda>top2.
                       Inr (print_compact (marshal_raw_map top2))))
                   | _ \<Rightarrow> Inl (EParse ''tx body'')))
         | _ \<Rightarrow> Inl (EParse ''tx header'')))"

definition tx_Write :: "'w ObjectStore \<Rightarrow> string \<Rightarrow> tx_Header \<Rightarrow> tx_Body \<Rightarrow> 'w \<Rightarrow> repo_error option \<times> 'w" where
  "tx_Write S key h b w =
     (case tx_Marshal h b of
        Inl e \<Rightarrow> (Some e, w)
      | Inr bytes \<Rightarrow>
          (case os_PutIfAbsent S key bytes [] w of
             (Inl e, w1) \<Rightarrow> (Some (EStorage e), w1)
           | (Inr v, w1) \<Rightarrow> (None, w1)))"

definition WriteCommitMarker :: "'w ObjectStore \<Rightarrow> string \<Rightarrow> 'w \<Rightarrow> repo_error option \<times> 'w" where
  "WriteCommitMarker S markerKey w =
     (case os_PutIfAbsent S markerKey [] [] w of
        (Inr v, w1) \<Rightarrow> (None, w1)
      | (Inl e, w1) \<Rightarrow> (if e = ErrAlreadyExists then None else Some (EStorage e), w1))"

end
