(* ===== verification/Repo_Engine.thy ===== *)
theory Repo_Engine
  imports Tx_Record
begin

text \<open>
  The repository engine (\<open>internal/repo/repo.go\<close>): \<open>Open\<close>, \<open>Create\<close>, \<open>ReadRoot\<close> and
  \<open>Commit\<close> with its bounded retry. The clock, the ULID source, the context, the timer and the
  log are operations of an environment record over the same world as the store. The callback of
  \<open>Commit\<close> receives the root view and may itself use the world (the production callbacks
  upload objects before they return).
\<close>

section \<open>The environment\<close>

record 'w Env =
  env_store :: "'w ObjectStore"
  env_semver :: semver
  env_now :: "'w \<Rightarrow> gotime \<times> 'w"
  env_ulid :: "'w \<Rightarrow> string \<times> 'w"
  env_ctx :: "'w \<Rightarrow> string option \<times> 'w"
  env_rand :: "int \<Rightarrow> 'w \<Rightarrow> int \<times> 'w"
  env_sleep :: "int \<Rightarrow> 'w \<Rightarrow> string option \<times> 'w"
  env_isprint :: "nat \<Rightarrow> bool"

type_synonym ('w, 'a) repo_op = "'w \<Rightarrow> (repo_error + 'a) \<times> 'w"

section \<open>The quoted form of a string\<close>

text \<open>The \<open>%q\<close> verb (\<open>strconv.Quote\<close>). Which code points past ASCII are printable is a Unicode
  table, an operation of the environment.\<close>

definition hex_byte :: "char \<Rightarrow> string" where
  "hex_byte c = [hex_digit (code c div 16), hex_digit (code c mod 16)]"

definition quote_ascii :: "char \<Rightarrow> string" where
  "quote_ascii c =
     (if c = dq \<or> c = bsl then [bsl, c]
      else if code_in 32 126 c then [c]
      else if c = CHR 0x07 then [bsl, CHR ''a'']
      else if c = CHR 0x08 then [bsl, CHR ''b'']
      else if c = CHR 0x0C then [bsl, CHR ''f'']
      else if c = CHR 0x0A then [bsl, CHR ''n'']
      else if c = CHR 0x0D then [bsl, CHR ''r'']
      else if c = CHR 0x09 then [bsl, CHR ''t'']
      else if c = CHR 0x0B then [bsl, CHR ''v'']
      else bsl # CHR ''x'' # hex_byte c)"

definition quote_rune :: "(nat \<Rightarrow> bool) \<Rightarrow> string \<Rightarrow> string" where
  "quote_rune isprint u =
     (let r = rune_val u in
      if isprint r then u
      else if r < 65536 then u_esc r
      else bsl # CHR ''U'' # drop 2 (u_esc (r div 65536)) @ drop 2 (u_esc (r mod 65536)))"

fun quote_verb :: "(nat \<Rightarrow> bool) \<Rightarrow> string \<Rightarrow> string" where
  "quote_verb isprint [] = []"
| "quote_verb isprint (a # s) =
     (if code a < 128 then quote_ascii a @ quote_verb isprint s
      else if utf8_len (a # s) = 0 then bsl # CHR ''x'' # hex_byte a @ quote_verb isprint s
      else quote_rune isprint (take (utf8_len (a # s)) (a # s)) @ quote_verb isprint (drop (utf8_len (a # s) - 1) s))"

definition go_quote :: "(nat \<Rightarrow> bool) \<Rightarrow> string \<Rightarrow> string" where
  "go_quote isprint s = dq # quote_verb isprint s @ [dq]"

section \<open>Opening and creating\<close>

definition id_repo_error :: "id_error \<Rightarrow> repo_error" where
  "id_repo_error e = (case e of ErrInvalidTenantID \<Rightarrow> EInvalidTenantID | ErrInvalidRepoID \<Rightarrow> EInvalidRepoID)"

definition repo_Open :: "'w Env \<Rightarrow> string \<Rightarrow> string \<Rightarrow> ('w, keys_repo) repo_op" where
  "repo_Open E tenantID repoID w =
     (case NewRepo tenantID repoID of
        Inl e \<Rightarrow> (Inl (id_repo_error e), w)
      | Inr k \<Rightarrow>
          (case ReadRoot (env_semver E) (env_store E) (RootManifestKey k) w of
             (Inl e, w1) \<Rightarrow> (Inl e, w1)
           | (Inr _, w1) \<Rightarrow> (Inr k, w1)))"

record CreateOptions =
  co_DefaultBranch :: string
  co_ObjectFormat :: string
  co_Actor :: string

definition newTxID :: "'w Env \<Rightarrow> 'w \<Rightarrow> string \<times> 'w" where
  "newTxID E w = (case env_ulid E w of (u, w1) \<Rightarrow> (''tx_'' @ u, w1))"

definition now_second :: "'w Env \<Rightarrow> 'w \<Rightarrow> gotime \<times> 'w" where
  "now_second E w = (case env_now E w of (t, w1) \<Rightarrow> (truncate_second t, w1))"

definition initial_body :: "'w Env \<Rightarrow> string \<Rightarrow> string" where
  "initial_body E branch =
     [CHR ''{'', dq] @ ''refs'' @ [dq] @ '':{},'' @ [dq] @ ''packs'' @ [dq] @ '':[],''
     @ [dq] @ ''indexes'' @ [dq] @ '':{},'' @ [dq] @ ''bundles'' @ [dq] @ '':[],''
     @ [dq] @ ''default_branch'' @ [dq] @ '':'' @ go_quote (env_isprint E) branch @ ''}''"

definition defaulted :: "CreateOptions \<Rightarrow> CreateOptions" where
  "defaulted opts = \<lparr>
     co_DefaultBranch = (if co_DefaultBranch opts = [] then ''refs/heads/main'' else co_DefaultBranch opts),
     co_ObjectFormat = (if co_ObjectFormat opts = [] then ''sha1'' else co_ObjectFormat opts),
     co_Actor = (if co_Actor opts = [] then ''unknown'' else co_Actor opts)\<rparr>"

definition create_tx_header :: "string \<Rightarrow> string \<Rightarrow> gotime \<Rightarrow> tx_Header" where
  "create_tx_header txID repoID now =
     \<lparr>th_SchemaVersion = 1, th_TxID = txID, th_RepoID = repoID, th_BaseManifestVersion = 0,
      th_BaseManifestObjectVersion = [], th_StartedAt = now\<rparr>"

definition create_header :: "string \<Rightarrow> string \<Rightarrow> string \<Rightarrow> gotime \<Rightarrow> RootHeader" where
  "create_header txID repoID objectFormat now =
     \<lparr>rh_SchemaVersion = CurrentSchemaVersion, rh_MinReaderVersion = SupportedReaderVersion,
      rh_RepoID = repoID,
      rh_RepoFormat = \<lparr>fm_ObjectFormat = objectFormat, fm_Compatibility = [objectFormat]\<rparr>,
      rh_ManifestVersion = 1, rh_LatestTx = txID, rh_CreatedAt = now, rh_UpdatedAt = now\<rparr>"

definition simple_tx_body :: "string \<Rightarrow> string \<Rightarrow> tx_Body" where
  "simple_tx_body ty actor = \<lparr>tb_Type = ty, tb_Actor = actor, tb_RefUpdates = [], tb_NewPacks = [],
     tb_Validation = [], tb_Extra = []\<rparr>"

definition repo_Create :: "'w Env \<Rightarrow> string \<Rightarrow> string \<Rightarrow> CreateOptions \<Rightarrow> ('w, keys_repo) repo_op" where
  "repo_Create E tenantID repoID opts0 w =
     (case NewRepo tenantID repoID of
        Inl e \<Rightarrow> (Inl (id_repo_error e), w)
      | Inr k \<Rightarrow>
          (let opts = defaulted opts0; S = env_store E in
           if co_ObjectFormat opts \<noteq> ''sha1'' then (Inl (EObjectFormat (co_ObjectFormat opts)), w)
           else
             (case now_second E w of (now, w1) \<Rightarrow>
             (case newTxID E w1 of (txID, w2) \<Rightarrow>
             (case tx_Write S (TxRecordKey k txID) (create_tx_header txID repoID now)
                     (simple_tx_body ''create'' (co_Actor opts)) w2 of
                (Some e, w3) \<Rightarrow> (Inl e, w3)
              | (None, w3) \<Rightarrow>
                  (case WrapHeaderInBody (create_header txID repoID (co_ObjectFormat opts) now)
                          (initial_body E (co_DefaultBranch opts)) of
                     Inl e \<Rightarrow> (Inl e, w3)
                   | Inr rootBytes \<Rightarrow>
                       (case os_PutIfAbsent S (RootManifestKey k) rootBytes [] w3 of
                          (Inl e, w4) \<Rightarrow> (Inl (if e = ErrAlreadyExists then ErrRepoExists else EStorage e), w4)
                        | (Inr _, w4) \<Rightarrow>
                            (case WriteCommitMarker S (CommitMarkerKey k txID) w4 of
                               (_, w5) \<Rightarrow> (Inr k, w5)))))))))"

section \<open>The root view\<close>

record RootView =
  rv_Header :: RootHeader
  rv_Body :: string
  rv_Version :: ObjectVersion
  rv_SizeBytes :: nat

definition repo_ReadRoot :: "'w Env \<Rightarrow> keys_repo \<Rightarrow> ('w, RootView) repo_op" where
  "repo_ReadRoot E k w =
     (case ReadRoot (env_semver E) (env_store E) (RootManifestKey k) w of
        (Inl e, w1) \<Rightarrow> (Inl e, w1)
      | (Inr (header, body, ver), w1) \<Rightarrow>
          (Inr \<lparr>rv_Header = header, rv_Body = body, rv_Version = ver, rv_SizeBytes = length body\<rparr>, w1))"

section \<open>Committing\<close>

record CommitPolicy =
  cp_MaxRetries :: int
  cp_BackoffBase :: int

definition default_policy :: CommitPolicy where
  "default_policy = \<lparr>cp_MaxRetries = 8, cp_BackoffBase = 5000000\<rparr>"

definition maxBackoffShift :: int where "maxBackoffShift = 10"

definition maxInt64 :: int where "maxInt64 = 9223372036854775807"

text \<open>The bound of the jitter: the base times a capped power of two, saturating.\<close>

definition backoff_upper :: "int \<Rightarrow> int \<Rightarrow> int" where
  "backoff_upper base attempt =
     (let shift0 = (if attempt < 0 then 0 else attempt);
          shift = (if shift0 > maxBackoffShift then maxBackoffShift else shift0);
          mult = 2 ^ nat shift in
      if base > 0 \<and> base > maxInt64 div mult then maxInt64 else base * mult)"

definition sleepBackoff :: "'w Env \<Rightarrow> int \<Rightarrow> int \<Rightarrow> 'w \<Rightarrow> string option \<times> 'w" where
  "sleepBackoff E base attempt w =
     (if base \<le> 0 then (None, w)
      else
        (let upper = backoff_upper base attempt in
         if upper \<le> 0 then (None, w)
         else (case env_rand E upper w of (jitter, w1) \<Rightarrow> env_sleep E jitter w1)))"

type_synonym 'w callback = "RootView \<Rightarrow> 'w \<Rightarrow> (repo_error + string) \<times> 'w"

definition next_header :: "RootHeader \<Rightarrow> string \<Rightarrow> gotime \<Rightarrow> RootHeader" where
  "next_header h txID now =
     h\<lparr>rh_ManifestVersion := rh_ManifestVersion h + 1, rh_LatestTx := txID, rh_UpdatedAt := now\<rparr>"

definition commit_tx_header :: "keys_repo \<Rightarrow> string \<Rightarrow> RootView \<Rightarrow> gotime \<Rightarrow> tx_Header" where
  "commit_tx_header k txID view now =
     \<lparr>th_SchemaVersion = 1, th_TxID = txID, th_RepoID = kr_repoID k,
      th_BaseManifestVersion = rh_ManifestVersion (rv_Header view),
      th_BaseManifestObjectVersion = VToken (rv_Version view), th_StartedAt = now\<rparr>"

text \<open>One attempt: \<open>Done\<close> ends the loop with a result; \<open>Conflict\<close> is a lost compare-and-swap.\<close>

datatype attempt_result = Done "repo_error + string" | Conflict string repo_error

definition commit_attempt :: "'w Env \<Rightarrow> keys_repo \<Rightarrow> tx_Body \<Rightarrow> 'w callback \<Rightarrow> 'w \<Rightarrow> attempt_result \<times> 'w" where
  "commit_attempt E k txBody buildBody w0 =
     (case env_ctx E w0 of
        (Some e, w1) \<Rightarrow> (Done (Inl (ECtx e)), w1)
      | (None, w1) \<Rightarrow>
     (case repo_ReadRoot E k w1 of
        (Inl e, w2) \<Rightarrow> (Done (Inl e), w2)
      | (Inr view, w2) \<Rightarrow>
     (case buildBody view w2 of
        (Inl e, w3) \<Rightarrow> (Done (Inl (ErrCallbackFailed e)), w3)
      | (Inr newBody, w3) \<Rightarrow>
     (case env_ctx E w3 of
        (Some e, w4) \<Rightarrow> (Done (Inl (ECtx e)), w4)
      | (None, w4) \<Rightarrow>
     (case newTxID E w4 of (txID, w5) \<Rightarrow>
     (case now_second E w5 of (now1, w6) \<Rightarrow>
     (case tx_Write (env_store E) (TxRecordKey k txID) (commit_tx_header k txID view now1) txBody w6 of
        (Some e, w7) \<Rightarrow> (Done (Inl e), w7)
      | (None, w7) \<Rightarrow>
     (case now_second E w7 of (now2, w8) \<Rightarrow>
     (case WrapHeaderInBody (next_header (rv_Header view) txID now2) newBody of
        Inl e \<Rightarrow> (Done (Inl e), w8)
      | Inr nextBytes \<Rightarrow>
     (case env_ctx E w8 of
        (Some e, w9) \<Rightarrow> (Done (Inl (ECtx e)), w9)
      | (None, w9) \<Rightarrow>
     (case CASRoot (env_store E) (RootManifestKey k) nextBytes (rv_Version view) w9 of
        (Inl e, w10) \<Rightarrow>
          (if e = EStorage ErrVersionMismatch then Conflict txID e else Done (Inl e), w10)
      | (Inr v, w10) \<Rightarrow>
     (case WriteCommitMarker (env_store E) (CommitMarkerKey k txID) w10 of
        (_, w11) \<Rightarrow> (Done (Inr txID), w11)))))))))))))"

fun commit_loop ::
  "'w Env \<Rightarrow> keys_repo \<Rightarrow> tx_Body \<Rightarrow> 'w callback \<Rightarrow> CommitPolicy \<Rightarrow> nat \<Rightarrow> int \<Rightarrow> string list \<Rightarrow> repo_error option \<Rightarrow>
   ('w, string) repo_op" where
  "commit_loop E k txBody buildBody policy 0 attempt orphans lastErr w =
     (Inl (CommitGaveUpError (cp_MaxRetries policy) orphans lastErr), w)"
| "commit_loop E k txBody buildBody policy (Suc n) attempt orphans lastErr w =
     (case commit_attempt E k txBody buildBody w of
        (Done r, w1) \<Rightarrow> (r, w1)
      | (Conflict txID e, w1) \<Rightarrow>
          if attempt < cp_MaxRetries policy \<and> cp_BackoffBase policy > 0 then
            (case sleepBackoff E (cp_BackoffBase policy) attempt w1 of
               (Some c, w2) \<Rightarrow> (Inl (ECtx c), w2)
             | (None, w2) \<Rightarrow>
                 commit_loop E k txBody buildBody policy n (attempt + 1) (orphans @ [txID]) (Some e) w2)
          else commit_loop E k txBody buildBody policy n (attempt + 1) (orphans @ [txID]) (Some e) w1)"

text \<open>The options of a call are functions that overwrite the policy, applied in order; the
  attempts left are \<open>MaxRetries\<close>, raised to at least one.\<close>

definition Commit ::
  "'w Env \<Rightarrow> keys_repo \<Rightarrow> tx_Body \<Rightarrow> 'w callback \<Rightarrow> (CommitPolicy \<Rightarrow> CommitPolicy) list \<Rightarrow> ('w, string) repo_op" where
  "Commit E k txBody buildBody opts w =
     (let policy0 = fold (\<lambda>opt p. opt p) opts default_policy;
          policy = (if cp_MaxRetries policy0 < 1 then policy0\<lparr>cp_MaxRetries := 1\<rparr> else policy0) in
      commit_loop E k txBody buildBody policy (nat (cp_MaxRetries policy)) 1 [] None w)"

section \<open>What the engine does to the bucket\<close>

text \<open>A step that is not a change of the root by this call: one of the other clients, or the
  creation of an object that was not there and is not the root.\<close>

definition put_new :: "(string \<Rightarrow> ObjectVersion \<Rightarrow> bool) \<Rightarrow> string \<Rightarrow> bucket \<Rightarrow> bucket \<Rightarrow> bool" where
  "put_new vers root b b' \<longleftrightarrow> (\<exists>x c v. x \<noteq> root \<and> vers c v \<and> b x = None \<and> b' = b(x \<mapsto> (c, v)))"

definition hist :: "(string \<Rightarrow> ObjectVersion \<Rightarrow> bool) \<Rightarrow> (bucket \<Rightarrow> bucket \<Rightarrow> bool) \<Rightarrow> string \<Rightarrow> bucket \<Rightarrow> bucket \<Rightarrow> bool" where
  "hist vers rely root = (\<lambda>b b'. rely b b' \<or> put_new vers root b b')\<^sup>*\<^sup>*"

text \<open>A commit took effect: the root was read at one instant, the callback built the new body from
  what was read, the transaction record was created after that, and at a later instant the root,
  which then carried the version read, was replaced by the successor of the root read. \<open>built\<close>
  relates what the callback is given, the bucket it starts from, the body it returns and the
  bucket it leaves.\<close>

definition committed ::
  "semver \<Rightarrow> keys_repo \<Rightarrow> (string \<Rightarrow> ObjectVersion \<Rightarrow> bool) \<Rightarrow> (bucket \<Rightarrow> bucket \<Rightarrow> bool) \<Rightarrow>
   (RootView \<Rightarrow> bucket \<Rightarrow> string \<Rightarrow> bucket \<Rightarrow> bool) \<Rightarrow> string \<Rightarrow> bucket \<Rightarrow> bucket \<Rightarrow> bool" where
  "committed sv k vers rely built tx b b' \<longleftrightarrow>
     (\<exists>b1 c1 rv bc newBody bf bt rec tv b2 c2 now nxt v'.
        hist vers rely (RootManifestKey k) b b1 \<and>
        b1 (RootManifestKey k) = Some (c1, rv_Version rv) \<and> decode_root sv c1 = Inr (rv_Header rv, rv_Body rv) \<and>
        hist vers rely (RootManifestKey k) b1 bc \<and> built rv bc newBody bf \<and>
        hist vers rely (RootManifestKey k) bc bf \<and>
        hist vers rely (RootManifestKey k) bf bt \<and> bt (TxRecordKey k tx) = None \<and> vers rec tv \<and>
        hist vers rely (RootManifestKey k) (bt(TxRecordKey k tx \<mapsto> (rec, tv))) b2 \<and>
        b2 (RootManifestKey k) = Some (c2, rv_Version rv) \<and>
        WrapHeaderInBody (next_header (rv_Header rv) tx now) newBody = Inr nxt \<and> vers nxt v' \<and>
        hist vers rely (RootManifestKey k) (b2(RootManifestKey k \<mapsto> (nxt, v'))) b')"

lemma hist_refl [simp]: "hist vers rely root b b"
  by (simp add: hist_def)

lemma hist_trans: "hist vers rely root b b' \<Longrightarrow> hist vers rely root b' b'' \<Longrightarrow> hist vers rely root b b''"
  unfolding hist_def by (rule rtranclp_trans)

lemma hist_rely: "rely b b' \<Longrightarrow> hist vers rely root b b'"
  unfolding hist_def by (rule r_into_rtranclp) simp

lemma hist_put: "x \<noteq> root \<Longrightarrow> vers c v \<Longrightarrow> b x = None \<Longrightarrow> hist vers rely root b (b(x \<mapsto> (c, v)))"
  unfolding hist_def by (rule r_into_rtranclp) (auto simp: put_new_def)

locale repo_env = object_store "env_store E" view good vers rely
  for E :: "'w Env" and view :: "'w \<Rightarrow> bucket" and good :: "'w \<Rightarrow> bool" 
    and vers :: "string \<Rightarrow> ObjectVersion \<Rightarrow> bool" and rely :: "bucket \<Rightarrow> bucket \<Rightarrow> bool" +
  assumes now_law: "good w \<Longrightarrow> env_now E w = (t, w') \<Longrightarrow> good w' \<and> rely (view w) (view w')"
    and ulid_law: "good w \<Longrightarrow> env_ulid E w = (u, w') \<Longrightarrow> good w' \<and> rely (view w) (view w')"
    and ctx_law: "good w \<Longrightarrow> env_ctx E w = (ce, w') \<Longrightarrow> good w' \<and> rely (view w) (view w')"
    and rand_law: "good w \<Longrightarrow> env_rand E n w = (i, w') \<Longrightarrow> good w' \<and> rely (view w) (view w')"
    and sleep_law: "good w \<Longrightarrow> env_sleep E n w = (ce, w') \<Longrightarrow> good w' \<and> rely (view w) (view w')"
begin

definition callback_ok :: "keys_repo \<Rightarrow> 'w callback \<Rightarrow> bool" where
  "callback_ok k f \<longleftrightarrow> (\<forall>rv w r w'. good w \<longrightarrow> f rv w = (r, w') \<longrightarrow>
     good w' \<and> hist vers rely (RootManifestKey k) (view w) (view w'))"

abbreviation H :: "keys_repo \<Rightarrow> 'w \<Rightarrow> 'w \<Rightarrow> bool" where
  "H k w w' \<equiv> good w' \<and> hist vers rely (RootManifestKey k) (view w) (view w')"

lemma H_trans: "H k w w1 \<Longrightarrow> H k w1 w2 \<Longrightarrow> H k w w2"
  by (auto intro: hist_trans)

lemma rely_H: "good w' \<and> rely (view w) (view w') \<Longrightarrow> H k w w'"
  by (auto intro: hist_rely)

lemma now_H: "good w \<Longrightarrow> now_second E w = (t, w') \<Longrightarrow> H k w w'"
  by (rule rely_H) (auto simp: now_second_def dest: now_law split: prod.splits)

lemma ulid_H: "good w \<Longrightarrow> newTxID E w = (t, w') \<Longrightarrow> H k w w'"
  by (rule rely_H) (auto simp: newTxID_def dest: ulid_law split: prod.splits)

lemma ctx_H: "good w \<Longrightarrow> env_ctx E w = (t, w') \<Longrightarrow> H k w w'"
  by (rule rely_H) (rule ctx_law)

lemma backoff_H:
  assumes "good w" "sleepBackoff E base a w = (t, w')"
  shows "H k w w'"
proof (cases "base \<le> 0 \<or> backoff_upper base a \<le> 0")
  case True
  with assms show ?thesis by (auto simp: sleepBackoff_def Let_def split: if_splits)
next
  case False
  obtain j w1 where j: "env_rand E (backoff_upper base a) w = (j, w1)" by fastforce
  with False assms(2) have "env_sleep E j w1 = (t, w')"
    by (simp add: sleepBackoff_def Let_def)
  with rand_law [OF assms(1) j] show ?thesis
    by (meson rely_H sleep_law rely_trans)
qed

lemma put_H:
  assumes "good w" "os_PutIfAbsent (env_store E) x c ct w = (r, w')" "x \<noteq> RootManifestKey k"
  shows "H k w w'"
proof -
  obtain b b' where b: "rely (view w) b" "put_post vers b x c r b'" "rely b' (view w')" and g: "good w'"
    using put_law [OF assms(1,2)] by blast
  have "hist vers rely (RootManifestKey k) b b'"
    using b(2) assms(3) by (auto simp: put_post_def intro: hist_put split: sum.splits)
  then show ?thesis
    using b g by (meson hist_rely hist_trans)
qed

lemma marker_H:
  assumes "good w" "WriteCommitMarker (env_store E) (CommitMarkerKey k t) w = (r, w')"
  shows "H k w w'"
proof -
  obtain q where "os_PutIfAbsent (env_store E) (CommitMarkerKey k t) [] [] w = (q, w')"
    using assms(2) by (auto simp: WriteCommitMarker_def split: prod.splits sum.splits)
  with assms(1) show ?thesis by (rule put_H) simp
qed

lemma tx_Write_spec:
  assumes "good w" "tx_Write (env_store E) (TxRecordKey k t) h tb w = (e, w')"
  shows "H k w w'"
    and "e = None \<Longrightarrow> \<exists>bt rec tv. hist vers rely (RootManifestKey k) (view w) bt \<and> bt (TxRecordKey k t) = None \<and> vers rec tv
           \<and> hist vers rely (RootManifestKey k) (bt(TxRecordKey k t \<mapsto> (rec, tv))) (view w')"
proof -
  show "H k w w'"
  proof (cases "tx_Marshal h tb")
    case (Inl x)
    with assms show ?thesis by (simp add: tx_Write_def)
  next
    case (Inr c)
    with assms(2) obtain q where "os_PutIfAbsent (env_store E) (TxRecordKey k t) c [] w = (q, w')"
      by (auto simp: tx_Write_def split: prod.splits sum.splits)
    with assms(1) show ?thesis by (rule put_H) simp
  qed
  assume "e = None"
  then obtain c v where p: "os_PutIfAbsent (env_store E) (TxRecordKey k t) c [] w = (Inr v, w')"
    using assms(2) by (auto simp: tx_Write_def split: prod.splits sum.splits)
  then obtain b b' where "rely (view w) b" "put_post vers b (TxRecordKey k t) c (Inr v) b'" "rely b' (view w')"
    using put_law [OF assms(1) p] by blast
  then show "\<exists>bt rec tv. hist vers rely (RootManifestKey k) (view w) bt \<and> bt (TxRecordKey k t) = None \<and> vers rec tv
           \<and> hist vers rely (RootManifestKey k) (bt(TxRecordKey k t \<mapsto> (rec, tv))) (view w')"
    by (auto simp: put_post_def intro: hist_rely)
qed

lemma ReadRoot_spec:
  assumes "good w" "repo_ReadRoot E k w = (r, w')"
  shows "H k w w'"
    and "r = Inr rv \<Longrightarrow> \<exists>b c. hist vers rely (RootManifestKey k) (view w) b \<and> hist vers rely (RootManifestKey k) b (view w')
          \<and> b (RootManifestKey k) = Some (c, rv_Version rv)
          \<and> decode_root (env_semver E) c = Inr (rv_Header rv, rv_Body rv)"
proof -
  obtain g where g: "os_Get (env_store E) (RootManifestKey k) None w = (g, w')"
    using assms(2) by (auto simp: repo_ReadRoot_def ReadRoot_def split: prod.splits sum.splits if_splits)
  obtain b where b: "good w'" "rely (view w) b" "rely b (view w')" "get_post b (RootManifestKey k) g"
    using get_law [OF assms(1) g] by blast
  show "H k w w'"
    using b by (meson rely_H rely_trans)
  assume "r = Inr rv"
  with assms(2) g obtain obj where "g = Inr obj" "\<not> obj_ReadErr obj"
     "decode_root (env_semver E) (obj_Body obj) = Inr (rv_Header rv, rv_Body rv)"
     "rv_Version rv = md_Version (obj_Metadata obj)"
    by (auto simp: repo_ReadRoot_def ReadRoot_def split: sum.splits if_splits prod.splits)
  with b show "\<exists>b c. hist vers rely (RootManifestKey k) (view w) b \<and> hist vers rely (RootManifestKey k) b (view w')
          \<and> b (RootManifestKey k) = Some (c, rv_Version rv)
          \<and> decode_root (env_semver E) c = Inr (rv_Header rv, rv_Body rv)"
    by (intro exI [of _ b] exI [of _ "obj_Body obj"]) (auto simp: get_post_def intro: hist_rely)
qed

lemma CASRoot_spec:
  assumes "good w" "CASRoot (env_store E) (RootManifestKey k) c v w = (r, w')"
  shows "good w'"
    and "r = Inl (EStorage ErrVersionMismatch) \<Longrightarrow> H k w w'"
    and "H k w w' \<or> (\<exists>b c0 v'. hist vers rely (RootManifestKey k) (view w) b \<and> b (RootManifestKey k) = Some (c0, v)
           \<and> vers c v' \<and> hist vers rely (RootManifestKey k) (b(RootManifestKey k \<mapsto> (c, v'))) (view w'))"
    and "r = Inr nv \<Longrightarrow> \<exists>b c0 v'. hist vers rely (RootManifestKey k) (view w) b \<and> b (RootManifestKey k) = Some (c0, v)
           \<and> vers c v' \<and> hist vers rely (RootManifestKey k) (b(RootManifestKey k \<mapsto> (c, v'))) (view w')"
    and "r = Inl e \<Longrightarrow> \<exists>x. e = EStorage x"
proof -
  obtain q where q: "os_PutIfVersionMatches (env_store E) (RootManifestKey k) v c [] w = (q, w')"
      "r = (case q of Inl e \<Rightarrow> Inl (EStorage e) | Inr nv \<Rightarrow> Inr nv)"
    using assms(2) by (auto simp: CASRoot_def split: prod.splits sum.splits)
  obtain b b' where b: "good w'" "rely (view w) b" "cas_post vers b (RootManifestKey k) v c q b'" "rely b' (view w')"
    using cas_law [OF assms(1) q(1)] by blast
  have h: "hist vers rely (RootManifestKey k) (view w) b" "hist vers rely (RootManifestKey k) b' (view w')"
    using b(2,4) by (simp_all add: hist_rely)
  show "good w'" by (rule b(1))
  show "r = Inl (EStorage ErrVersionMismatch) \<Longrightarrow> H k w w'"
    using q(2) b h by (auto simp: cas_post_def intro: hist_trans split: sum.splits)
  show "H k w w' \<or> (\<exists>b c0 v'. hist vers rely (RootManifestKey k) (view w) b \<and> b (RootManifestKey k) = Some (c0, v)
           \<and> vers c v' \<and> hist vers rely (RootManifestKey k) (b(RootManifestKey k \<mapsto> (c, v'))) (view w'))"
    using b h by (fastforce simp: cas_post_def intro: hist_trans split: sum.splits)
  show "r = Inr nv \<Longrightarrow> \<exists>b c0 v'. hist vers rely (RootManifestKey k) (view w) b \<and> b (RootManifestKey k) = Some (c0, v)
           \<and> vers c v' \<and> hist vers rely (RootManifestKey k) (b(RootManifestKey k \<mapsto> (c, v'))) (view w')"
    using q(2) b h by (fastforce simp: cas_post_def split: sum.splits)
  show "r = Inl e \<Longrightarrow> \<exists>x. e = EStorage x"
    using q(2) by (auto split: sum.splits)
qed

text \<open>One attempt.\<close>

text \<open>The callback, run in a good world.\<close>

definition ran :: "'w callback \<Rightarrow> RootView \<Rightarrow> bucket \<Rightarrow> string \<Rightarrow> bucket \<Rightarrow> bool" where
  "ran f rv b newBody b' \<longleftrightarrow> (\<exists>w w'. good w \<and> good w' \<and> view w = b \<and> f rv w = (Inr newBody, w') \<and> view w' = b')"

definition attempt_post :: "keys_repo \<Rightarrow> 'w callback \<Rightarrow> attempt_result \<Rightarrow> 'w \<Rightarrow> 'w \<Rightarrow> bool" where
  "attempt_post k f res w w' \<longleftrightarrow> good w' \<and> (case res of
     Done (Inr tx) \<Rightarrow> committed (env_semver E) k vers rely (ran f) tx (view w) (view w')
   | Done (Inl e) \<Rightarrow> hist vers rely (RootManifestKey k) (view w) (view w')
       \<or> (\<exists>x tx. e = EStorage x \<and> committed (env_semver E) k vers rely (ran f) tx (view w) (view w'))
   | Conflict tx e \<Rightarrow> hist vers rely (RootManifestKey k) (view w) (view w'))"

text \<open>An attempt either fails before it touches the root, or it has read a root, created its
  record and goes on to the compare-and-swap.\<close>

definition at_cas :: "keys_repo \<Rightarrow> 'w callback \<Rightarrow> RootView \<Rightarrow> string \<Rightarrow> string \<Rightarrow> 'w \<Rightarrow> 'w \<Rightarrow> bool" where
  "at_cas k f rv tx nxt w w9 \<longleftrightarrow> good w9 \<and>
     (\<exists>b1 c1 bc newBody bf bt rec tv now.
        hist vers rely (RootManifestKey k) (view w) b1 \<and>
        b1 (RootManifestKey k) = Some (c1, rv_Version rv) \<and>
        decode_root (env_semver E) c1 = Inr (rv_Header rv, rv_Body rv) \<and>
        hist vers rely (RootManifestKey k) b1 bc \<and> ran f rv bc newBody bf \<and>
        hist vers rely (RootManifestKey k) bc bf \<and>
        hist vers rely (RootManifestKey k) bf bt \<and> bt (TxRecordKey k tx) = None \<and> vers rec tv \<and>
        hist vers rely (RootManifestKey k) (bt(TxRecordKey k tx \<mapsto> (rec, tv))) (view w9) \<and>
        WrapHeaderInBody (next_header (rv_Header rv) tx now) newBody = Inr nxt)"

lemma attempt_cases:
  assumes cb: "callback_ok k f" and g0: "good w0" and run: "commit_attempt E k tb f w0 = (res, w')"
  obtains (fail) e where "res = Done (Inl e)" "H k w0 w'"
  | (cas) rv tx nxt w9 r w10 where "H k w0 w9" "at_cas k f rv tx nxt w0 w9"
      "CASRoot (env_store E) (RootManifestKey k) nxt (rv_Version rv) w9 = (r, w10)"
      "(res, w') = (case r of
         Inl e \<Rightarrow> (if e = EStorage ErrVersionMismatch then Conflict tx e else Done (Inl e), w10)
       | Inr v \<Rightarrow> (case WriteCommitMarker (env_store E) (CommitMarkerKey k tx) w10 of (_, w11) \<Rightarrow> (Done (Inr tx), w11)))"
proof -
  obtain e1 w1 where 1: "env_ctx E w0 = (e1, w1)" by fastforce
  have h1: "H k w0 w1" using ctx_H [OF g0 1] .
  obtain r2 w2 where 2: "repo_ReadRoot E k w1 = (r2, w2)" by fastforce
  have h2: "H k w0 w2" using H_trans h1 ReadRoot_spec(1) [OF _ 2] by blast
  consider e where "e1 = Some e" | e where "e1 = None" "r2 = Inl e" | rv where "e1 = None" "r2 = Inr rv"
    by (cases e1; cases r2) auto
  then show thesis
  proof cases
    case 1
    with run \<open>env_ctx E w0 = (e1, w1)\<close> h1 fail show ?thesis by (auto simp: commit_attempt_def)
  next
    case 2
    with run 1 \<open>repo_ReadRoot E k w1 = (r2, w2)\<close> h2 fail show ?thesis by (auto simp: commit_attempt_def)
  next
    case (3 rv)
    note r2 = 3
    obtain r3 w3 where 3: "f rv w2 = (r3, w3)" by fastforce
    have h3: "H k w2 w3" using cb h2 3 by (auto simp: callback_ok_def)
    obtain e4 w4 where 4: "env_ctx E w3 = (e4, w4)" by fastforce
    have h4: "H k w2 w4" using H_trans h3 ctx_H [OF _ 4] by blast
    obtain tx w5 where 5: "newTxID E w4 = (tx, w5)" by fastforce
    have h5: "H k w2 w5" using H_trans h4 ulid_H [OF _ 5] by blast
    obtain now1 w6 where 6: "now_second E w5 = (now1, w6)" by fastforce
    have h6: "H k w2 w6" using H_trans h5 now_H [OF _ 6] by blast
    obtain e7 w7 where 7: "tx_Write (env_store E) (TxRecordKey k tx) (commit_tx_header k tx rv now1) tb w6 = (e7, w7)"
      by fastforce
    have h36: "H k w3 w6"
      using H_trans h3 ctx_H [OF _ 4] ulid_H [OF _ 5] now_H [OF _ 6] h4 h5 by blast
    have h7: "H k w2 w7" using H_trans h6 tx_Write_spec(1) [OF _ 7] by blast
    obtain now2 w8 where 8: "now_second E w7 = (now2, w8)" by fastforce
    have h8: "H k w7 w8" using h7 now_H [OF _ 8] by blast
    obtain e9 w9 where 9: "env_ctx E w8 = (e9, w9)" by fastforce
    have h9: "H k w7 w9" using H_trans h8 ctx_H [OF _ 9] by blast
    have hw: "H k w0 w3" "H k w0 w4" "H k w0 w7" "H k w0 w8" "H k w0 w9"
      using H_trans h2 h3 h4 h7 h8 h9 by blast+
    note eqs = 1 2 3 4 5 6 7 8 9
    show ?thesis
    proof (cases "\<exists>newBody nxt. r3 = Inr newBody \<and> e4 = None \<and> e7 = None \<and>
        WrapHeaderInBody (next_header (rv_Header rv) tx now2) newBody = Inr nxt \<and> e9 = None")
      case False
      with run eqs r2 have "\<exists>e. res = Done (Inl e) \<and> w' \<in> {w3, w4, w7, w8, w9}"
        by (auto simp: commit_attempt_def split: sum.splits option.splits)
      with hw fail show ?thesis by blast
    next
      case True
      then obtain newBody nxt where t: "r3 = Inr newBody" "e4 = None" "e7 = None" "e9 = None"
         "WrapHeaderInBody (next_header (rv_Header rv) tx now2) newBody = Inr nxt" by blast
      obtain r w10 where c: "CASRoot (env_store E) (RootManifestKey k) nxt (rv_Version rv) w9 = (r, w10)" by fastforce
      obtain b1 c1 where b1: "hist vers rely (RootManifestKey k) (view w1) b1" "hist vers rely (RootManifestKey k) b1 (view w2)"
          "b1 (RootManifestKey k) = Some (c1, rv_Version rv)" "decode_root (env_semver E) c1 = Inr (rv_Header rv, rv_Body rv)"
        using ReadRoot_spec(2) [OF _ 2 r2(2)] h1 by blast
      obtain bt rec tv where bt: "hist vers rely (RootManifestKey k) (view w6) bt" "bt (TxRecordKey k tx) = None" "vers rec tv"
          "hist vers rely (RootManifestKey k) (bt(TxRecordKey k tx \<mapsto> (rec, tv))) (view w7)"
        using tx_Write_spec(2) [OF _ 7 t(3)] h6 by blast
      have "at_cas k f rv tx nxt w0 w9"
        unfolding at_cas_def
      proof (intro conjI exI)
        show "good w9" using h9 by simp
        show "hist vers rely (RootManifestKey k) (view w0) b1" using h1 b1(1) by (blast intro: hist_trans)
        show "b1 (RootManifestKey k) = Some (c1, rv_Version rv)" "decode_root (env_semver E) c1 = Inr (rv_Header rv, rv_Body rv)"
          "hist vers rely (RootManifestKey k) b1 (view w2)" by (fact b1)+
        show "ran f rv (view w2) newBody (view w3)" using h2 h3 3 t(1) by (auto simp: ran_def)
        show "hist vers rely (RootManifestKey k) (view w2) (view w3)" using h3 by simp
        show "hist vers rely (RootManifestKey k) (view w3) bt" using h36 bt(1) by (blast intro: hist_trans)
        show "bt (TxRecordKey k tx) = None" "vers rec tv" by (fact bt)+
        show "hist vers rely (RootManifestKey k) (bt(TxRecordKey k tx \<mapsto> (rec, tv))) (view w9)"
          using bt(4) h9 by (blast intro: hist_trans)
        show "WrapHeaderInBody (next_header (rv_Header rv) tx now2) newBody = Inr nxt" by (fact t)
      qed
      moreover have "(res, w') = (case r of
         Inl e \<Rightarrow> (if e = EStorage ErrVersionMismatch then Conflict tx e else Done (Inl e), w10)
       | Inr v \<Rightarrow> (case WriteCommitMarker (env_store E) (CommitMarkerKey k tx) w10 of (_, w11) \<Rightarrow> (Done (Inr tx), w11)))"
        using run eqs r2 t c by (simp add: commit_attempt_def)
      ultimately show ?thesis using cas c hw(5) by blast
    qed
  qed
qed

lemma at_cas_committed:
  assumes "at_cas k f rv tx nxt w w9" "hist vers rely (RootManifestKey k) (view w9) b2"
    "b2 (RootManifestKey k) = Some (c2, rv_Version rv)" "vers nxt v'"
    "hist vers rely (RootManifestKey k) (b2(RootManifestKey k \<mapsto> (nxt, v'))) b'"
  shows "committed (env_semver E) k vers rely (ran f) tx (view w) b'"
proof -
  obtain b1 c1 bc newBody bf bt rec tv now where *:
    "hist vers rely (RootManifestKey k) (view w) b1" "b1 (RootManifestKey k) = Some (c1, rv_Version rv)"
    "decode_root (env_semver E) c1 = Inr (rv_Header rv, rv_Body rv)" "hist vers rely (RootManifestKey k) b1 bc"
    "ran f rv bc newBody bf" "hist vers rely (RootManifestKey k) bc bf" "hist vers rely (RootManifestKey k) bf bt"
    "bt (TxRecordKey k tx) = None" "vers rec tv"
    "hist vers rely (RootManifestKey k) (bt(TxRecordKey k tx \<mapsto> (rec, tv))) (view w9)"
    "WrapHeaderInBody (next_header (rv_Header rv) tx now) newBody = Inr nxt"
    using assms(1) unfolding at_cas_def by blast
  show ?thesis
    unfolding committed_def
    by (intro exI conjI) (rule * hist_trans [OF *(10) assms(2)] assms)+
qed

lemma commit_attempt_spec:
  assumes cb: "callback_ok k f" and g0: "good w0" and run: "commit_attempt E k tb f w0 = (res, w')"
  shows "attempt_post k f res w0 w'"
  using cb g0 run
proof (cases rule: attempt_cases)
  case (fail e)
  then show ?thesis by (simp add: attempt_post_def)
next
  case (cas rv tx nxt w9 r w10)
  have g9: "good w9" using cas(1) by simp
  note C = CASRoot_spec [OF g9 cas(3)]
  show ?thesis
  proof (cases r)
    case (Inl e)
    show ?thesis
    proof (cases "e = EStorage ErrVersionMismatch")
      case True
      with Inl cas C(2) show ?thesis using H_trans by (auto simp: attempt_post_def)
    next
      case False
      obtain x where "e = EStorage x" using C(5) [OF Inl] by blast
      moreover have "H k w0 w10 \<or> committed (env_semver E) k vers rely (ran f) tx (view w0) (view w10)"
        using C(3) at_cas_committed [OF cas(2)] H_trans cas(1) by blast
      ultimately show ?thesis
        using Inl False cas(4) C(1) by (auto simp: attempt_post_def)
    qed
  next
    case (Inr v)
    obtain e w11 where m: "WriteCommitMarker (env_store E) (CommitMarkerKey k tx) w10 = (e, w11)" by fastforce
    have h: "H k w10 w11" using marker_H [OF C(1) m] .
    obtain b c0 v' where b: "hist vers rely (RootManifestKey k) (view w9) b" "b (RootManifestKey k) = Some (c0, rv_Version rv)"
        "vers nxt v'" "hist vers rely (RootManifestKey k) (b(RootManifestKey k \<mapsto> (nxt, v'))) (view w10)"
      using C(4) [OF Inr] by blast
    have "committed (env_semver E) k vers rely (ran f) tx (view w0) (view w11)"
      by (rule at_cas_committed [OF cas(2) b(1,2,3)]) (use b(4) h in \<open>blast intro: hist_trans\<close>)
    with Inr cas(4) m h show ?thesis by (simp add: attempt_post_def)
  qed
qed

lemma committed_hist:
  assumes "hist vers rely (RootManifestKey k) b b'" "committed sv k vers rely P tx b' b''"
  shows "committed sv k vers rely P tx b b''"
proof -
  have "hist vers rely (RootManifestKey k) b b1" if "hist vers rely (RootManifestKey k) b' b1" for b1
    using hist_trans [OF assms(1) that] .
  with assms(2) show ?thesis unfolding committed_def by blast
qed

definition commit_post :: "keys_repo \<Rightarrow> 'w callback \<Rightarrow> repo_error + string \<Rightarrow> 'w \<Rightarrow> 'w \<Rightarrow> bool" where
  "commit_post k f r w w' \<longleftrightarrow> good w' \<and> (case r of
     Inr tx \<Rightarrow> committed (env_semver E) k vers rely (ran f) tx (view w) (view w')
   | Inl e \<Rightarrow> hist vers rely (RootManifestKey k) (view w) (view w')
       \<or> (\<exists>x tx. e = EStorage x \<and> committed (env_semver E) k vers rely (ran f) tx (view w) (view w')))"

lemma commit_post_hist: "H k w w1 \<Longrightarrow> commit_post k f r w1 w' \<Longrightarrow> commit_post k f r w w'"
  unfolding commit_post_def by (auto split: sum.splits intro: hist_trans committed_hist)

lemma commit_loop_spec:
  assumes cb: "callback_ok k f"
  shows "good w \<Longrightarrow> commit_loop E k tb f p n a os le w = (r, w') \<Longrightarrow> commit_post k f r w w'"
proof (induction n arbitrary: a os le w)
  case 0
  then show ?case by (auto simp: commit_post_def)
next
  case (Suc n)
  obtain res w1 where 1: "commit_attempt E k tb f w = (res, w1)" by fastforce
  have post: "attempt_post k f res w w1" by (rule commit_attempt_spec [OF cb Suc.prems(1) 1])
  show ?case
  proof (cases res)
    case (Done q)
    with Suc.prems 1 post show ?thesis
      by (auto simp: attempt_post_def commit_post_def split: sum.splits)
  next
    case (Conflict tx e)
    with post have h: "H k w w1" by (simp add: attempt_post_def)
    obtain c w2 where 2: "sleepBackoff E (cp_BackoffBase p) a w1 = (c, w2)" by fastforce
    have h2: "H k w w2" using H_trans h backoff_H [OF _ 2] by blast
    show ?thesis
    proof (cases "a < cp_MaxRetries p \<and> cp_BackoffBase p > 0")
      case False
      with Suc.prems 1 Conflict have "commit_loop E k tb f p n (a + 1) (os @ [tx]) (Some e) w1 = (r, w')"
        by auto
      with Suc.IH h show ?thesis by (blast intro: commit_post_hist)
    next
      case True
      show ?thesis
      proof (cases c)
        case None
        with True Suc.prems 1 2 Conflict have "commit_loop E k tb f p n (a + 1) (os @ [tx]) (Some e) w2 = (r, w')"
          by simp
        with Suc.IH h2 show ?thesis by (blast intro: commit_post_hist)
      next
        case (Some x)
        with True Suc.prems 1 2 Conflict h2 show ?thesis by (auto simp: commit_post_def)
      qed
    qed
  qed
qed

lemma Commit_spec:
  assumes "callback_ok k f" "good w" "Commit E k tb f opts w = (r, w')"
  shows "commit_post k f r w w'"
  using assms(3) unfolding Commit_def Let_def by (rule commit_loop_spec [OF assms(1,2)])

end

end
