(* ===== verification/Repo_Localfs.thy ===== *)
theory Repo_Localfs
  imports Localfs Repo_Engine
begin

text \<open>
  The repository engine over the file-system store, with other processes at work on the same
  bucket. \<open>process_env\<close> is the environment of one process: its store, and scripted readings of
  its clock, its ULID source, its context and its random source. The other processes act before
  each of our store calls and keep to \<open>discipline\<close>: they may do anything to other keys, and change
  the root only by installing the successor of a root whose version it carries. The engine's own
  commits keep to it as well, so any number of them can run against one bucket.
\<close>

section \<open>The environment of a process\<close>

record process =
  pr_times :: "gotime list"
  pr_ulids :: "string list"
  pr_ctx :: "string option list"
  pr_rand :: "int list"

definition next_of :: "'a \<Rightarrow> 'a list \<Rightarrow> 'a \<times> 'a list" where
  "next_of d xs = (case xs of [] \<Rightarrow> (d, []) | x # xs' \<Rightarrow> (x, xs'))"

definition pop_time :: "process \<Rightarrow> gotime \<times> process" where
  "pop_time p = (case next_of zero_time (pr_times p) of (t, ts) \<Rightarrow> (t, p\<lparr>pr_times := ts\<rparr>))"

definition pop_ulid :: "process \<Rightarrow> string \<times> process" where
  "pop_ulid p = (case next_of [] (pr_ulids p) of (u, us) \<Rightarrow> (u, p\<lparr>pr_ulids := us\<rparr>))"

definition pop_ctx :: "process \<Rightarrow> string option \<times> process" where
  "pop_ctx p = (case next_of None (pr_ctx p) of (c, cs) \<Rightarrow> (c, p\<lparr>pr_ctx := cs\<rparr>))"

definition pop_rand :: "int \<Rightarrow> process \<Rightarrow> int \<times> process" where
  "pop_rand n p = (case next_of 0 (pr_rand p) of (i, is) \<Rightarrow> (i mod n, p\<lparr>pr_rand := is\<rparr>))"

definition on_process :: "(process \<Rightarrow> 'b \<times> process) \<Rightarrow> 'a \<times> process \<Rightarrow> 'b \<times> ('a \<times> process)" where
  "on_process f W = (case f (snd W) of (r, p) \<Rightarrow> (r, (fst W, p)))"

definition process_env :: "semver \<Rightarrow> (nat \<Rightarrow> bool) \<Rightarrow> 'a ObjectStore \<Rightarrow> ('a \<times> process) Env" where
  "process_env sv isprint S = \<lparr>
     env_store = within S, env_semver = sv,
     env_now = on_process pop_time, env_ulid = on_process pop_ulid, env_ctx = on_process pop_ctx,
     env_rand = (\<lambda>n. on_process (pop_rand n)), env_sleep = (\<lambda>_. on_process pop_ctx),
     env_isprint = isprint\<rparr>"

lemma on_process_fst: "on_process f W = (r, W') \<Longrightarrow> fst W' = fst W"
  by (auto simp: on_process_def split: prod.splits)

context object_store
begin

lemma process_repo_env:
  "repo_env (process_env sv isprint S) (view \<circ> fst) (good \<circ> fst) vers rely"
proof -
  have st: "env_store (process_env sv isprint S) = within S" by (simp add: process_env_def)
  show ?thesis
    unfolding repo_env_def repo_env_axioms_def st
    using within_store rely_refl by (auto simp: process_env_def dest!: on_process_fst)
qed

end

section \<open>What every client does to the root\<close>

definition root_step :: "semver \<Rightarrow> string \<Rightarrow> bucket \<Rightarrow> bucket \<Rightarrow> bool" where
  "root_step sv root b b' \<longleftrightarrow> b' root = b root \<or>
     (\<exists>c c1 h body tx now newBody nxt v v'.
        b root = Some (c, v) \<and> sha256_hex c1 = sha256_hex c \<and> decode_root sv c1 = Inr (h, body) \<and>
        WrapHeaderInBody (next_header h tx now) newBody = Inr nxt \<and> b' root = Some (nxt, v'))"

definition content_versioned :: "bucket \<Rightarrow> bool" where
  "content_versioned b \<longleftrightarrow> (\<forall>k c v. b k = Some (c, v) \<longrightarrow> lfs_vers c v)"

definition discipline :: "semver \<Rightarrow> string \<Rightarrow> bucket \<Rightarrow> bucket \<Rightarrow> bool" where
  "discipline sv root b b' \<longleftrightarrow>
     content_versioned b \<longrightarrow> content_versioned b' \<and> (root_step sv root)\<^sup>*\<^sup>* b b'"

lemma discipline_refl: "discipline sv root b b"
  by (simp add: discipline_def)

lemma discipline_trans: "discipline sv root b b' \<Longrightarrow> discipline sv root b' b'' \<Longrightarrow> discipline sv root b b''"
  by (auto simp: discipline_def)

lemma content_versioned_view [simp]: "content_versioned (lfs_view w)"
  by (auto simp: content_versioned_def lfs_view_def lfs_vers_def)

lemma content_versioned_upd:
  "content_versioned b \<Longrightarrow> lfs_vers c v \<Longrightarrow> content_versioned (b(k \<mapsto> (c, v)))"
  by (auto simp: content_versioned_def)

lemma put_new_discipline: "put_new lfs_vers root b b' \<Longrightarrow> discipline sv root b b'"
  by (auto simp: put_new_def discipline_def root_step_def intro!: r_into_rtranclp content_versioned_upd)

lemma hist_discipline: "hist lfs_vers (discipline sv root) root b b' \<Longrightarrow> discipline sv root b b'"
  unfolding hist_def
  by (induction rule: rtranclp_induct) (auto intro: discipline_refl discipline_trans put_new_discipline)

lemma lfs_version_inject [simp]: "lfs_version s = lfs_version t \<longleftrightarrow> s = t"
  by (simp add: lfs_version_def)

lemma committed_discipline:
  assumes "committed sv k lfs_vers (discipline sv (RootManifestKey k)) P tx b b'"
  shows "discipline sv (RootManifestKey k) b b'"
proof -
  let ?R = "RootManifestKey k" and ?T = "TxRecordKey k tx"
  let ?D = "discipline sv ?R"
  obtain b1 c1 rv bc newBody bf bt rec tv b2 c2 now nxt v' where
    c: "hist lfs_vers ?D ?R b b1" "b1 ?R = Some (c1, rv_Version rv)" "decode_root sv c1 = Inr (rv_Header rv, rv_Body rv)"
      "hist lfs_vers ?D ?R b1 bc" "P rv bc newBody bf" "hist lfs_vers ?D ?R bc bf" "hist lfs_vers ?D ?R bf bt"
      "bt ?T = None" "lfs_vers rec tv"
      "hist lfs_vers ?D ?R (bt(?T \<mapsto> (rec, tv))) b2" "b2 ?R = Some (c2, rv_Version rv)"
      "WrapHeaderInBody (next_header (rv_Header rv) tx now) newBody = Inr nxt" "lfs_vers nxt v'"
      "hist lfs_vers ?D ?R (b2(?R \<mapsto> (nxt, v'))) b'"
    using assms unfolding committed_def by blast
  have "hist lfs_vers ?D ?R b1 bt" using c(4,6,7) by (blast intro: hist_trans)
  note c = c(1-3) this c(8-14)
  have d: "?D b b1" "?D b1 bt" "?D (bt(?T \<mapsto> (rec, tv))) b2" "?D (b2(?R \<mapsto> (nxt, v'))) b'"
    using c(1,4,7,11) by (simp_all add: hist_discipline)
  have "?D bt (bt(?T \<mapsto> (rec, tv)))"
    by (rule put_new_discipline, unfold put_new_def, intro exI [of _ ?T] exI [of _ rec] exI [of _ tv]) (simp add: c(5,6))
  with d have to2: "?D b b2" by (blast intro: discipline_trans)
  have "?D b (b2(?R \<mapsto> (nxt, v')))"
    unfolding discipline_def
  proof
    assume cv: "content_versioned b"
    have cv1: "content_versioned b1" and cv2: "content_versioned b2" and st: "(root_step sv ?R)\<^sup>*\<^sup>* b b2"
      using cv d(1) to2 by (simp_all add: discipline_def)
    have "lfs_vers c1 (rv_Version rv)" "lfs_vers c2 (rv_Version rv)"
      using cv1 cv2 c(2,8) unfolding content_versioned_def by blast+
    then have "sha256_hex c1 = sha256_hex c2" by (simp add: lfs_vers_def)
    with c have "root_step sv ?R b2 (b2(?R \<mapsto> (nxt, v')))"
      unfolding root_step_def by (intro disjI2) fastforce
    with st cv2 c(10) show "content_versioned (b2(?R \<mapsto> (nxt, v'))) \<and> (root_step sv ?R)\<^sup>*\<^sup>* b (b2(?R \<mapsto> (nxt, v')))"
      by (auto intro: content_versioned_upd)
  qed
  with d(4) show ?thesis by (blast intro: discipline_trans)
qed

section \<open>Commits on a shared file-system store\<close>

type_synonym bench = "lfs busy_world \<times> process"

definition bench_env :: "semver \<Rightarrow> (nat \<Rightarrow> bool) \<Rightarrow> bench Env" where
  "bench_env sv isprint = process_env sv isprint (busy localfs)"

definition bench_view :: "bench \<Rightarrow> bucket" where
  "bench_view W = lfs_view (fst (fst W))"

definition bench_good :: "semver \<Rightarrow> string \<Rightarrow> bench \<Rightarrow> bool" where
  "bench_good sv root W = busy_good lfs_view lfs_good (discipline sv root) (fst W)"

interpretation busy_lfs: object_store "busy localfs" "lfs_view \<circ> fst"
  "busy_good lfs_view lfs_good (discipline sv root)" lfs_vers "discipline sv root" for sv root
  by (rule lfs.busy_store) (blast intro: discipline_refl discipline_trans)+

interpretation bench: repo_env "bench_env sv isprint" bench_view "bench_good sv root" lfs_vers "discipline sv root"
  for sv isprint root
proof -
  have "bench_view = lfs_view \<circ> fst \<circ> fst"
    "bench_good sv root = busy_good lfs_view lfs_good (discipline sv root) \<circ> fst"
    by (simp_all add: fun_eq_iff bench_view_def bench_good_def)
  then show "repo_env (bench_env sv isprint) bench_view (bench_good sv root) lfs_vers (discipline sv root)"
    unfolding bench_env_def using busy_lfs.process_repo_env [of sv isprint sv root] by (simp add: o_assoc)
qed

text \<open>What a callback may do with the bench: anything other clients may do, and create objects
  that are not the root.\<close>

definition bench_callback :: "semver \<Rightarrow> keys_repo \<Rightarrow> bench callback \<Rightarrow> bool" where
  "bench_callback sv k f \<longleftrightarrow> (\<forall>rv W r W'. bench_good sv (RootManifestKey k) W \<longrightarrow> f rv W = (r, W') \<longrightarrow>
     bench_good sv (RootManifestKey k) W' \<and> discipline sv (RootManifestKey k) (bench_view W) (bench_view W'))"

lemma bench_callback_ok: "bench_callback sv k f \<Longrightarrow> bench.callback_ok sv (RootManifestKey k) k f"
  unfolding bench_callback_def bench.callback_ok_def by (blast intro: hist_rely)

text \<open>One run of a callback on the bench.\<close>

definition bench_ran :: "semver \<Rightarrow> string \<Rightarrow> bench callback \<Rightarrow> RootView \<Rightarrow> bucket \<Rightarrow> string \<Rightarrow> bucket \<Rightarrow> bool" where
  "bench_ran sv root f rv b newBody b' \<longleftrightarrow>
     (\<exists>W W'. bench_good sv root W \<and> bench_good sv root W' \<and> bench_view W = b \<and> f rv W = (Inr newBody, W') \<and> bench_view W' = b')"

lemma bench_ran_eq: "bench.ran sv root f = bench_ran sv root f"
  by (simp add: fun_eq_iff bench.ran_def bench_ran_def)



definition sample_lfs :: lfs where
  "sample_lfs = \<lparr>lf_files = [(''tenants/acme/repos/app/manifest/root.json'', (''{}'', zero_time))], lf_metas = [],
     lf_dirs = [], lf_listGen = 0, lf_listCache = [], lf_closed = False, lf_clock = zero_time,
     lf_faults = [None, Some StRenameContent]\<rparr>"

definition sample_bench :: bench where
  "sample_bench = ((sample_lfs, []), \<lparr>pr_times = [], pr_ulids = [''01''], pr_ctx = [], pr_rand = []\<rparr>)"

definition sample_repo :: keys_repo where
  "sample_repo = \<lparr>kr_tenantID = ''acme'', kr_repoID = ''app'', kr_prefix = ''tenants/acme/repos/app/''\<rparr>"

definition sample_semver :: semver where
  "sample_semver = \<lparr>IsValid = (\<lambda>v. v = ''v0.1.0''), Compare = (\<lambda>a b. 0)\<rparr>"

lemma sample_bench_good: "bench_good sv root sample_bench"
  by (simp add: bench_good_def sample_bench_def busy_good_def lfs_good_def lfs_ok_def coherent_def sample_lfs_def
      mok_def tearing_def)

lemma sample_callback_ok: "bench_callback sv k (\<lambda>rv W. (Inr (rv_Body rv), W))"
  by (auto simp: bench_callback_def discipline_refl)



end
