(* ===== verification/Manifest_Body.thy ===== *)
theory Manifest_Body
  imports Manifest Json_Wf
begin

text \<open>
  The typed body of the root manifest (\<open>internal/repo/manifest/body.go\<close> and \<open>unmarshal.go\<close>): the
  refs, inline or sharded, the packs, the indexes and the bundles of a repository, the check that
  the two ref layouts are never mixed, and the encoder and decoder every reader and writer of a
  root goes through. Go's \<open>int\<close> and \<open>int64\<close> are integers with their range stated where a
  theorem needs it. A nil slice or map and an empty one are both the empty list: the encoder and
  the decoder normalise one to the other.
\<close>

section \<open>The types\<close>

record RefShard =
  rs_Shard :: string
  rs_Key :: string
  rs_Hash :: string
  rs_RefCount :: int

record PackEntry =
  pk_PackID :: string
  pk_PackKey :: string
  pk_IdxKey :: string
  pk_SizeBytes :: int
  pk_ObjectCount :: int
  pk_PackChecksum :: string
  pk_BitmapKey :: string

record IndexRef =
  ir_Key :: string
  ir_Hash :: string
  ir_SizeBytes :: int

record ReachabilityRef =
  rr_BaseManifest :: string
  rr_Deltas :: "IndexRef list"

record Indexes =
  ix_ObjectMap :: "IndexRef option"
  ix_CommitGraph :: "IndexRef option"
  ix_Reachability :: "ReachabilityRef option"

record BundleEntry =
  be_ID :: string
  be_Kind :: string
  be_BundleKey :: string
  be_SidecarKey :: string
  be_BundleHash :: string
  be_Ref :: string
  be_TipOID :: string
  be_CoversManifestVersion :: "64 word"
  be_ByteSize :: int
  be_GeneratedAt :: string

record Body =
  bd_DefaultBranch :: string
  bd_Refs :: "(string, string) gomap"
  bd_RefShards :: "RefShard list"
  bd_RefSharding :: string
  bd_Packs :: "PackEntry list"
  bd_Indexes :: Indexes
  bd_Bundles :: "BundleEntry list"

definition zero_shard :: RefShard where
  "zero_shard = \<lparr>rs_Shard = [], rs_Key = [], rs_Hash = [], rs_RefCount = 0\<rparr>"

definition zero_pack :: PackEntry where
  "zero_pack = \<lparr>pk_PackID = [], pk_PackKey = [], pk_IdxKey = [], pk_SizeBytes = 0, pk_ObjectCount = 0,
     pk_PackChecksum = [], pk_BitmapKey = []\<rparr>"

definition zero_index_ref :: IndexRef where
  "zero_index_ref = \<lparr>ir_Key = [], ir_Hash = [], ir_SizeBytes = 0\<rparr>"

definition zero_reach :: ReachabilityRef where
  "zero_reach = \<lparr>rr_BaseManifest = [], rr_Deltas = []\<rparr>"

definition zero_indexes :: Indexes where
  "zero_indexes = \<lparr>ix_ObjectMap = None, ix_CommitGraph = None, ix_Reachability = None\<rparr>"

definition zero_bundle :: BundleEntry where
  "zero_bundle = \<lparr>be_ID = [], be_Kind = [], be_BundleKey = [], be_SidecarKey = [], be_BundleHash = [],
     be_Ref = [], be_TipOID = [], be_CoversManifestVersion = 0, be_ByteSize = 0, be_GeneratedAt = []\<rparr>"

definition zero_body :: Body where
  "zero_body = \<lparr>bd_DefaultBranch = [], bd_Refs = [], bd_RefShards = [], bd_RefSharding = [],
     bd_Packs = [], bd_Indexes = zero_indexes, bd_Bundles = []\<rparr>"

section \<open>Structural checks\<close>

definition IsSupportedRefSharding :: "string \<Rightarrow> bool" where
  "IsSupportedRefSharding s \<longleftrightarrow> s = ''hash_v1''"

text \<open>\<open>strings.ToLower\<close> on its ASCII letters. Its two callers go on to refuse every string with
  another byte, so what it does to those does not show.\<close>

definition to_lower :: "string \<Rightarrow> string" where
  "to_lower s = map (\<lambda>c. if code_in 65 90 c then char_of (code c + 32) else c) s"

definition isShardID :: "string \<Rightarrow> bool" where
  "isShardID s \<longleftrightarrow>
     (if length s \<noteq> 2 then False
      else if hex_decode s = None then False
      else if s \<noteq> to_lower s then False
      else True)"

definition isShardHash :: "string \<Rightarrow> bool" where
  "isShardHash h \<longleftrightarrow>
     (if \<not> has_prefix h ''sha256-'' then False
      else let rest = drop 7 h in
        if length rest \<noteq> 64 then False
        else if rest \<noteq> to_lower rest then False
        else if hex_decode rest = None then False
        else True)"

text \<open>The loop over the shards, with the previous shard's id (none before the first) and the hashes
  seen so far.\<close>

fun validate_shards :: "string option \<Rightarrow> string list \<Rightarrow> RefShard list \<Rightarrow> repo_error option" where
  "validate_shards prev seen [] = None"
| "validate_shards prev seen (s # ss) =
     (if \<not> isShardID (rs_Shard s) then Some (ErrInvalidManifest ''shard (want 2 lowercase hex)'')
      else if \<not> isShardHash (rs_Hash s) then Some (ErrInvalidManifest ''hash (want sha256-<64hex>)'')
      else if rs_Key s = [] then Some (ErrInvalidManifest ''key is empty'')
      else if rs_RefCount s < 0 then Some (ErrInvalidManifest ''ref_count (must be >= 0)'')
      else if (case prev of None \<Rightarrow> False | Some p \<Rightarrow> rs_Shard s \<le> p) then
        (if prev = Some (rs_Shard s) then Some (ErrInvalidManifest ''shard duplicates the previous entry'')
         else Some (ErrInvalidManifest ''shard is not strictly ascending''))
      else if rs_Hash s \<in> set seen then Some (ErrInvalidManifest ''hash duplicates an earlier shard'')
      else validate_shards (Some (rs_Shard s)) (rs_Hash s # seen) ss)"

definition validateRefShards :: "RefShard list \<Rightarrow> repo_error option" where
  "validateRefShards shards = validate_shards None [] shards"

definition validateBody :: "Body \<Rightarrow> repo_error option" where
  "validateBody b =
     (let hasRefs = bd_Refs b \<noteq> []; hasShards = bd_RefShards b \<noteq> []; hasShardingTag = bd_RefSharding b \<noteq> [] in
      if hasRefs \<and> hasShards then Some (ErrInvalidManifest ''hybrid v1/v2 ref state'')
      else if hasShards then
        (if \<not> hasShardingTag then Some (ErrInvalidManifest ''v2 body has ref_shards but ref_sharding is empty'')
         else if \<not> IsSupportedRefSharding (bd_RefSharding b) then
           Some (ErrInvalidManifest ''unsupported ref_sharding strategy'')
         else validateRefShards (bd_RefShards b))
      else if hasShardingTag then Some (ErrInvalidManifest ''ref_sharding set without ref_shards'')
      else None)"

section \<open>Encoding\<close>

text \<open>The tag \<open>omitempty\<close> on a string.\<close>

definition omit_string :: "string \<Rightarrow> json option" where
  "omit_string s = (if s = [] then None else Some (js_string s))"

definition js_shard :: "RefShard \<Rightarrow> json" where
  "js_shard s = js_struct
     [(''shard'', Some (js_string (rs_Shard s))), (''key'', Some (js_string (rs_Key s))),
      (''hash'', Some (js_string (rs_Hash s))), (''ref_count'', Some (js_int (rs_RefCount s)))]"

definition js_pack :: "PackEntry \<Rightarrow> json" where
  "js_pack p = js_struct
     [(''pack_id'', Some (js_string (pk_PackID p))), (''pack_key'', Some (js_string (pk_PackKey p))),
      (''idx_key'', Some (js_string (pk_IdxKey p))), (''size_bytes'', Some (js_int (pk_SizeBytes p))),
      (''object_count'', Some (js_int (pk_ObjectCount p))),
      (''pack_checksum'', omit_string (pk_PackChecksum p)), (''bitmap_key'', omit_string (pk_BitmapKey p))]"

definition js_index_ref :: "IndexRef \<Rightarrow> json" where
  "js_index_ref r = js_struct
     [(''key'', Some (js_string (ir_Key r))), (''hash'', Some (js_string (ir_Hash r))),
      (''size_bytes'', if ir_SizeBytes r = 0 then None else Some (js_int (ir_SizeBytes r)))]"

definition js_reach :: "ReachabilityRef \<Rightarrow> json" where
  "js_reach r = js_struct
     [(''base_manifest'', Some (js_string (rr_BaseManifest r))),
      (''deltas'', Some (JArr (map js_index_ref (rr_Deltas r))))]"

definition js_indexes :: "Indexes \<Rightarrow> json" where
  "js_indexes x = js_struct
     [(''object_map'', map_option js_index_ref (ix_ObjectMap x)),
      (''commit_graph'', map_option js_index_ref (ix_CommitGraph x)),
      (''reachability'', map_option js_reach (ix_Reachability x))]"

definition js_bundle :: "BundleEntry \<Rightarrow> json" where
  "js_bundle e = js_struct
     [(''id'', Some (js_string (be_ID e))), (''kind'', Some (js_string (be_Kind e))),
      (''bundle_key'', Some (js_string (be_BundleKey e))), (''sidecar_key'', Some (js_string (be_SidecarKey e))),
      (''bundle_hash'', Some (js_string (be_BundleHash e))), (''ref'', Some (js_string (be_Ref e))),
      (''tip_oid'', Some (js_string (be_TipOID e))),
      (''covers_manifest_version'', Some (js_nat (unat (be_CoversManifestVersion e)))),
      (''byte_size'', Some (js_int (be_ByteSize e))), (''generated_at'', Some (js_string (be_GeneratedAt e)))]"

definition body_fields :: "Body \<Rightarrow> (string \<times> json option) list" where
  "body_fields b =
     [(''default_branch'', Some (js_string (bd_DefaultBranch b))),
      (''refs'', if bd_Refs b = [] then None else Some (js_map js_string (bd_Refs b))),
      (''ref_shards'', if bd_RefShards b = [] then None else Some (JArr (map js_shard (bd_RefShards b)))),
      (''ref_sharding'', omit_string (bd_RefSharding b)),
      (''packs'', Some (JArr (map js_pack (bd_Packs b)))),
      (''indexes'', Some (js_indexes (bd_Indexes b))),
      (''bundles'', Some (JArr (map js_bundle (bd_Bundles b))))]"

definition js_body :: "Body \<Rightarrow> json" where
  "js_body b = js_struct (body_fields b)"

definition MarshalBody :: "Body \<Rightarrow> repo_error + string" where
  "MarshalBody b =
     (case validateBody b of
        Some e \<Rightarrow> Inl e
      | None \<Rightarrow> Inr (print_indent (js_body b)))"

section \<open>Decoding\<close>

definition dec_ptr :: "(json \<Rightarrow> 'a \<Rightarrow> 'a option) \<Rightarrow> 'a \<Rightarrow> json \<Rightarrow> 'a option \<Rightarrow> 'a option option" where
  "dec_ptr f zero j old = (case j of
     JNull \<Rightarrow> Some None
   | _ \<Rightarrow> map_option Some (f j (case old of None \<Rightarrow> zero | Some v \<Rightarrow> v)))"

definition dec_shard_field :: "string \<Rightarrow> json \<Rightarrow> RefShard \<Rightarrow> RefShard option" where
  "dec_shard_field n j s =
     (if n = ''shard'' then map_option (\<lambda>x. s\<lparr>rs_Shard := x\<rparr>) (dec_string j (rs_Shard s))
      else if n = ''key'' then map_option (\<lambda>x. s\<lparr>rs_Key := x\<rparr>) (dec_string j (rs_Key s))
      else if n = ''hash'' then map_option (\<lambda>x. s\<lparr>rs_Hash := x\<rparr>) (dec_string j (rs_Hash s))
      else map_option (\<lambda>x. s\<lparr>rs_RefCount := x\<rparr>) (dec_int 64 j (rs_RefCount s)))"

definition dec_shard :: "json \<Rightarrow> RefShard \<Rightarrow> RefShard option" where
  "dec_shard = dec_struct [''shard'', ''key'', ''hash'', ''ref_count''] dec_shard_field"

definition dec_pack_field :: "string \<Rightarrow> json \<Rightarrow> PackEntry \<Rightarrow> PackEntry option" where
  "dec_pack_field n j p =
     (if n = ''pack_id'' then map_option (\<lambda>x. p\<lparr>pk_PackID := x\<rparr>) (dec_string j (pk_PackID p))
      else if n = ''pack_key'' then map_option (\<lambda>x. p\<lparr>pk_PackKey := x\<rparr>) (dec_string j (pk_PackKey p))
      else if n = ''idx_key'' then map_option (\<lambda>x. p\<lparr>pk_IdxKey := x\<rparr>) (dec_string j (pk_IdxKey p))
      else if n = ''size_bytes'' then map_option (\<lambda>x. p\<lparr>pk_SizeBytes := x\<rparr>) (dec_int 64 j (pk_SizeBytes p))
      else if n = ''object_count'' then map_option (\<lambda>x. p\<lparr>pk_ObjectCount := x\<rparr>) (dec_int 64 j (pk_ObjectCount p))
      else if n = ''pack_checksum'' then
        map_option (\<lambda>x. p\<lparr>pk_PackChecksum := x\<rparr>) (dec_string j (pk_PackChecksum p))
      else map_option (\<lambda>x. p\<lparr>pk_BitmapKey := x\<rparr>) (dec_string j (pk_BitmapKey p)))"

definition dec_pack :: "json \<Rightarrow> PackEntry \<Rightarrow> PackEntry option" where
  "dec_pack = dec_struct [''pack_id'', ''pack_key'', ''idx_key'', ''size_bytes'', ''object_count'',
     ''pack_checksum'', ''bitmap_key''] dec_pack_field"

definition dec_index_ref_field :: "string \<Rightarrow> json \<Rightarrow> IndexRef \<Rightarrow> IndexRef option" where
  "dec_index_ref_field n j r =
     (if n = ''key'' then map_option (\<lambda>x. r\<lparr>ir_Key := x\<rparr>) (dec_string j (ir_Key r))
      else if n = ''hash'' then map_option (\<lambda>x. r\<lparr>ir_Hash := x\<rparr>) (dec_string j (ir_Hash r))
      else map_option (\<lambda>x. r\<lparr>ir_SizeBytes := x\<rparr>) (dec_int 64 j (ir_SizeBytes r)))"

definition dec_index_ref :: "json \<Rightarrow> IndexRef \<Rightarrow> IndexRef option" where
  "dec_index_ref = dec_struct [''key'', ''hash'', ''size_bytes''] dec_index_ref_field"

definition dec_reach_field :: "string \<Rightarrow> json \<Rightarrow> ReachabilityRef \<Rightarrow> ReachabilityRef option" where
  "dec_reach_field n j r =
     (if n = ''base_manifest'' then map_option (\<lambda>x. r\<lparr>rr_BaseManifest := x\<rparr>) (dec_string j (rr_BaseManifest r))
      else map_option (\<lambda>x. r\<lparr>rr_Deltas := x\<rparr>) (dec_slice (\<lambda>x. dec_index_ref x zero_index_ref) j))"

definition dec_reach :: "json \<Rightarrow> ReachabilityRef \<Rightarrow> ReachabilityRef option" where
  "dec_reach = dec_struct [''base_manifest'', ''deltas''] dec_reach_field"

definition dec_indexes_field :: "string \<Rightarrow> json \<Rightarrow> Indexes \<Rightarrow> Indexes option" where
  "dec_indexes_field n j x =
     (if n = ''object_map'' then
        map_option (\<lambda>r. x\<lparr>ix_ObjectMap := r\<rparr>) (dec_ptr dec_index_ref zero_index_ref j (ix_ObjectMap x))
      else if n = ''commit_graph'' then
        map_option (\<lambda>r. x\<lparr>ix_CommitGraph := r\<rparr>) (dec_ptr dec_index_ref zero_index_ref j (ix_CommitGraph x))
      else map_option (\<lambda>r. x\<lparr>ix_Reachability := r\<rparr>) (dec_ptr dec_reach zero_reach j (ix_Reachability x)))"

definition dec_indexes :: "json \<Rightarrow> Indexes \<Rightarrow> Indexes option" where
  "dec_indexes = dec_struct [''object_map'', ''commit_graph'', ''reachability''] dec_indexes_field"

definition dec_bundle_field :: "string \<Rightarrow> json \<Rightarrow> BundleEntry \<Rightarrow> BundleEntry option" where
  "dec_bundle_field n j e =
     (if n = ''id'' then map_option (\<lambda>x. e\<lparr>be_ID := x\<rparr>) (dec_string j (be_ID e))
      else if n = ''kind'' then map_option (\<lambda>x. e\<lparr>be_Kind := x\<rparr>) (dec_string j (be_Kind e))
      else if n = ''bundle_key'' then map_option (\<lambda>x. e\<lparr>be_BundleKey := x\<rparr>) (dec_string j (be_BundleKey e))
      else if n = ''sidecar_key'' then map_option (\<lambda>x. e\<lparr>be_SidecarKey := x\<rparr>) (dec_string j (be_SidecarKey e))
      else if n = ''bundle_hash'' then map_option (\<lambda>x. e\<lparr>be_BundleHash := x\<rparr>) (dec_string j (be_BundleHash e))
      else if n = ''ref'' then map_option (\<lambda>x. e\<lparr>be_Ref := x\<rparr>) (dec_string j (be_Ref e))
      else if n = ''tip_oid'' then map_option (\<lambda>x. e\<lparr>be_TipOID := x\<rparr>) (dec_string j (be_TipOID e))
      else if n = ''covers_manifest_version'' then
        map_option (\<lambda>x. e\<lparr>be_CoversManifestVersion := of_nat x\<rparr>) (dec_uint 64 j (unat (be_CoversManifestVersion e)))
      else if n = ''byte_size'' then map_option (\<lambda>x. e\<lparr>be_ByteSize := x\<rparr>) (dec_int 64 j (be_ByteSize e))
      else map_option (\<lambda>x. e\<lparr>be_GeneratedAt := x\<rparr>) (dec_string j (be_GeneratedAt e)))"

definition dec_bundle :: "json \<Rightarrow> BundleEntry \<Rightarrow> BundleEntry option" where
  "dec_bundle = dec_struct [''id'', ''kind'', ''bundle_key'', ''sidecar_key'', ''bundle_hash'', ''ref'', ''tip_oid'',
     ''covers_manifest_version'', ''byte_size'', ''generated_at''] dec_bundle_field"

definition bodyKeys :: "string list" where
  "bodyKeys = [''default_branch'', ''refs'', ''ref_shards'', ''ref_sharding'', ''packs'', ''indexes'', ''bundles'']"

definition dec_body_field :: "string \<Rightarrow> json \<Rightarrow> Body \<Rightarrow> Body option" where
  "dec_body_field n j b =
     (if n = ''default_branch'' then map_option (\<lambda>x. b\<lparr>bd_DefaultBranch := x\<rparr>) (dec_string j (bd_DefaultBranch b))
      else if n = ''refs'' then
        map_option (\<lambda>x. b\<lparr>bd_Refs := x\<rparr>) (dec_map (\<lambda>x. dec_string x []) j (bd_Refs b))
      else if n = ''ref_shards'' then
        map_option (\<lambda>x. b\<lparr>bd_RefShards := x\<rparr>) (dec_slice (\<lambda>x. dec_shard x zero_shard) j)
      else if n = ''ref_sharding'' then map_option (\<lambda>x. b\<lparr>bd_RefSharding := x\<rparr>) (dec_string j (bd_RefSharding b))
      else if n = ''packs'' then
        map_option (\<lambda>x. b\<lparr>bd_Packs := x\<rparr>) (dec_slice (\<lambda>x. dec_pack x zero_pack) j)
      else if n = ''indexes'' then map_option (\<lambda>x. b\<lparr>bd_Indexes := x\<rparr>) (dec_indexes j (bd_Indexes b))
      else map_option (\<lambda>x. b\<lparr>bd_Bundles := x\<rparr>) (dec_slice (\<lambda>x. dec_bundle x zero_bundle) j))"

definition dec_body :: "json \<Rightarrow> Body option" where
  "dec_body j = dec_struct bodyKeys dec_body_field j zero_body"

definition UnmarshalBody :: "string \<Rightarrow> repo_error + Body" where
  "UnmarshalBody raw =
     (case json_parse raw of
        None \<Rightarrow> Inl (ErrInvalidManifest ''unmarshal body'')
      | Some j \<Rightarrow>
          (case dec_body j of
             None \<Rightarrow> Inl (ErrInvalidManifest ''unmarshal body'')
           | Some b \<Rightarrow> (case validateBody b of Some e \<Rightarrow> Inl e | None \<Rightarrow> Inr b)))"

section \<open>Values that survive the wire\<close>

text \<open>Strings have to be valid UTF-8, as the encoder replaces what is not, and numbers in range.\<close>

definition int64 :: "int \<Rightarrow> bool" where
  "int64 i \<longleftrightarrow> - (2 ^ 63) \<le> i \<and> i < 2 ^ 63"

definition wf_shard :: "RefShard \<Rightarrow> bool" where
  "wf_shard s \<longleftrightarrow> valid_utf8 (rs_Shard s) \<and> valid_utf8 (rs_Key s) \<and> valid_utf8 (rs_Hash s) \<and> int64 (rs_RefCount s)"

definition wf_pack :: "PackEntry \<Rightarrow> bool" where
  "wf_pack p \<longleftrightarrow> valid_utf8 (pk_PackID p) \<and> valid_utf8 (pk_PackKey p) \<and> valid_utf8 (pk_IdxKey p) \<and>
     int64 (pk_SizeBytes p) \<and> int64 (pk_ObjectCount p) \<and> valid_utf8 (pk_PackChecksum p) \<and> valid_utf8 (pk_BitmapKey p)"

definition wf_index_ref :: "IndexRef \<Rightarrow> bool" where
  "wf_index_ref r \<longleftrightarrow> valid_utf8 (ir_Key r) \<and> valid_utf8 (ir_Hash r) \<and> int64 (ir_SizeBytes r)"

definition wf_reach :: "ReachabilityRef \<Rightarrow> bool" where
  "wf_reach r \<longleftrightarrow> valid_utf8 (rr_BaseManifest r) \<and> list_all wf_index_ref (rr_Deltas r)"

definition wf_indexes :: "Indexes \<Rightarrow> bool" where
  "wf_indexes x \<longleftrightarrow> pred_option wf_index_ref (ix_ObjectMap x) \<and> pred_option wf_index_ref (ix_CommitGraph x) \<and>
     pred_option wf_reach (ix_Reachability x)"

definition wf_bundle :: "BundleEntry \<Rightarrow> bool" where
  "wf_bundle e \<longleftrightarrow> valid_utf8 (be_ID e) \<and> valid_utf8 (be_Kind e) \<and> valid_utf8 (be_BundleKey e) \<and>
     valid_utf8 (be_SidecarKey e) \<and> valid_utf8 (be_BundleHash e) \<and> valid_utf8 (be_Ref e) \<and> valid_utf8 (be_TipOID e) \<and>
     int64 (be_ByteSize e) \<and> valid_utf8 (be_GeneratedAt e)"

definition wf_body :: "Body \<Rightarrow> bool" where
  "wf_body b \<longleftrightarrow> valid_utf8 (bd_DefaultBranch b) \<and> mok (bd_Refs b) \<and>
     list_all (\<lambda>(k, v). valid_utf8 k \<and> valid_utf8 v) (bd_Refs b) \<and> list_all wf_shard (bd_RefShards b) \<and>
     valid_utf8 (bd_RefSharding b) \<and> list_all wf_pack (bd_Packs b) \<and> wf_indexes (bd_Indexes b) \<and>
     list_all wf_bundle (bd_Bundles b)"

text \<open>The members of an encoded struct, and that encoding a value and decoding it over the zero value
  gives it back.\<close>

definition codec :: "('a \<Rightarrow> json) \<Rightarrow> (json \<Rightarrow> 'a option) \<Rightarrow> 'a \<Rightarrow> bool" where
  "codec g f x \<longleftrightarrow> wf_json (g x) \<and> jesc (g x) = g x \<and> f (g x) = Some x"

lemma codec_slice:
  assumes "\<And>x. x \<in> set xs \<Longrightarrow> codec g f x"
  shows "codec (\<lambda>xs. JArr (map g xs)) (dec_slice f) xs"
  using assms by (auto simp: codec_def intro!: dec_slice_map)

declare valid_utf8.simps(2) [simp del]

lemma ascii_valid: "list_all (\<lambda>c. code c < 128) s \<Longrightarrow> valid_utf8 s"
  by (induction s) (auto intro: valid_utf8_units(2) utf8_unit_ascii)

lemma field_names_valid:
  "list_all valid_utf8 [''shard'', ''key'', ''hash'', ''ref_count'', ''pack_id'', ''pack_key'', ''idx_key'', ''size_bytes'',
     ''object_count'', ''pack_checksum'', ''bitmap_key'', ''base_manifest'', ''deltas'', ''object_map'', ''commit_graph'',
     ''reachability'', ''id'', ''kind'', ''bundle_key'', ''sidecar_key'', ''bundle_hash'', ''ref'', ''tip_oid'',
     ''covers_manifest_version'', ''byte_size'', ''generated_at'', ''default_branch'', ''refs'', ''ref_shards'',
     ''ref_sharding'', ''packs'', ''indexes'', ''bundles'']"
  by (simp add: ascii_valid)

lemmas names_ok = field_names_valid [unfolded list.pred_inject simp_thms]

text \<open>A struct is decoded field by field from its encoding.\<close>

lemma codec_struct:
  assumes "g x = js_struct fs"
    and "\<forall>(k, v) \<in> set fs. valid_utf8 k \<and> k \<in> set names \<and> (\<forall>j. v = Some j \<longrightarrow> wf_json j \<and> jesc j = j)"
    and "fold_opt (\<lambda>(k, v) r. case v of None \<Rightarrow> Some r | Some j \<Rightarrow> f k j r) fs z = Some x"
  shows "codec g (\<lambda>j. dec_struct names f j z) x"
proof -
  have "\<forall>(k, v) \<in> set fs. valid_utf8 k \<and> k \<in> set names" using assms(2) by auto
  then have "dec_struct names f (js_struct fs) z = Some x"
    using assms(3) by (simp add: dec_struct_js_struct)
  moreover have "wf_json (js_struct fs)" by (rule wf_js_struct) (use assms(2) in auto)
  moreover have "jesc (js_struct fs) = js_struct fs" by (rule jesc_js_struct) (use assms(2) in auto)
  ultimately show ?thesis using assms(1) by (simp add: codec_def)
qed

lemma dec_int64: "int64 i \<Longrightarrow> dec_int 64 (js_int i) k = Some i"
  by (simp add: int64_def)

lemma shard_codec: "wf_shard s \<Longrightarrow> codec js_shard (\<lambda>j. dec_shard j zero_shard) s"
  unfolding dec_shard_def
  by (rule codec_struct, rule js_shard_def)
     (auto simp: names_ok wf_shard_def dec_shard_field_def dec_int64 zero_shard_def)

lemma omit_string_ok: "valid_utf8 s \<Longrightarrow> omit_string s = Some j \<Longrightarrow> wf_json j \<and> jesc j = j"
  by (auto simp: omit_string_def split: if_splits)

lemma pack_codec: "wf_pack p \<Longrightarrow> codec js_pack (\<lambda>j. dec_pack j zero_pack) p"
  unfolding dec_pack_def
  by (rule codec_struct, rule js_pack_def)
     (auto simp: names_ok wf_pack_def dec_pack_field_def dec_int64 zero_pack_def omit_string_def)

lemma index_ref_codec: "wf_index_ref r \<Longrightarrow> codec js_index_ref (\<lambda>j. dec_index_ref j zero_index_ref) r"
  unfolding dec_index_ref_def
  by (rule codec_struct, rule js_index_ref_def)
     (auto simp: names_ok wf_index_ref_def dec_index_ref_field_def dec_int64 zero_index_ref_def)

lemma reach_codec:
  assumes "wf_reach r"
  shows "codec js_reach (\<lambda>j. dec_reach j zero_reach) r"
proof -
  have "codec (\<lambda>xs. JArr (map js_index_ref xs)) (dec_slice (\<lambda>x. dec_index_ref x zero_index_ref)) (rr_Deltas r)"
    using assms by (intro codec_slice index_ref_codec) (auto simp: wf_reach_def list_all_iff)
  note d = this
  show ?thesis
    unfolding dec_reach_def
    by (rule codec_struct, rule js_reach_def)
       (use d assms in \<open>auto simp: names_ok wf_reach_def dec_reach_field_def zero_reach_def codec_def\<close>)
qed

lemma dec_ptr_codec:
  assumes "codec g (\<lambda>j. f j zero) x" "\<And>x. g x \<noteq> JNull"
  shows "dec_ptr f zero (g x) None = Some (Some x)"
  using assms by (auto simp: dec_ptr_def codec_def split: json.splits)

lemma struct_not_null: "js_index_ref r \<noteq> JNull" "js_reach q \<noteq> JNull"
  by (simp_all add: js_index_ref_def js_reach_def js_struct_def)

lemma indexes_codec:
  assumes "wf_indexes x"
  shows "codec js_indexes (\<lambda>j. dec_indexes j zero_indexes) x"
proof -
  have i: "wf_index_ref r \<Longrightarrow> wf_json (js_index_ref r) \<and> jesc (js_index_ref r) = js_index_ref r \<and>
      dec_ptr dec_index_ref zero_index_ref (js_index_ref r) None = Some (Some r)" for r
    using index_ref_codec [of r] dec_ptr_codec [where g = js_index_ref and f = dec_index_ref] struct_not_null
    by (auto simp: codec_def)
  have q: "wf_reach r \<Longrightarrow> wf_json (js_reach r) \<and> jesc (js_reach r) = js_reach r \<and>
      dec_ptr dec_reach zero_reach (js_reach r) None = Some (Some r)" for r
    using reach_codec [of r] dec_ptr_codec [where g = js_reach and f = dec_reach] struct_not_null
    by (auto simp: codec_def)
  show ?thesis
    unfolding dec_indexes_def
    by (rule codec_struct, rule js_indexes_def)
       (use assms in \<open>auto simp: names_ok wf_indexes_def dec_indexes_field_def zero_indexes_def i q split: option.splits\<close>)
qed

lemma bundle_codec: "wf_bundle e \<Longrightarrow> codec js_bundle (\<lambda>j. dec_bundle j zero_bundle) e"
  unfolding dec_bundle_def
  by (rule codec_struct, rule js_bundle_def)
     (use unat_lt_pow [of "be_CoversManifestVersion e"] in
       \<open>auto simp: names_ok wf_bundle_def dec_bundle_field_def dec_int64 zero_bundle_def\<close>)

section \<open>Bodies come back\<close>

lemma refs_codec:
  assumes "mok m" "list_all (\<lambda>(k, v). valid_utf8 k \<and> valid_utf8 v) m"
  shows "codec (js_map js_string) (\<lambda>j. dec_map (\<lambda>x. dec_string x []) j []) m"
proof -
  have kv: "\<And>k v. (k, v) \<in> set m \<Longrightarrow> valid_utf8 k \<and> valid_utf8 v" using assms(2) by (auto simp: list_all_iff)
  have "dec_map (\<lambda>x. dec_string x []) (js_map js_string m) [] = Some m"
    by (rule dec_map_js_map [OF assms(1)]) (use kv in auto)
  moreover have "wf_json (js_map js_string m)" by (rule wf_js_map) (use kv in auto)
  moreover have "jesc (js_map js_string m) = js_map js_string m"
    using kv by (auto simp: js_map_def)
  ultimately show ?thesis by (simp add: codec_def)
qed

lemma body_parts:
  assumes "wf_body b"
  shows "codec (js_map js_string) (\<lambda>j. dec_map (\<lambda>x. dec_string x []) j []) (bd_Refs b)"
    "codec (\<lambda>xs. JArr (map js_shard xs)) (dec_slice (\<lambda>x. dec_shard x zero_shard)) (bd_RefShards b)"
    "codec (\<lambda>xs. JArr (map js_pack xs)) (dec_slice (\<lambda>x. dec_pack x zero_pack)) (bd_Packs b)"
    "codec js_indexes (\<lambda>j. dec_indexes j zero_indexes) (bd_Indexes b)"
    "codec (\<lambda>xs. JArr (map js_bundle xs)) (dec_slice (\<lambda>x. dec_bundle x zero_bundle)) (bd_Bundles b)"
    "valid_utf8 (bd_DefaultBranch b)" "valid_utf8 (bd_RefSharding b)"
  using assms unfolding wf_body_def list_all_iff
  by (auto intro!: refs_codec codec_slice shard_codec pack_codec indexes_codec bundle_codec simp: list_all_iff)

text \<open>Each member of an encoded body sets its own field, so the order of the members is free.\<close>

lemma body_fields_ok:
  assumes "wf_body b"
  shows "list_all (\<lambda>(k, v). valid_utf8 k \<and> k \<in> set bodyKeys \<and> pred_option (\<lambda>j. wf_json j \<and> jesc j = j) v) (body_fields b)"
  using body_parts [OF assms] by (simp add: body_fields_def bodyKeys_def names_ok codec_def omit_string_def)

lemma body_codec:
  assumes "wf_body b"
  shows "codec js_body dec_body b"
  unfolding dec_body_def
proof (rule codec_struct, rule js_body_def)
  show "\<forall>(k, v) \<in> set (body_fields b). valid_utf8 k \<and> k \<in> set bodyKeys \<and> (\<forall>j. v = Some j \<longrightarrow> wf_json j \<and> jesc j = j)"
    using body_fields_ok [OF assms] by (fastforce simp: list_all_iff)
  show "fold_opt (\<lambda>(k, v) r. case v of None \<Rightarrow> Some r | Some j \<Rightarrow> dec_body_field k j r) (body_fields b) zero_body = Some b"
    using body_parts [OF assms]
    by (simp add: body_fields_def dec_body_field_def zero_body_def codec_def omit_string_def)
qed

theorem unmarshal_marshal_body:
  assumes "wf_body b" "MarshalBody b = Inr raw"
  shows "UnmarshalBody raw = Inr b"
proof -
  have v: "validateBody b = None" and raw: "raw = print_indent (js_body b)"
    using assms(2) by (auto simp: MarshalBody_def split: option.splits)
  show ?thesis
    using body_codec [OF assms(1)] v json_parse_indent [of "js_body b"]
    by (simp add: UnmarshalBody_def raw codec_def)
qed

text \<open>The members of a body, sorted as a root carries them.\<close>

definition body_members :: "Body \<Rightarrow> (string, json) gomap" where
  "body_members b = mput_all (concat (map (\<lambda>(k, v). case v of None \<Rightarrow> [] | Some j \<Rightarrow> [(k, j)]) (body_fields b))) []"

lemma body_members_sorted:
  "body_members b = concat (map (\<lambda>(k, v). case v of None \<Rightarrow> [] | Some j \<Rightarrow> [(k, j)])
     (map (\<lambda>k. (k, the (map_of (body_fields b) k)))
       [''bundles'', ''default_branch'', ''indexes'', ''packs'', ''ref_sharding'', ''ref_shards'', ''refs'']))"
  by (cases "bd_Refs b = []"; cases "bd_RefShards b = []"; cases "bd_RefSharding b = []")
     (simp_all add: body_members_def body_fields_def omit_string_def)

lemma body_members_ok:
  assumes "wf_body b" "(k, j) \<in> set (body_members b)"
  shows "valid_utf8 k \<and> k \<in> set bodyKeys \<and> wf_json j \<and> jesc j = j"
proof -
  have "(k, Some j) \<in> set (body_fields b)"
    using set_mput_all [of "concat (map (\<lambda>(k, v). case v of None \<Rightarrow> [] | Some j \<Rightarrow> [(k, j)]) (body_fields b))" "[]"] assms(2)
    by (auto simp: body_members_def split: option.splits)
  with body_fields_ok [OF assms(1)] show ?thesis by (auto simp: list_all_iff)
qed

lemma body_map_marshalled:
  assumes "wf_body b" "MarshalBody b = Inr raw"
  shows "body_map raw = Some (body_members b)"
proof -
  have raw: "raw = print_indent (js_body b)"
    using assms(2) by (auto simp: MarshalBody_def split: option.splits)
  have p: "json_parse raw = Some (js_body b)"
    using body_codec [OF assms(1)] json_parse_indent [of "js_body b"] by (simp add: raw codec_def)
  let ?fs = "concat (map (\<lambda>(k, v). case v of None \<Rightarrow> [] | Some j \<Rightarrow> [(k, j)]) (body_fields b))"
  have j: "js_body b = JObj (map (\<lambda>(k, v). (quote_raw k, v)) ?fs)"
    unfolding js_body_def js_struct_def map_concat by (auto intro!: arg_cong [where f = concat] split: option.splits)
  have "\<forall>(k, v) \<in> set ?fs. valid_utf8 k"
    using body_fields_ok [OF assms(1)] by (fastforce simp: list_all_iff split: option.splits)
  then have "map (\<lambda>(k, x). (unquote k, x)) (map (\<lambda>(k, v). (quote_raw k, v)) ?fs) = ?fs"
    by (rule unquote_fields)
  then have "unmarshal_raw_map raw = Some (Some (body_members b))"
    unfolding unmarshal_raw_map_def p j option.case json.case by (simp only: body_members_def)
  moreover have "raw \<noteq> []" by (simp add: raw print_indent_def js_body_def js_struct_def)
  ultimately show ?thesis by (simp add: body_map_def)
qed

lemma js_map_members: "js_map id m = js_struct (map (\<lambda>(k, v). (k, Some v)) m)"
  by (simp add: js_map_struct)

lemma unmarshal_members:
  assumes "wf_body b" "validateBody b = None"
  shows "UnmarshalBody (print_compact (marshal_raw_map (body_members b))) = Inr b"
proof -
  note ok = body_members_ok [OF assms(1)]
  have e: "marshal_raw_map (body_members b) = js_struct (map (\<lambda>(k, v). (k, Some v)) (body_members b))"
    unfolding marshal_raw_map_def js_map_struct using ok by (auto intro!: arg_cong [where f = js_struct])
  have wf: "wf_json (marshal_raw_map (body_members b))"
    unfolding e by (rule wf_js_struct) (use ok in auto)
  have n: "\<forall>(k, v) \<in> set (map (\<lambda>(k, v). (k, Some v)) (body_members b)). valid_utf8 k \<and> k \<in> set bodyKeys"
    using ok by auto
  have "dec_body (marshal_raw_map (body_members b)) = Some b"
    unfolding e dec_body_def dec_struct_js_struct [OF n]
    unfolding body_members_sorted using body_parts [OF assms(1)]
    by (cases "bd_Refs b = []"; cases "bd_RefShards b = []"; cases "bd_RefSharding b = []")
       (simp_all add: body_fields_def dec_body_field_def zero_body_def codec_def omit_string_def)
  with assms(2) json_parse_compact [OF wf] show ?thesis by (simp add: UnmarshalBody_def)
qed


definition sample_header :: RootHeader where
  "sample_header = zero_header\<lparr>rh_SchemaVersion := 2, rh_RepoID := ''app'', rh_ManifestVersion := 7,
     rh_RepoFormat := \<lparr>fm_ObjectFormat = ''sha1'', fm_Compatibility = []\<rparr>, rh_LatestTx := ''tx''\<rparr>"

definition sample_body :: Body where
  "sample_body = zero_body\<lparr>bd_DefaultBranch := ''refs/heads/main'',
     bd_Refs := [(''refs/heads/main'', ''0a'')],
     bd_Packs := [zero_pack\<lparr>pk_PackID := ''p'', pk_SizeBytes := 5\<rparr>],
     bd_Indexes := zero_indexes\<lparr>ix_ObjectMap := Some \<lparr>ir_Key = ''k'', ir_Hash = ''h'', ir_SizeBytes = 3\<rparr>\<rparr>\<rparr>"

lemma sample_root_ok: "wf_header sample_header" "wf_body sample_body" "validateBody sample_body = None"
  by (simp_all add: sample_header_def zero_header_def zero_format_def wf_header_def ascii_valid zero_time_def wf_time_def
      days_in_def sample_body_def zero_body_def wf_body_def zero_pack_def wf_pack_def zero_indexes_def wf_indexes_def
      wf_index_ref_def int64_def validateBody_def)


section \<open>What validation guarantees\<close>

lemma validate_shards_ok:
  "validate_shards prev seen ss = None \<longleftrightarrow>
     list_all (\<lambda>s. isShardID (rs_Shard s) \<and> isShardHash (rs_Hash s) \<and> rs_Key s \<noteq> [] \<and> 0 \<le> rs_RefCount s) ss \<and>
     strictly_ascending (case prev of None \<Rightarrow> map rs_Shard ss | Some p \<Rightarrow> p # map rs_Shard ss) \<and>
     distinct (map rs_Hash ss) \<and> set (map rs_Hash ss) \<inter> set seen = {}"
proof (induction ss arbitrary: prev seen)
  case (Cons s ss)
  show ?case
    using Cons.IH [of "Some (rs_Shard s)" "rs_Hash s # seen"]
    by (cases prev; cases "map rs_Shard ss") (auto simp: not_le)
qed (simp split: option.splits)

text \<open>A body is accepted, by the encoder and by the decoder alike, exactly when it has one ref
  layout: either no shards and no sharding tag, or the supported tag, no inline refs and shards
  with canonical ids in strictly ascending order, distinct canonical hashes, a key and a
  non-negative count each.\<close>

lemma validateBody_exact:
  "validateBody b = None \<longleftrightarrow>
     (bd_RefShards b = [] \<and> bd_RefSharding b = []) \<or>
     (bd_RefShards b \<noteq> [] \<and> bd_Refs b = [] \<and> bd_RefSharding b = ''hash_v1'' \<and>
      strictly_ascending (map rs_Shard (bd_RefShards b)) \<and> distinct (map rs_Hash (bd_RefShards b)) \<and>
      list_all (\<lambda>s. isShardID (rs_Shard s) \<and> isShardHash (rs_Hash s) \<and> rs_Key s \<noteq> [] \<and> 0 \<le> rs_RefCount s)
        (bd_RefShards b))"
  by (auto simp: validateBody_def IsSupportedRefSharding_def validateRefShards_def validate_shards_ok Let_def)

end
