(* ===== verification/Ref_Store.thy ===== *)
theory Ref_Store
  imports Manifest_Body
begin

text \<open>
  The ref store (\<open>internal/repo/refstore\<close>): one interface over the two layouts a root may keep its
  refs in, inline in the body or in content-addressed shard objects of the bucket, chosen by the
  first byte of the hash of the ref's name. A store answers look-ups, lists all refs, and stages a
  set of updates: it computes what a commit has to write and to put into the body. Parallel
  fetches and iterations over Go maps run in an order given by a list of choices.
\<close>

section \<open>Types\<close>

datatype Mode = ModeInline | ModeSharded

definition mode_String :: "Mode \<Rightarrow> string" where
  "mode_String m = (case m of ModeInline \<Rightarrow> ''inline'' | ModeSharded \<Rightarrow> ''sharded'')"

record ShardWrite =
  sw_Shard :: string
  sw_Key :: string
  sw_Hash :: string
  sw_Contents :: string

record Stage =
  sg_Mode :: Mode
  sg_NewInlineRefs :: "(string, string) gomap"
  sg_NewShardObjects :: "ShardWrite list"
  sg_NewRefShards :: "RefShard list"

text \<open>The sentinels, the failures of the calls a store makes, and the run-time panic of an assignment
  into a nil map.\<close>

datatype refstore_error =
    ErrShardCorrupt string
  | ErrLookupNotInStage
  | RSFetch string storage_error
  | RSReadBody string
  | RSParse string
  | RSNilBody
  | RSNilStore
  | RSNilKeys
  | RSUnsupported repo_error
  | RSNilMapAssign

datatype 'w RefStore =
    InlineRefStore "(string, string) gomap"
  | ShardedRefStore "'w ObjectStore" keys_repo "RefShard list"

section \<open>Shard objects\<close>

definition ShardKey :: "string \<Rightarrow> string" where
  "ShardKey refname = hex_encode (take 1 (sha256 (bytes_of_str refname)))"

text \<open>The lines of a shard object; its map is already in the order of \<open>sort.Strings\<close>.\<close>

fun shard_lines :: "(string, string) gomap \<Rightarrow> string" where
  "shard_lines [] = []"
| "shard_lines ((n, oid) # ns) =
     ''  '' @ print_compact (js_string n) @ '': '' @ print_compact (js_string oid)
     @ (if ns \<noteq> [] then '','' else []) @ [CHR 0x0A] @ shard_lines ns"

definition marshalShardContent :: "(string, string) gomap \<Rightarrow> string" where
  "marshalShardContent refs =
     (if refs = [] then ''{}''
      else CHR ''{'' # CHR 0x0A # shard_lines refs @ ''}'')"

definition hashShardContent :: "string \<Rightarrow> string" where
  "hashShardContent b = ''sha256-'' @ sha256_hex b"

definition MarshalAndHash :: "(string, string) gomap \<Rightarrow> string \<times> string" where
  "MarshalAndHash refs = (let b = marshalShardContent refs in (b, hashShardContent b))"

text \<open>\<open>json.Unmarshal\<close> into a nil \<open>map[string]string\<close>: the outer option is the error, the inner one the
  nil map that null leaves.\<close>

definition unmarshal_string_map :: "string \<Rightarrow> (string, string) gomap option option" where
  "unmarshal_string_map raw = (case json_parse raw of
     None \<Rightarrow> None
   | Some j \<Rightarrow> (case dec_map (\<lambda>x. dec_string x []) j [] of
        None \<Rightarrow> None
      | Some m \<Rightarrow> Some (if j = JNull then None else Some m)))"

definition map_get :: "(string, string) gomap option \<Rightarrow> string \<Rightarrow> string option" where
  "map_get m k = (case m of None \<Rightarrow> None | Some n \<Rightarrow> mget n k)"

section \<open>Updates\<close>

definition is_delete :: "string \<Rightarrow> bool" where
  "is_delete oid \<longleftrightarrow> oid = [] \<or> oid = NullOIDHex"

definition apply_update :: "string \<times> string \<Rightarrow> (string, string) gomap \<Rightarrow> (string, string) gomap" where
  "apply_update u m = (if is_delete (snd u) then mdel (fst u) m else mput (fst u) (snd u) m)"

definition apply_updates :: "(string, string) gomap \<Rightarrow> (string, string) gomap \<Rightarrow> (string, string) gomap" where
  "apply_updates us m = fold apply_update us m"

text \<open>The same loop on a map that may be nil, where a deletion does nothing and an assignment panics.\<close>

definition apply_updates_nil :: "(string, string) gomap \<Rightarrow> (string, string) gomap option \<Rightarrow>
    refstore_error + (string, string) gomap" where
  "apply_updates_nil us m = (case m of
     Some n \<Rightarrow> Inr (apply_updates us n)
   | None \<Rightarrow> if list_all (\<lambda>(n, oid). is_delete oid) us then Inr [] else Inl RSNilMapAssign)"

section \<open>The inline store\<close>

definition newInlineRefStore :: "Body \<Rightarrow> 'w RefStore" where
  "newInlineRefStore body = InlineRefStore (bd_Refs body)"

definition inline_Lookup :: "(string, string) gomap \<Rightarrow> string \<Rightarrow> refstore_error + string option" where
  "inline_Lookup refs refname = Inr (mget refs refname)"

definition inline_List :: "(string, string) gomap \<Rightarrow> refstore_error + (string, string) gomap" where
  "inline_List refs = Inr (mput_all refs [])"

definition inline_Stage :: "(string, string) gomap \<Rightarrow> (string, string) gomap \<Rightarrow> refstore_error + Stage" where
  "inline_Stage refs updates =
     Inr \<lparr>sg_Mode = ModeInline, sg_NewInlineRefs = apply_updates updates (mput_all refs []),
          sg_NewShardObjects = [], sg_NewRefShards = []\<rparr>"

section \<open>The sharded store\<close>

definition newShardedRefStore :: "'w ObjectStore \<Rightarrow> keys_repo \<Rightarrow> Body \<Rightarrow> 'w RefStore" where
  "newShardedRefStore S k body = ShardedRefStore S k (bd_RefShards body)"

definition fetchShard :: "'w ObjectStore \<Rightarrow> RefShard \<Rightarrow> 'w \<Rightarrow>
    (refstore_error + (string, string) gomap option) \<times> 'w" where
  "fetchShard S ref w =
     (case os_Get S (rs_Key ref) None w of
        (Inl e, w1) \<Rightarrow> (Inl (RSFetch (rs_Shard ref) e), w1)
      | (Inr obj, w1) \<Rightarrow>
          if obj_ReadErr obj then (Inl (RSReadBody (rs_Shard ref)), w1)
          else if hashShardContent (obj_Body obj) \<noteq> rs_Hash ref then (Inl (ErrShardCorrupt (rs_Shard ref)), w1)
          else (case unmarshal_string_map (obj_Body obj) of
                  None \<Rightarrow> (Inl (RSParse (rs_Shard ref)), w1)
                | Some refs \<Rightarrow> (Inr refs, w1)))"

definition sharded_Lookup :: "'w ObjectStore \<Rightarrow> RefShard list \<Rightarrow> string \<Rightarrow> 'w \<Rightarrow>
    (refstore_error + string option) \<times> 'w" where
  "sharded_Lookup S shards refname w =
     (case List.find (\<lambda>s. rs_Shard s = ShardKey refname) shards of
        None \<Rightarrow> (Inr None, w)
      | Some s \<Rightarrow>
          (case fetchShard S s w of
             (Inl e, w1) \<Rightarrow> (Inl e, w1)
           | (Inr refs, w1) \<Rightarrow> (Inr (map_get refs refname), w1)))"

text \<open>The fetches of \<open>List\<close> in the order they run, each merged into the result; the first error ends
  the group.\<close>

fun fetch_merge :: "'w ObjectStore \<Rightarrow> RefShard list \<Rightarrow> (string, string) gomap \<Rightarrow> 'w \<Rightarrow>
    (refstore_error + (string, string) gomap) \<times> 'w" where
  "fetch_merge S [] out w = (Inr out, w)"
| "fetch_merge S (s # ss) out w =
     (case fetchShard S s w of
        (Inl e, w1) \<Rightarrow> (Inl e, w1)
      | (Inr refs, w1) \<Rightarrow> fetch_merge S ss (mput_all (case refs of None \<Rightarrow> [] | Some m \<Rightarrow> m) out) w1)"

definition sharded_List :: "'w ObjectStore \<Rightarrow> RefShard list \<Rightarrow> nat list \<Rightarrow> 'w \<Rightarrow>
    (refstore_error + (string, string) gomap) \<times> 'w" where
  "sharded_List S shards sched w = fetch_merge S (permute sched shards) [] w"

definition updates_by_shard :: "(string, string) gomap \<Rightarrow> (string, (string, string) gomap) gomap" where
  "updates_by_shard updates = fold (\<lambda>(refname, oid) g.
     let sid = ShardKey refname in
     mput sid (mput refname oid (case mget g sid of None \<Rightarrow> [] | Some m \<Rightarrow> m)) g) updates []"

definition existing_by_shard :: "RefShard list \<Rightarrow> (string, RefShard) gomap" where
  "existing_by_shard shards = mput_all (map (\<lambda>s. (rs_Shard s, s)) shards) []"

fun load_shards :: "'w ObjectStore \<Rightarrow> (string, RefShard) gomap \<Rightarrow> string list \<Rightarrow>
    (string, (string, string) gomap option) gomap \<Rightarrow> 'w \<Rightarrow>
    (refstore_error + (string, (string, string) gomap option) gomap) \<times> 'w" where
  "load_shards S existing [] loaded w = (Inr loaded, w)"
| "load_shards S existing (sid # sids) loaded w =
     (case mget existing sid of
        None \<Rightarrow> load_shards S existing sids (mput sid (Some []) loaded) w
      | Some s \<Rightarrow>
          (case fetchShard S s w of
             (Inl e, w1) \<Rightarrow> (Inl e, w1)
           | (Inr refs, w1) \<Rightarrow> load_shards S existing sids (mput sid refs loaded) w1))"

text \<open>The loop over the changed shards, in ascending order of their ids.\<close>

fun stage_shards :: "keys_repo \<Rightarrow> (string, RefShard) gomap \<Rightarrow> (string, (string, string) gomap option) gomap \<Rightarrow>
    (string, (string, string) gomap) gomap \<Rightarrow> refstore_error + ShardWrite list \<times> RefShard list" where
  "stage_shards k existing loaded [] = Inr ([], [])"
| "stage_shards k existing loaded ((sid, us) # rest) =
     (case apply_updates_nil us (case mget loaded sid of None \<Rightarrow> None | Some m \<Rightarrow> m) of
        Inl e \<Rightarrow> Inl e
      | Inr refs \<Rightarrow>
          if refs = [] then stage_shards k existing loaded rest
          else
            (let contents = marshalShardContent refs;
                 hash = hashShardContent contents;
                 unchanged = (case mget existing sid of None \<Rightarrow> False | Some s \<Rightarrow> rs_Hash s = hash);
                 key = (case mget existing sid of
                          Some s \<Rightarrow> if rs_Hash s = hash then rs_Key s else RefShardKey k hash
                        | None \<Rightarrow> RefShardKey k hash)
             in case stage_shards k existing loaded rest of
                  Inl e \<Rightarrow> Inl e
                | Inr (writes, shards) \<Rightarrow>
                    Inr ((if unchanged then writes
                          else \<lparr>sw_Shard = sid, sw_Key = key, sw_Hash = hash, sw_Contents = contents\<rparr> # writes),
                         \<lparr>rs_Shard = sid, rs_Key = key, rs_Hash = hash, rs_RefCount = int (length refs)\<rparr> # shards)))"

definition sharded_Stage :: "'w ObjectStore \<Rightarrow> keys_repo \<Rightarrow> RefShard list \<Rightarrow> nat list \<Rightarrow> (string, string) gomap \<Rightarrow> 'w \<Rightarrow>
    (refstore_error + Stage) \<times> 'w" where
  "sharded_Stage S k shards sched updates w =
     (if updates = [] then
        (Inr \<lparr>sg_Mode = ModeSharded, sg_NewInlineRefs = [], sg_NewShardObjects = [], sg_NewRefShards = shards\<rparr>, w)
      else
        let by_shard = updates_by_shard updates; existing = existing_by_shard shards in
        (case load_shards S existing (permute sched (map fst by_shard)) [] w of
           (Inl e, w1) \<Rightarrow> (Inl e, w1)
         | (Inr loaded, w1) \<Rightarrow>
             (case stage_shards k existing loaded by_shard of
                Inl e \<Rightarrow> (Inl e, w1)
              | Inr (writes, changed) \<Rightarrow>
                  (Inr \<lparr>sg_Mode = ModeSharded, sg_NewInlineRefs = [], sg_NewShardObjects = writes,
                        sg_NewRefShards = sort_key rs_Shard
                          (changed @ filter (\<lambda>s. mget by_shard (rs_Shard s) = None) shards)\<rparr>, w1))))"

section \<open>The interface\<close>

definition refstore_New :: "'w ObjectStore option \<Rightarrow> keys_repo option \<Rightarrow> Body option \<Rightarrow> refstore_error + 'w RefStore" where
  "refstore_New S k body = (case body of
     None \<Rightarrow> Inl RSNilBody
   | Some b \<Rightarrow>
       if bd_RefShards b = [] then Inr (newInlineRefStore b)
       else if \<not> IsSupportedRefSharding (bd_RefSharding b) then
         Inl (RSUnsupported (ErrInvalidManifest ''ref_sharding is not supported by this build''))
       else (case S of
          None \<Rightarrow> Inl RSNilStore
        | Some S' \<Rightarrow> (case k of None \<Rightarrow> Inl RSNilKeys | Some k' \<Rightarrow> Inr (newShardedRefStore S' k' b))))"

definition rs_Mode :: "'w RefStore \<Rightarrow> Mode" where
  "rs_Mode rs = (case rs of InlineRefStore _ \<Rightarrow> ModeInline | ShardedRefStore _ _ _ \<Rightarrow> ModeSharded)"

definition rs_Lookup :: "'w RefStore \<Rightarrow> string \<Rightarrow> 'w \<Rightarrow> (refstore_error + string option) \<times> 'w" where
  "rs_Lookup rs refname w = (case rs of
     InlineRefStore refs \<Rightarrow> (inline_Lookup refs refname, w)
   | ShardedRefStore S k shards \<Rightarrow> sharded_Lookup S shards refname w)"

definition rs_List :: "'w RefStore \<Rightarrow> nat list \<Rightarrow> 'w \<Rightarrow> (refstore_error + (string, string) gomap) \<times> 'w" where
  "rs_List rs sched w = (case rs of
     InlineRefStore refs \<Rightarrow> (inline_List refs, w)
   | ShardedRefStore S k shards \<Rightarrow> sharded_List S shards sched w)"

definition rs_Stage :: "'w RefStore \<Rightarrow> nat list \<Rightarrow> (string, string) gomap \<Rightarrow> 'w \<Rightarrow> (refstore_error + Stage) \<times> 'w" where
  "rs_Stage rs sched updates w = (case rs of
     InlineRefStore refs \<Rightarrow> (inline_Stage refs updates, w)
   | ShardedRefStore S k shards \<Rightarrow> sharded_Stage S k shards sched updates w)"

definition parseShardWrite :: "ShardWrite \<Rightarrow> refstore_error + (string, string) gomap option" where
  "parseShardWrite w = (case unmarshal_string_map (sw_Contents w) of
     None \<Rightarrow> Inl (RSParse (sw_Key w)) | Some m \<Rightarrow> Inr m)"

definition stage_Lookup :: "Stage \<Rightarrow> string \<Rightarrow> refstore_error + string option" where
  "stage_Lookup s refname =
     (if sg_Mode s = ModeInline then Inr (mget (sg_NewInlineRefs s) refname)
      else (case List.find (\<lambda>w. sw_Shard w = ShardKey refname) (sg_NewShardObjects s) of
        None \<Rightarrow> Inl ErrLookupNotInStage
      | Some w \<Rightarrow> (case parseShardWrite w of Inl e \<Rightarrow> Inl e | Inr refs \<Rightarrow> Inr (map_get refs refname))))"

section \<open>Shard contents come back\<close>

definition wf_refs :: "(string, string) gomap \<Rightarrow> bool" where
  "wf_refs m \<longleftrightarrow> mok m \<and> list_all (\<lambda>(n, oid). valid_utf8 n \<and> valid_utf8 oid) m"

lemma wf_refs_mok [simp]: "wf_refs m \<Longrightarrow> mok m"
  by (simp add: wf_refs_def)

lemma print_string: "jprint nl sep d (js_string s) = print_compact (js_string s)"
  by (simp add: print_compact_def js_string_def)

lemma shard_lines_members:
  "m \<noteq> [] \<Longrightarrow> shard_lines m = ''  '' @ jprint_members (\<lambda>d. CHR 0x0A # replicate (2 * d) (CHR '' '')) '' '' 1
     (map (\<lambda>(n, oid). (quote_raw n, js_string oid)) m) @ [CHR 0x0A]"
proof (induction m)
  case (Cons p m)
  then show ?case
    by (cases p; cases "m = []") (simp_all add: print_string js_string_def print_compact_def numeral_2_eq_2)
qed simp

lemma shard_text: "marshalShardContent m = print_indent (js_map js_string m)"
  by (cases "m = []")
     (simp_all add: marshalShardContent_def print_indent_def js_map_def shard_lines_members numeral_2_eq_2)

lemma shard_roundtrip: "wf_refs m \<Longrightarrow> unmarshal_string_map (marshalShardContent m) = Some (Some m)"
proof -
  assume m: "wf_refs m"
  then have "codec (js_map js_string) (\<lambda>j. dec_map (\<lambda>x. dec_string x []) j []) m"
    by (intro refs_codec) (auto simp: wf_refs_def)
  moreover have "js_map js_string m \<noteq> JNull" by (simp add: js_map_def)
  ultimately show ?thesis
    using json_parse_indent [of "js_map js_string m"]
    by (simp add: unmarshal_string_map_def shard_text codec_def)
qed

section \<open>Splitting a map by shard\<close>

text \<open>The refs of one shard.\<close>

definition part :: "string \<Rightarrow> (string, string) gomap \<Rightarrow> (string, string) gomap" where
  "part sid m = filter (\<lambda>(n, oid). ShardKey n = sid) m"

lemma mget_part: "mget (part sid m) n = (if ShardKey n = sid then mget m n else None)"
  by (induction m) (auto simp: part_def)

lemma mok_filter: "mok m \<Longrightarrow> mok (filter P m)"
proof (induction m)
  case (Cons p m)
  then show ?case by (cases p) (auto simp: mok_Cons)
qed simp

lemma mok_part [simp]: "mok m \<Longrightarrow> mok (part sid m)"
  by (simp add: part_def mok_filter)

lemma wf_refs_part [simp]: "wf_refs m \<Longrightarrow> wf_refs (part sid m)"
  by (auto simp: wf_refs_def part_def mok_filter list_all_iff)

lemma part_empty: "part sid m = [] \<longleftrightarrow> sid \<notin> ShardKey ` set (map fst m)"
  by (force simp: part_def filter_empty_conv)

lemma mok_apply_update [simp]: "mok m \<Longrightarrow> mok (apply_update u m)"
  by (simp add: apply_update_def)

lemma mok_apply_updates [simp]: "mok m \<Longrightarrow> mok (apply_updates us m)"
  unfolding apply_updates_def by (induction us arbitrary: m) auto

text \<open>What a set of updates does to one ref.\<close>

definition update_of :: "(string, string) gomap \<Rightarrow> string \<Rightarrow> string option \<Rightarrow> string option" where
  "update_of us n old = (case mget us n of None \<Rightarrow> old | Some oid \<Rightarrow> if is_delete oid then None else Some oid)"

lemma mget_apply_updates:
  assumes "mok m" "mok us"
  shows "mget (apply_updates us m) n = update_of us n (mget m n)"
  using assms
proof (induction us arbitrary: m)
  case (Cons u us)
  obtain a v where u: "u = (a, v)" by (cases u)
  have "a = n \<Longrightarrow> mget us n = None" using Cons.prems(2) mget_head_None [of a v us] u by simp
  with Cons.IH [of "apply_update u m"] Cons.prems u show ?case
    by (auto simp: apply_updates_def update_of_def apply_update_def mok_Cons split: option.splits)
qed (simp add: apply_updates_def update_of_def)

lemma part_apply_updates:
  assumes "mok m" "mok us"
  shows "apply_updates (part sid us) (part sid m) = part sid (apply_updates us m)"
  using assms by (intro mok_ext) (auto simp: fun_eq_iff mget_apply_updates mget_part update_of_def)

lemma part_untouched:
  assumes "mok m" "mok us" "part sid us = []"
  shows "part sid (apply_updates us m) = part sid m"
  using part_apply_updates [OF assms(1,2), of sid] assms(3) by (simp add: apply_updates_def)

lemma wf_refs_apply_updates:
  assumes "wf_refs m" "wf_refs us"
  shows "wf_refs (apply_updates us m)"
proof -
  have "set (apply_updates us m) \<subseteq> set us \<union> set m"
    unfolding apply_updates_def
  proof (induction us arbitrary: m)
    case (Cons u us)
    have "set (apply_update u m) \<subseteq> insert u (set m)"
      using set_mput_all [of "[u]" m] by (cases u) (auto simp: apply_update_def mdel_def)
    with Cons.IH [of "apply_update u m"] show ?case by auto
  qed simp
  with assms show ?thesis by (auto simp: wf_refs_def list_all_iff)
qed

lemma mget_updates_by_shard:
  assumes "mok us"
  shows "mok (updates_by_shard us)"
    "mget (updates_by_shard us) sid = (if part sid us = [] then None else Some (part sid us))"
proof -
  let ?f = "\<lambda>(n, oid) g. let sid = ShardKey n in mput sid (mput n oid (case mget g sid of None \<Rightarrow> [] | Some m \<Rightarrow> m)) g"
  define inv where "inv g xs \<longleftrightarrow> mok g \<and> (\<forall>sid. mget g sid = (if part sid xs = [] then None else Some (mput_all (part sid xs) [])))"
    for g :: "(string, (string, string) gomap) gomap" and xs
  have "inv (fold ?f xs []) xs" for xs
  proof (induction xs rule: rev_induct)
    case (snoc p xs)
    obtain n oid where p: "p = (n, oid)" by (cases p)
    have "mput_all (a @ b) m = mput_all b (mput_all a m)" for a b and m :: "(string, string) gomap"
      by (simp add: mput_all_def)
    with snoc p show ?case
      by (auto simp: inv_def Let_def part_def)
  qed (simp add: inv_def part_def)
  then have "inv (updates_by_shard us) us" by (simp add: updates_by_shard_def)
  then show "mok (updates_by_shard us)"
    "mget (updates_by_shard us) sid = (if part sid us = [] then None else Some (part sid us))"
    using assms by (auto simp: inv_def mput_all_self)
qed

section \<open>The refs a bucket holds\<close>

text \<open>Objects in \<open>area\<close> keep their content, though they may be written anew.\<close>

definition keeps :: "(string \<Rightarrow> bool) \<Rightarrow> bucket \<Rightarrow> bucket \<Rightarrow> bool" where
  "keeps area b b' \<longleftrightarrow> (\<forall>k c v. area k \<longrightarrow> b k = Some (c, v) \<longrightarrow> (\<exists>v'. b' k = Some (c, v')))"

lemma keeps_refl [simp]: "keeps area b b"
  by (simp add: keeps_def)

lemma keeps_trans: "keeps area b b' \<Longrightarrow> keeps area b' b'' \<Longrightarrow> keeps area b b''"
  unfolding keeps_def by meson

definition shard_holds :: "(string \<Rightarrow> bool) \<Rightarrow> bucket \<Rightarrow> RefShard \<Rightarrow> (string, string) gomap \<Rightarrow> bool" where
  "shard_holds area b s ms \<longleftrightarrow> area (rs_Key s) \<and> rs_Key s \<noteq> [] \<and> rs_Hash s = hashShardContent (marshalShardContent ms) \<and>
     rs_RefCount s = int (length ms) \<and> (\<exists>v. b (rs_Key s) = Some (marshalShardContent ms, v))"

text \<open>The shards of a body, over a bucket, represent a map of refs: one shard for each id that a ref
  hashes to, holding exactly those refs.\<close>

definition shards_hold :: "(string \<Rightarrow> bool) \<Rightarrow> bucket \<Rightarrow> RefShard list \<Rightarrow> (string, string) gomap \<Rightarrow> bool" where
  "shards_hold area b shards m \<longleftrightarrow> wf_refs m \<and> strictly_ascending (map rs_Shard shards) \<and>
     (\<forall>n \<in> set (map fst m). ShardKey n \<in> rs_Shard ` set shards) \<and>
     (\<forall>s \<in> set shards. part (rs_Shard s) m \<noteq> [] \<and> shard_holds area b s (part (rs_Shard s) m))"

lemma shard_holds_keeps: "keeps area b b' \<Longrightarrow> shard_holds area b s ms \<Longrightarrow> shard_holds area b' s ms"
  unfolding keeps_def shard_holds_def by meson

lemma shards_hold_keeps: "keeps area b b' \<Longrightarrow> shards_hold area b shards m \<Longrightarrow> shards_hold area b' shards m"
  unfolding shards_hold_def using shard_holds_keeps by blast

lemma find_shard:
  assumes "strictly_ascending (map rs_Shard shards)" "s \<in> set shards"
  shows "List.find (\<lambda>s'. rs_Shard s' = rs_Shard s) shards = Some s"
proof -
  have "distinct (map rs_Shard shards)" using assms(1) by (rule strictly_ascending_distinct)
  with assms(2) show ?thesis by (induction shards) auto
qed

lemma mget_existing:
  assumes "strictly_ascending (map rs_Shard shards)"
  shows "mget (existing_by_shard shards) sid = List.find (\<lambda>s. rs_Shard s = sid) shards"
proof -
  have d: "distinct (map fst (map (\<lambda>s. (rs_Shard s, s)) shards))"
    using strictly_ascending_distinct [OF assms] by (simp add: comp_def)
  have "map_of (map (\<lambda>s. (rs_Shard s, s)) ss) sid = List.find (\<lambda>s. rs_Shard s = sid) ss" for ss
    by (induction ss) auto
  then show ?thesis
    by (simp add: existing_by_shard_def mget_mput_all distinct_map_of_rev [OF d])
qed

lemma part_no_shard:
  assumes "shards_hold area b shards m" "List.find (\<lambda>s. rs_Shard s = sid) shards = None"
  shows "part sid m = []"
proof (rule ccontr)
  assume "part sid m \<noteq> []"
  then obtain n where n: "n \<in> set (map fst m)" "ShardKey n = sid" by (auto simp: part_empty)
  have "\<forall>n \<in> set (map fst m). ShardKey n \<in> rs_Shard ` set shards"
    using assms(1) unfolding shards_hold_def by (elim conjE)
  from this [THEN bspec, OF n(1)] obtain s where "s \<in> set shards" "rs_Shard s = sid"
    unfolding n(2) by (elim imageE) simp
  with assms(2) show False by (auto simp: find_None_iff)
qed

section \<open>What staging computes\<close>

text \<open>The changed shard with a given id, for the refs after the update.\<close>

definition staged_hash :: "(string, string) gomap \<Rightarrow> string \<Rightarrow> string" where
  "staged_hash m sid = hashShardContent (marshalShardContent (part sid m))"

definition staged_same :: "(string, RefShard) gomap \<Rightarrow> (string, string) gomap \<Rightarrow> string \<Rightarrow> bool" where
  "staged_same ex m sid = (case mget ex sid of None \<Rightarrow> False | Some s \<Rightarrow> rs_Hash s = staged_hash m sid)"

definition staged_key :: "keys_repo \<Rightarrow> (string, RefShard) gomap \<Rightarrow> (string, string) gomap \<Rightarrow> string \<Rightarrow> string" where
  "staged_key k ex m sid =
     (if staged_same ex m sid then rs_Key (the (mget ex sid)) else RefShardKey k (staged_hash m sid))"

definition staged_shard :: "keys_repo \<Rightarrow> (string, RefShard) gomap \<Rightarrow> (string, string) gomap \<Rightarrow> string \<Rightarrow> RefShard" where
  "staged_shard k ex m sid = \<lparr>rs_Shard = sid, rs_Key = staged_key k ex m sid, rs_Hash = staged_hash m sid,
     rs_RefCount = int (length (part sid m))\<rparr>"

definition staged_write :: "keys_repo \<Rightarrow> (string, RefShard) gomap \<Rightarrow> (string, string) gomap \<Rightarrow> string \<Rightarrow> ShardWrite" where
  "staged_write k ex m sid = \<lparr>sw_Shard = sid, sw_Key = staged_key k ex m sid, sw_Hash = staged_hash m sid,
     sw_Contents = marshalShardContent (part sid m)\<rparr>"

lemma stage_shards_spec:
  assumes "mok m" "mok us"
    and "\<forall>(sid, u) \<in> set by. mget loaded sid = Some (Some (part sid m)) \<and> u = part sid us"
  shows "stage_shards k ex loaded by =
    Inr (map (staged_write k ex (apply_updates us m))
           (filter (\<lambda>sid. part sid (apply_updates us m) \<noteq> [] \<and> \<not> staged_same ex (apply_updates us m) sid) (map fst by)),
         map (staged_shard k ex (apply_updates us m))
           (filter (\<lambda>sid. part sid (apply_updates us m) \<noteq> []) (map fst by)))"
  using assms(3)
proof (induction "by")
  case (Cons p bs)
  obtain sid u where p: "p = (sid, u)" by (cases p)
  have a: "apply_updates_nil u (case mget loaded sid of None \<Rightarrow> None | Some m \<Rightarrow> m) = Inr (part sid (apply_updates us m))"
    using Cons.prems p part_apply_updates [OF assms(1,2), of sid] by (simp add: apply_updates_nil_def)
  have IH: "stage_shards k ex loaded bs = Inr (map (staged_write k ex (apply_updates us m))
           (filter (\<lambda>sid. part sid (apply_updates us m) \<noteq> [] \<and> \<not> staged_same ex (apply_updates us m) sid) (map fst bs)),
         map (staged_shard k ex (apply_updates us m))
           (filter (\<lambda>sid. part sid (apply_updates us m) \<noteq> []) (map fst bs)))"
    using Cons by auto
  show ?case
    unfolding p stage_shards.simps a IH
    by (auto simp: Let_def staged_write_def staged_shard_def staged_key_def staged_same_def staged_hash_def
        split: option.splits)
qed simp

lemma updates_by_shard_members:
  assumes "mok us"
  shows "(sid, u) \<in> set (updates_by_shard us) \<longleftrightarrow> part sid us \<noteq> [] \<and> u = part sid us"
  using mget_updates_by_shard(2) [OF assms] map_of_eq_Some_iff [OF mok_distinct [OF mget_updates_by_shard(1) [OF assms]], of sid u]
  by (auto split: if_splits)

text \<open>The shards that staging \<open>us\<close> over \<open>m\<close> gives, and the objects it wants written.\<close>

definition staged_shards :: "keys_repo \<Rightarrow> RefShard list \<Rightarrow> (string, string) gomap \<Rightarrow> (string, string) gomap \<Rightarrow> RefShard list" where
  "staged_shards k shards us m' = sort_key rs_Shard
     (map (staged_shard k (existing_by_shard shards) m')
        (filter (\<lambda>sid. part sid m' \<noteq> []) (map fst (updates_by_shard us)))
      @ filter (\<lambda>s. mget (updates_by_shard us) (rs_Shard s) = None) shards)"

definition staged_writes :: "keys_repo \<Rightarrow> RefShard list \<Rightarrow> (string, string) gomap \<Rightarrow> (string, string) gomap \<Rightarrow> ShardWrite list" where
  "staged_writes k shards us m' = map (staged_write k (existing_by_shard shards) m')
     (filter (\<lambda>sid. part sid m' \<noteq> [] \<and> \<not> staged_same (existing_by_shard shards) m' sid) (map fst (updates_by_shard us)))"

lemma touched_ids: "mok us \<Longrightarrow> set (map fst (updates_by_shard us)) = {sid. part sid us \<noteq> []}"
proof -
  assume us: "mok us"
  have "sid \<in> set (map fst (updates_by_shard us)) \<longleftrightarrow> part sid us \<noteq> []" for sid
    using mget_updates_by_shard(2) [OF us, of sid] map_of_eq_None_iff [of "updates_by_shard us" sid]
    by (simp split: if_splits)
  then show ?thesis by blast
qed

text \<open>Two different shard contents of this stage do not collide with the contents they replace.\<close>

definition no_collision :: "RefShard list \<Rightarrow> (string, string) gomap \<Rightarrow> (string, string) gomap \<Rightarrow> bool" where
  "no_collision shards m m' \<longleftrightarrow>
     (\<forall>s \<in> set shards. part (rs_Shard s) m' \<noteq> [] \<longrightarrow> rs_Hash s = staged_hash m' (rs_Shard s) \<longrightarrow>
        part (rs_Shard s) m' = part (rs_Shard s) m)"

definition published :: "bucket \<Rightarrow> Stage \<Rightarrow> bool" where
  "published b st \<longleftrightarrow> (\<forall>w \<in> set (sg_NewShardObjects st). \<exists>v. b (sw_Key w) = Some (sw_Contents w, v))"

lemma staged_shards_ids:
  assumes "mok us" "strictly_ascending (map rs_Shard shards)"
  shows "strictly_ascending (map rs_Shard (staged_shards k shards us m'))"
    "s \<in> set (staged_shards k shards us m') \<longleftrightarrow>
       (\<exists>sid. part sid us \<noteq> [] \<and> part sid m' \<noteq> [] \<and> s = staged_shard k (existing_by_shard shards) m' sid) \<or>
       (s \<in> set shards \<and> part (rs_Shard s) us = [])"
proof -
  let ?t = "filter (\<lambda>sid. part sid m' \<noteq> []) (map fst (updates_by_shard us))"
  let ?u = "filter (\<lambda>s. mget (updates_by_shard us) (rs_Shard s) = None) shards"
  have g: "mget (updates_by_shard us) sid = None \<longleftrightarrow> part sid us = []" for sid
    using mget_updates_by_shard(2) [OF assms(1)] by simp
  have t: "set ?t = {sid. part sid us \<noteq> [] \<and> part sid m' \<noteq> []}"
    using touched_ids [OF assms(1)] by auto
  have d: "distinct ?t" "distinct (map rs_Shard ?u)"
    using mok_distinct [OF mget_updates_by_shard(1) [OF assms(1)]] strictly_ascending_distinct [OF assms(2)]
    by (simp_all add: distinct_map_filter)
  have "rs_Shard (staged_shard k ex m' sid) = sid" for ex sid by (simp add: staged_shard_def)
  then have e: "map rs_Shard (map (staged_shard k (existing_by_shard shards) m') ?t @ ?u) = ?t @ map rs_Shard ?u"
    by (simp add: comp_def)
  let ?l = "map (staged_shard k (existing_by_shard shards) m') ?t @ ?u"
  have "set ?t \<inter> rs_Shard ` set ?u = {}" unfolding t unfolding set_filter g by auto
  with d have "distinct (map rs_Shard ?l)" unfolding e distinct_append by simp
  then have "distinct ?l" "inj_on rs_Shard (set ?l)" by (simp_all only: distinct_map)
  then have "distinct (map rs_Shard (staged_shards k shards us m'))"
    unfolding staged_shards_def by (simp only: distinct_map distinct_sort set_sort simp_thms)
  then show "strictly_ascending (map rs_Shard (staged_shards k shards us m'))"
    by (intro sorted_distinct_strictly_ascending) (auto simp: staged_shards_def)
  show "s \<in> set (staged_shards k shards us m') \<longleftrightarrow>
       (\<exists>sid. part sid us \<noteq> [] \<and> part sid m' \<noteq> [] \<and> s = staged_shard k (existing_by_shard shards) m' sid) \<or>
       (s \<in> set shards \<and> part (rs_Shard s) us = [])"
    unfolding staged_shards_def set_sort set_append list.set_map t
    unfolding set_filter g by auto
qed

lemma RefShardKey_nonempty [simp]: "RefShardKey k h \<noteq> []"
  by (simp add: RefShardKey_def)

lemma staged_shard_holds:
  assumes "shards_hold area b shards m" "keeps area b b'" "no_collision shards m m'"
    and "\<And>h. area (RefShardKey k h)" "part sid m' \<noteq> []"
    and "\<not> staged_same (existing_by_shard shards) m' sid \<Longrightarrow>
      \<exists>v. b' (RefShardKey k (staged_hash m' sid)) = Some (marshalShardContent (part sid m'), v)"
  shows "shard_holds area b' (staged_shard k (existing_by_shard shards) m' sid) (part sid m')"
proof (cases "staged_same (existing_by_shard shards) m' sid")
  case False
  with assms(4,6) show ?thesis
    by (auto simp: shard_holds_def staged_shard_def staged_key_def staged_hash_def)
next
  case True
  have asc: "strictly_ascending (map rs_Shard shards)" using assms(1) by (simp add: shards_hold_def)
  from True obtain s where f: "List.find (\<lambda>s. rs_Shard s = sid) shards = Some s" and h: "rs_Hash s = staged_hash m' sid"
    by (auto simp: staged_same_def mget_existing [OF asc] split: option.splits)
  from f have s: "s \<in> set shards" "rs_Shard s = sid" by (auto simp: find_Some_iff)
  have same: "part sid m' = part sid m"
    using assms(3,5) s h by (auto simp: no_collision_def)
  have "shard_holds area b' s (part sid m)"
    using assms(1) s shard_holds_keeps [OF assms(2)] by (auto simp: shards_hold_def)
  moreover have "staged_key k (existing_by_shard shards) m' sid = rs_Key s"
    using True f by (simp add: staged_key_def mget_existing [OF asc])
  ultimately show ?thesis
    using same h by (simp add: shard_holds_def staged_shard_def staged_hash_def)
qed

theorem staged_shards_hold:
  assumes h: "shards_hold area b shards m" and us: "wf_refs us" and k: "keeps area b b'"
    and c: "no_collision shards m (apply_updates us m)" and a: "\<And>h. area (RefShardKey k h)"
    and w: "\<forall>x \<in> set (staged_writes k shards us (apply_updates us m)). \<exists>v. b' (sw_Key x) = Some (sw_Contents x, v)"
  shows "shards_hold area b' (staged_shards k shards us (apply_updates us m)) (apply_updates us m)"
proof -
  let ?m' = "apply_updates us m"
  have m: "wf_refs m" "strictly_ascending (map rs_Shard shards)" using h by (auto simp: shards_hold_def)
  note ids = staged_shards_ids [OF wf_refs_mok [OF us] m(2)]
  have touched: "shard_holds area b' (staged_shard k (existing_by_shard shards) ?m' sid) (part sid ?m')"
    if "part sid us \<noteq> []" "part sid ?m' \<noteq> []" for sid
  proof (rule staged_shard_holds [OF h k c a that(2)])
    assume n: "\<not> staged_same (existing_by_shard shards) ?m' sid"
    have "sid \<in> set (map fst (updates_by_shard us))" using that touched_ids [of us] us by auto
    with that n have "staged_write k (existing_by_shard shards) ?m' sid \<in> set (staged_writes k shards us ?m')"
      unfolding staged_writes_def set_map [of "staged_write _ _ _"] set_filter by blast
    from w [THEN bspec, OF this] n
    show "\<exists>v. b' (RefShardKey k (staged_hash ?m' sid)) = Some (marshalShardContent (part sid ?m'), v)"
      by (simp add: staged_write_def staged_key_def)
  qed
  have untouched: "part (rs_Shard s) ?m' = part (rs_Shard s) m" if "part (rs_Shard s) us = []" for s
    using part_untouched that m(1) us by simp
  show ?thesis
    unfolding shards_hold_def
  proof (intro conjI ballI)
    show "wf_refs ?m'" using wf_refs_apply_updates m(1) us by blast
    show "strictly_ascending (map rs_Shard (staged_shards k shards us ?m'))" by (rule ids(1))
  next
    fix n assume n: "n \<in> set (map fst ?m')"
    have p: "part (ShardKey n) ?m' \<noteq> []" using n by (auto simp: part_empty)
    show "ShardKey n \<in> rs_Shard ` set (staged_shards k shards us ?m')"
    proof (cases "part (ShardKey n) us = []")
      case False
      with p ids(2) have "staged_shard k (existing_by_shard shards) ?m' (ShardKey n) \<in> set (staged_shards k shards us ?m')"
        by blast
      then show ?thesis by (rule rev_image_eqI) (simp add: staged_shard_def)
    next
      case True
      then have "part (ShardKey n) m \<noteq> []" using p part_untouched [of m us] m(1) us by simp
      then obtain s where s: "List.find (\<lambda>s. rs_Shard s = ShardKey n) shards = Some s"
        using part_no_shard [OF h] by (cases "List.find (\<lambda>s. rs_Shard s = ShardKey n) shards") auto
      then have "s \<in> set shards" "rs_Shard s = ShardKey n" by (auto simp: find_Some_iff)
      with True ids(2) [of s] show ?thesis by (intro rev_image_eqI [of s]) auto
    qed
  next
    fix s assume "s \<in> set (staged_shards k shards us ?m')"
    then consider sid where "part sid us \<noteq> []" "part sid ?m' \<noteq> []" "s = staged_shard k (existing_by_shard shards) ?m' sid"
      | "s \<in> set shards" "part (rs_Shard s) us = []"
      using ids(2) by blast
    then have "part (rs_Shard s) ?m' \<noteq> [] \<and> shard_holds area b' s (part (rs_Shard s) ?m')"
    proof cases
      case 1
      with touched show ?thesis by (simp add: staged_shard_def)
    next
      case 2
      with h untouched [OF 2(2)] shard_holds_keeps [OF k] show ?thesis by (simp add: shards_hold_def)
    qed
    then show "part (rs_Shard s) ?m' \<noteq> []" "shard_holds area b' s (part (rs_Shard s) ?m')" by simp_all
  qed
qed

text \<open>The failures that come from the bucket; the others would mean that the layout is broken.\<close>

fun store_failure :: "refstore_error \<Rightarrow> bool" where
  "store_failure (RSFetch _ _) = True"
| "store_failure (RSReadBody _) = True"
| "store_failure _ = False"

text \<open>A store whose other clients leave the objects of an area alone.\<close>

locale ref_bucket = object_store S view good vers rely
  for S :: "'w ObjectStore" and view :: "'w \<Rightarrow> bucket" and good :: "'w \<Rightarrow> bool"
    and vers :: "string \<Rightarrow> ObjectVersion \<Rightarrow> bool" and rely :: "bucket \<Rightarrow> bucket \<Rightarrow> bool" +
  fixes area :: "string \<Rightarrow> bool" and kr :: keys_repo
  assumes rely_keeps: "rely b b' \<Longrightarrow> keeps area b b'"
    and area_shards: "area (RefShardKey kr h)"
begin

definition holds :: "RefShard list \<Rightarrow> 'w \<Rightarrow> (string, string) gomap \<Rightarrow> bool" where
  "holds shards w m \<longleftrightarrow> good w \<and> shards_hold area (view w) shards m"

lemma fetch_law:
  assumes "holds shards w m" "s \<in> set shards" "fetchShard S s w = (r, w')"
  shows "holds shards w' m \<and> keeps area (view w) (view w') \<and>
    (case r of Inr refs \<Rightarrow> refs = Some (part (rs_Shard s) m) | Inl e \<Rightarrow> store_failure e)"
proof -
  obtain g w1 where g: "os_Get S (rs_Key s) None w = (g, w1)" by fastforce
  have w1: "w1 = w'" using assms(3) g by (auto simp: fetchShard_def split: sum.splits if_splits option.splits)
  from get_law [OF _ g] assms(1) obtain b where b: "good w1" "rely (view w) b" "rely b (view w1)" "get_post b (rs_Key s) g"
    by (auto simp: holds_def)
  have k: "keeps area (view w) b" "keeps area (view w) (view w1)"
    using b(2,3) rely_keeps keeps_trans by blast+
  have h: "shards_hold area b shards m"
    using shards_hold_keeps [OF k(1)] assms(1) by (simp add: holds_def)
  let ?ms = "part (rs_Shard s) m"
  obtain v where v: "b (rs_Key s) = Some (marshalShardContent ?ms, v)" "rs_Hash s = hashShardContent (marshalShardContent ?ms)"
    using h assms(2) by (auto simp: shards_hold_def shard_holds_def)
  have wf: "wf_refs ?ms" using h by (simp add: shards_hold_def)
  have "case r of Inr refs \<Rightarrow> refs = Some ?ms | Inl e \<Rightarrow> store_failure e"
  proof (cases g)
    case (Inl e)
    with assms(3) g show ?thesis by (auto simp: fetchShard_def)
  next
    case (Inr obj)
    show ?thesis
    proof (cases "obj_ReadErr obj")
      case True
      with Inr assms(3) g show ?thesis by (auto simp: fetchShard_def)
    next
      case False
      with Inr b(4) v have "obj_Body obj = marshalShardContent ?ms" by (auto simp: get_post_def)
      with False Inr assms(3) g v(2) shard_roundtrip [OF wf] show ?thesis by (auto simp: fetchShard_def)
    qed
  qed
  with b(1) k(2) shards_hold_keeps [OF k(2)] assms(1) w1 show ?thesis by (simp add: holds_def)
qed

lemma lookup_law:
  assumes "holds shards w m" "sharded_Lookup S shards n w = (r, w')"
  shows "holds shards w' m \<and> keeps area (view w) (view w') \<and>
    (case r of Inr v \<Rightarrow> v = mget m n | Inl e \<Rightarrow> store_failure e)"
proof (cases "List.find (\<lambda>s. rs_Shard s = ShardKey n) shards")
  case None
  from part_no_shard [OF _ this] assms(1) have "part (ShardKey n) m = []" by (auto simp: holds_def)
  then have "mget m n = None" using mget_part [of "ShardKey n" m n] by simp
  with None assms show ?thesis by (auto simp: sharded_Lookup_def)
next
  case (Some s)
  then have s: "s \<in> set shards" "rs_Shard s = ShardKey n"
    by (auto simp: find_Some_iff)
  obtain f w1 where f: "fetchShard S s w = (f, w1)" by fastforce
  from fetch_law [OF assms(1) s(1) f] Some f s(2) assms(2) show ?thesis
    by (auto simp: sharded_Lookup_def map_get_def mget_part split: sum.splits)
qed

lemma fetch_merge_law:
  assumes "holds shards w m" "set ss \<subseteq> set shards" "mok out" "fetch_merge S ss out w = (r, w')"
  shows "holds shards w' m \<and> keeps area (view w) (view w') \<and>
    (case r of
       Inr o' \<Rightarrow> mok o' \<and> (\<forall>n. mget o' n = (if ShardKey n \<in> rs_Shard ` set ss \<and> mget m n \<noteq> None then mget m n else mget out n))
     | Inl e \<Rightarrow> store_failure e)"
  using assms
proof (induction ss arbitrary: out w)
  case (Cons s ss)
  obtain f w1 where f: "fetchShard S s w = (f, w1)" by fastforce
  have s: "s \<in> set shards" using Cons.prems(2) by simp
  note F = fetch_law [OF Cons.prems(1) s f]
  show ?case
  proof (cases f)
    case (Inl e)
    with Cons.prems(4) f have "r = Inl e" "w' = w1" by auto
    with Inl F show ?thesis by simp
  next
    case (Inr refs)
    let ?p = "part (rs_Shard s) m"
    have mo: "mok ?p" using Cons.prems(1) by (simp add: holds_def shards_hold_def)
    have run: "fetch_merge S ss (mput_all ?p out) w1 = (r, w')"
      using Cons.prems(4) f Inr F by simp
    have g: "mget (mput_all ?p out) n = (if ShardKey n = rs_Shard s \<and> mget m n \<noteq> None then mget m n else mget out n)" for n
      using Cons.prems(3) mo
      by (simp add: mget_mput_all distinct_map_of_rev mok_distinct map_add_def mget_part split: option.splits)
    have IH: "holds shards w' m \<and> keeps area (view w1) (view w') \<and>
      (case r of Inr o' \<Rightarrow> mok o' \<and> (\<forall>n. mget o' n =
          (if ShardKey n \<in> rs_Shard ` set ss \<and> mget m n \<noteq> None then mget m n else mget (mput_all ?p out) n))
        | Inl e \<Rightarrow> store_failure e)"
      using F Cons.prems(2,3) by (intro Cons.IH [OF _ _ _ run]) auto
    have "keeps area (view w) (view w')" using F IH keeps_trans by blast
    moreover have "ShardKey n \<in> rs_Shard ` set (s # ss) \<longleftrightarrow> ShardKey n = rs_Shard s \<or> ShardKey n \<in> rs_Shard ` set ss" for n
      by simp
    ultimately show ?thesis using IH by (cases r) (simp_all only: sum.case g, auto)
  qed
qed auto

lemma list_refs:
  assumes "holds shards w m" "sharded_List S shards sched w = (r, w')"
  shows "holds shards w' m \<and> keeps area (view w) (view w') \<and>
    (case r of Inr o' \<Rightarrow> o' = m | Inl e \<Rightarrow> store_failure e)"
proof -
  note F = fetch_merge_law [OF assms(1) _ mok_Nil assms(2) [unfolded sharded_List_def]]
  have h: "mok m" using assms(1) by (simp add: holds_def shards_hold_def)
  have "ShardKey n \<in> rs_Shard ` set shards" if "mget m n = Some v" for n v
  proof -
    have "n \<in> set (map fst m)" using that by (force dest: map_of_SomeD)
    moreover have "\<forall>n \<in> set (map fst m). ShardKey n \<in> rs_Shard ` set shards"
      using assms(1) unfolding holds_def shards_hold_def by (elim conjE)
    ultimately show ?thesis by (rule bspec [rotated])
  qed
  then have all: "(if ShardKey n \<in> rs_Shard ` set shards \<and> mget m n \<noteq> None then mget m n else None) = mget m n" for n
    by (cases "mget m n") simp_all
  have "o' = m" if "mok o'" "\<forall>n. mget o' n = (if ShardKey n \<in> rs_Shard ` set shards \<and> mget m n \<noteq> None then mget m n else None)" for o'
    using that h by (intro mok_ext) (simp_all only: all fun_eq_iff simp_thms)
  with F show ?thesis by (cases r) simp_all
qed

lemma load_law:
  assumes "holds shards w m" "mok loaded" "load_shards S (existing_by_shard shards) sids loaded w = (r, w')"
  shows "holds shards w' m \<and> keeps area (view w) (view w') \<and>
    (case r of
       Inr l \<Rightarrow> mok l \<and> (\<forall>sid. mget l sid = (if sid \<in> set sids then Some (Some (part sid m)) else mget loaded sid))
     | Inl e \<Rightarrow> store_failure e)"
  using assms
proof (induction sids arbitrary: loaded w)
  case (Cons sid sids)
  have asc: "strictly_ascending (map rs_Shard shards)" using Cons.prems(1) by (simp add: holds_def shards_hold_def)
  have step: "holds shards w' m \<and> keeps area (view w) (view w') \<and>
    (case r of
       Inr l \<Rightarrow> mok l \<and> (\<forall>x. mget l x = (if x \<in> set (sid # sids) then Some (Some (part x m)) else mget loaded x))
     | Inl e \<Rightarrow> store_failure e)"
    if "holds shards w1 m" "keeps area (view w) (view w1)"
      "load_shards S (existing_by_shard shards) sids (mput sid (Some (part sid m)) loaded) w1 = (r, w')" for w1
    using Cons.IH [OF that(1) mok_mput [OF Cons.prems(2)] that(3)] Cons.prems(2) keeps_trans [OF that(2)]
    by (auto split: sum.splits)
  show ?case
  proof (cases "List.find (\<lambda>s. rs_Shard s = sid) shards")
    case None
    then have "part sid m = []" using part_no_shard Cons.prems(1) by (auto simp: holds_def)
    with None Cons.prems step [of w] show ?thesis by (simp add: mget_existing [OF asc])
  next
    case (Some s)
    then have s: "s \<in> set shards" "rs_Shard s = sid" by (auto simp: find_Some_iff)
    obtain f w1 where f: "fetchShard S s w = (f, w1)" by fastforce
    note F = fetch_law [OF Cons.prems(1) s(1) f]
    show ?thesis
    proof (cases f)
      case (Inl e)
      with Cons.prems(3) Some f F show ?thesis by (auto simp: mget_existing [OF asc])
    next
      case (Inr refs)
      with Cons.prems(3) Some f F s(2) step [of w1] show ?thesis by (simp add: mget_existing [OF asc])
    qed
  qed
qed auto

lemma stage_refs:
  assumes h: "holds shards w m" and us: "wf_refs us" and run: "sharded_Stage S k shards sched us w = (r, w')"
  shows "holds shards w' m \<and> keeps area (view w) (view w') \<and>
    (case r of
       Inl e \<Rightarrow> store_failure e
     | Inr st \<Rightarrow> sg_Mode st = ModeSharded \<and> sg_NewInlineRefs st = [] \<and>
         sg_NewShardObjects st = staged_writes k shards us (apply_updates us m) \<and>
         sg_NewRefShards st = staged_shards k shards us (apply_updates us m))"
proof (cases "us = []")
  case True
  have asc: "strictly_ascending (map rs_Shard shards)" using h by (simp add: holds_def shards_hold_def)
  then have "sort_key rs_Shard shards = shards"
    by (intro sort_key_id_if_sorted) (simp add: strictly_ascending_sorted)
  with True h run show ?thesis
    by (auto simp: sharded_Stage_def staged_writes_def staged_shards_def updates_by_shard_def)
next
  case False
  let ?by = "updates_by_shard us" and ?ex = "existing_by_shard shards"
  have mok: "mok m" "mok us" using h us by (auto simp: holds_def shards_hold_def)
  obtain l w1 where l: "load_shards S ?ex (permute sched (map fst ?by)) [] w = (l, w1)" by fastforce
  note L = load_law [OF h mok_Nil l]
  show ?thesis
  proof (cases l)
    case (Inl e)
    with False run l L show ?thesis by (auto simp: sharded_Stage_def Let_def)
  next
    case (Inr loaded)
    have "\<forall>(sid, u) \<in> set ?by. mget loaded sid = Some (Some (part sid m)) \<and> u = part sid us"
    proof (rule ballI, clarify, rule conjI)
      fix sid u assume su: "(sid, u) \<in> set ?by"
      then show "u = part sid us" using updates_by_shard_members [OF mok(2)] by simp
      have "sid \<in> set (permute sched (map fst ?by))" unfolding set_permute using su by force
      then show "mget loaded sid = Some (Some (part sid m))" using L unfolding Inr by simp
    qed
    note S = stage_shards_spec [OF mok this, where k = k and ex = ?ex]
    show ?thesis
      using False run l L Inr S
      by (auto simp: sharded_Stage_def Let_def staged_writes_def staged_shards_def)
  qed
qed

end

section \<open>The contract of a ref store\<close>

text \<open>What the clients of a ref store rely on, whatever the layout: the store shows one map of refs,
  which look-ups and listings report and a stage updates; an operation fails only when the bucket
  does. \<open>denotes\<close> says which refs a root with the staged layout would show, and \<open>safe\<close> what has to
  be assumed of the hash.\<close>

locale ref_store =
  fixes rs :: "'w RefStore"
    and shows_refs :: "'w \<Rightarrow> (string, string) gomap \<Rightarrow> bool"
    and safe :: "(string, string) gomap \<Rightarrow> (string, string) gomap \<Rightarrow> bool"
    and denotes :: "'w \<Rightarrow> Stage \<Rightarrow> (string, string) gomap \<Rightarrow> bool"
  assumes shown_wf: "shows_refs w m \<Longrightarrow> wf_refs m"
    and lookup_shown: "shows_refs w m \<Longrightarrow> rs_Lookup rs n w = (r, w') \<Longrightarrow>
        shows_refs w' m \<and> (case r of Inr v \<Rightarrow> v = mget m n | Inl e \<Rightarrow> store_failure e)"
    and list_shown: "shows_refs w m \<Longrightarrow> rs_List rs sched w = (lr, w') \<Longrightarrow>
        shows_refs w' m \<and> (case lr of Inr o' \<Rightarrow> o' = m | Inl e \<Rightarrow> store_failure e)"
    and stage_shown: "shows_refs w m \<Longrightarrow> wf_refs us \<Longrightarrow> rs_Stage rs sched us w = (sr, w') \<Longrightarrow>
        shows_refs w' m \<and>
        (case sr of
           Inl e \<Rightarrow> store_failure e
         | Inr st \<Rightarrow> sg_Mode st = rs_Mode rs \<and>
             (sg_Mode st = ModeInline \<longrightarrow> sg_NewInlineRefs st = apply_updates us m) \<and>
             (safe m (apply_updates us m) \<longrightarrow> denotes w' st (apply_updates us m)))"

interpretation inl: ref_store "InlineRefStore refs" "\<lambda>w m. m = refs \<and> wf_refs m" "\<lambda>m m'. True"
    "\<lambda>w st m'. sg_NewInlineRefs st = m' \<and> sg_NewShardObjects st = [] \<and> sg_NewRefShards st = []"
  for refs
  by unfold_locales
     (auto simp: rs_Lookup_def rs_List_def rs_Stage_def rs_Mode_def inline_Lookup_def inline_List_def inline_Stage_def
       mput_all_self)

text \<open>A staged sharded layout shows its refs in every later bucket that has kept the shards and holds
  the staged objects.\<close>

definition staged_denotes :: "(string \<Rightarrow> bool) \<Rightarrow> bucket \<Rightarrow> Stage \<Rightarrow> (string, string) gomap \<Rightarrow> bool" where
  "staged_denotes area b st m' \<longleftrightarrow> sg_NewInlineRefs st = [] \<and>
     (\<forall>b'. keeps area b b' \<longrightarrow> published b' st \<longrightarrow> shards_hold area b' (sg_NewRefShards st) m')"

sublocale ref_bucket \<subseteq> sharded: ref_store "ShardedRefStore S kr shards" "holds shards" "no_collision shards"
    "\<lambda>w. staged_denotes area (view w)" for shards
proof (unfold_locales, goal_cases)
  case (1 w m) then show ?case by (simp add: holds_def shards_hold_def)
next
  case (2 w m n r w') then show ?case using lookup_law [of shards w m n r w'] by (simp add: rs_Lookup_def)
next
  case (3 w m sched r w') then show ?case using list_refs [of shards w m sched r w'] by (simp add: rs_List_def)
next
  case (4 w m us sched r w')
  then have "sharded_Stage S kr shards sched us w = (r, w')" by (simp add: rs_Stage_def)
  note R = stage_refs [OF 4(1,2) this]
  show ?case
  proof (cases r)
    case (Inl e)
    with R show ?thesis by simp
  next
    case (Inr st)
    have "shards_hold area (view w') shards m" using R by (simp add: holds_def)
    then have "staged_denotes area (view w') st (apply_updates us m)" if "no_collision shards m (apply_updates us m)"
      using staged_shards_hold [where area = area and k = kr, OF _ 4(2) _ that area_shards] R Inr by (auto simp: staged_denotes_def published_def)
    with R Inr show ?thesis by (simp add: rs_Mode_def)
  qed
qed

end
