(* ===== verification/Ref_Localfs.thy ===== *)
theory Ref_Localfs
  imports Ref_Store Repo_Localfs
begin

text \<open>
  The sharded ref store over the file-system store, with other clients at work on the bucket who
  leave the shard objects alone: shard objects are content-addressed, written once and never
  deleted. On it the sharded layout refines the inline one, operation by operation.
\<close>

definition shard_area :: "keys_repo \<Rightarrow> string \<Rightarrow> bool" where
  "shard_area kr k = has_prefix k (kr_prefix kr @ ''manifest/ref-shards/'')"

lemma shard_area_key [simp]: "shard_area kr (RefShardKey kr h)"
  by (simp add: shard_area_def RefShardKey_def has_prefix_def)

abbreviation shared_good :: "keys_repo \<Rightarrow> lfs busy_world \<Rightarrow> bool" where
  "shared_good kr \<equiv> busy_good lfs_view lfs_good (keeps (shard_area kr))"

interpretation ref_lfs: ref_bucket "busy localfs" "lfs_view \<circ> fst" "shared_good kr" lfs_vers
    "keeps (shard_area kr)" "shard_area kr" kr for kr
proof -
  have "object_store (busy localfs) (lfs_view \<circ> fst) (shared_good kr) lfs_vers (keeps (shard_area kr))"
    by (rule lfs.busy_store) (simp, rule keeps_trans)
  then show "ref_bucket (busy localfs) (lfs_view \<circ> fst) (shared_good kr) lfs_vers (keeps (shard_area kr)) (shard_area kr) kr"
    by (simp add: ref_bucket_def ref_bucket_axioms_def)
qed



section \<open>A concrete layout\<close>

definition one_ref :: "(string, string) gomap" where
  "one_ref = [(''refs/heads/main'', ''0a'')]"

definition one_shard :: RefShard where
  "one_shard = (let h = hashShardContent (marshalShardContent one_ref) in
     \<lparr>rs_Shard = ShardKey ''refs/heads/main'', rs_Key = RefShardKey sample_repo h, rs_Hash = h, rs_RefCount = 1\<rparr>)"

definition shard_lfs :: lfs where
  "shard_lfs = sample_lfs\<lparr>lf_files := [(rs_Key one_shard, (marshalShardContent one_ref, zero_time))]\<rparr>"

lemma one_ref_wf: "wf_refs one_ref"
  by (simp add: wf_refs_def one_ref_def ascii_valid del: valid_utf8.simps(2))

lemma one_ref_part: "part (ShardKey ''refs/heads/main'') one_ref = one_ref"
  by (simp add: part_def one_ref_def)

lemma shard_lfs_good: "shared_good sample_repo (shard_lfs, [])"
  by (simp add: busy_good_def shard_lfs_def lfs_good_def lfs_ok_def coherent_def sample_lfs_def mok_def tearing_def)

lemma shard_lfs_holds: "shards_hold (shard_area sample_repo) (lfs_view shard_lfs) [one_shard] one_ref"
proof -
  have "\<exists>v. lfs_view shard_lfs (rs_Key one_shard) = Some (marshalShardContent one_ref, v)"
    by (simp add: lfs_view_def shard_lfs_def sample_lfs_def)
  then show ?thesis
    by (simp add: shards_hold_def one_ref_wf one_ref_part shard_holds_def one_shard_def Let_def) (simp add: one_ref_def)
qed



end
