(* ===== verification/Go_Run.thy ===== *)
theory Go_Run
  imports Object_Store
begin

text \<open>
  Procedures that use the world, may fail, and may not return: \<open>None\<close> is a run that goes on for
  ever. The combinators sequence such procedures the way the Go code does (return on the first
  error, look at an error and go on, loop over a slice), and \<open>run_rel\<close> is what a whole run does to
  the world, proved combinator by combinator. The loop all listings share is here as well.
\<close>

section \<open>Procedures\<close>

type_synonym ('w, 'e, 'a) run = "'w \<Rightarrow> (('e + 'a) \<times> 'w) option"

definition run_return :: "'a \<Rightarrow> ('w, 'e, 'a) run" where
  "run_return x w = Some (Inr x, w)"

definition run_fail :: "'e \<Rightarrow> ('w, 'e, 'a) run" where
  "run_fail e w = Some (Inl e, w)"

definition run_try :: "('w, 'e, 'a) run \<Rightarrow> ('e + 'a \<Rightarrow> ('w, 'f, 'b) run) \<Rightarrow> ('w, 'f, 'b) run" where
  "run_try m h w = (case m w of None \<Rightarrow> None | Some (r, w1) \<Rightarrow> h r w1)"

definition run_bind :: "('w, 'e, 'a) run \<Rightarrow> ('a \<Rightarrow> ('w, 'e, 'b) run) \<Rightarrow> ('w, 'e, 'b) run" where
  "run_bind m f = run_try m (\<lambda>r. case r of Inl e \<Rightarrow> run_fail e | Inr x \<Rightarrow> f x)"

definition run_err :: "('e \<Rightarrow> 'f) \<Rightarrow> ('w, 'e, 'a) run \<Rightarrow> ('w, 'f, 'a) run" where
  "run_err h m = run_try m (\<lambda>r. case r of Inl e \<Rightarrow> run_fail (h e) | Inr x \<Rightarrow> run_return x)"

text \<open>An operation that always returns, one that cannot fail, and a value that may be an error.\<close>

definition run_op :: "('w \<Rightarrow> ('e + 'a) \<times> 'w) \<Rightarrow> ('w, 'e, 'a) run" where
  "run_op f w = Some (f w)"

definition run_get :: "('w \<Rightarrow> 'a \<times> 'w) \<Rightarrow> ('w, 'e, 'a) run" where
  "run_get f w = (case f w of (x, w1) \<Rightarrow> Some (Inr x, w1))"

definition run_sum :: "'e + 'a \<Rightarrow> ('w, 'e, 'a) run" where
  "run_sum r w = Some (r, w)"

fun run_loop :: "('a \<Rightarrow> 's \<Rightarrow> ('w, 'e, 's) run) \<Rightarrow> 'a list \<Rightarrow> 's \<Rightarrow> ('w, 'e, 's) run" where
  "run_loop f [] s = run_return s"
| "run_loop f (x # xs) s = run_bind (f x s) (run_loop f xs)"

section \<open>Listing all pages\<close>

definition list_options :: "string \<Rightarrow> string \<Rightarrow> ListOptions" where
  "list_options delimiter token = \<lparr>lo_MaxKeys = 0, lo_Token = token, lo_Delimiter = delimiter\<rparr>"

partial_function (option) list_pages ::
  "'w ObjectStore \<Rightarrow> string \<Rightarrow> string \<Rightarrow> string \<Rightarrow> ListPage list \<Rightarrow> ('w, storage_error, ListPage list) run" where
  [code]: "list_pages S prefix delimiter token pages w =
     (case os_List S prefix (list_options delimiter token) w of
        (Inl e, w1) \<Rightarrow> Some (Inl e, w1)
      | (Inr page, w1) \<Rightarrow>
          if lp_NextToken page = [] then Some (Inr (pages @ [page]), w1)
          else list_pages S prefix delimiter (lp_NextToken page) (pages @ [page]) w1)"

definition page_keys :: "ListPage list \<Rightarrow> string list" where
  "page_keys pages = concat (map (\<lambda>p. map md_Key (lp_Objects p)) pages)"

section \<open>What a run does to the world\<close>

definition run_rel :: "('w \<Rightarrow> 'w \<Rightarrow> bool) \<Rightarrow> ('w, 'e, 'a) run \<Rightarrow> bool" where
  "run_rel R m \<longleftrightarrow> (\<forall>w r w'. m w = Some (r, w') \<longrightarrow> R w w')"

named_theorems run_rules

lemma run_relD: "run_rel R m \<Longrightarrow> m w = Some (r, w') \<Longrightarrow> R w w'"
  by (simp add: run_rel_def)

lemma run_rel_return [run_rules]: "reflp R \<Longrightarrow> run_rel R (run_return x)"
  by (simp add: run_rel_def run_return_def reflp_def)

lemma run_rel_fail [run_rules]: "reflp R \<Longrightarrow> run_rel R (run_fail x)"
  by (simp add: run_rel_def run_fail_def reflp_def)

lemma run_rel_sum [run_rules]: "reflp R \<Longrightarrow> run_rel R (run_sum x)"
  by (simp add: run_rel_def run_sum_def reflp_def)

lemma run_rel_try [run_rules]:
  assumes "transp R" "run_rel R m" "\<And>r. run_rel R (h r)"
  shows "run_rel R (run_try m h)"
  unfolding run_rel_def
proof (intro allI impI)
  fix w r w' assume "run_try m h w = Some (r, w')"
  then obtain r1 w1 where "m w = Some (r1, w1)" "h r1 w1 = Some (r, w')"
    by (auto simp: run_try_def split: option.splits)
  with assms show "R w w'" by (meson run_relD transpD)
qed

lemma run_rel_bind [run_rules]:
  assumes "reflp R" "transp R" "run_rel R m" "\<And>x. run_rel R (f x)"
  shows "run_rel R (run_bind m f)"
  unfolding run_bind_def
  by (rule run_rel_try) (use assms in \<open>auto intro: run_rel_fail split: sum.splits\<close>)

lemma run_rel_err [run_rules]: "reflp R \<Longrightarrow> transp R \<Longrightarrow> run_rel R m \<Longrightarrow> run_rel R (run_err h m)"
  unfolding run_err_def by (rule run_rel_try) (auto intro: run_rules split: sum.splits)

lemma run_rel_op: "(\<And>w r w'. f w = (r, w') \<Longrightarrow> R w w') \<Longrightarrow> run_rel R (run_op f)"
  by (simp add: run_rel_def run_op_def)

lemma run_rel_get: "(\<And>w r w'. f w = (r, w') \<Longrightarrow> R w w') \<Longrightarrow> run_rel R (run_get f)"
  by (auto simp: run_rel_def run_get_def split: prod.splits)

lemma run_rel_loop [run_rules]:
  assumes "reflp R" "transp R" "\<And>x s. x \<in> set xs \<Longrightarrow> run_rel R (f x s)"
  shows "run_rel R (run_loop f xs s)"
  using assms(3) by (induction xs arbitrary: s) (auto intro!: run_rules assms(1,2))

lemma run_bind_Some: "run_bind m f w = Some (r, w') \<longleftrightarrow>
    (\<exists>e. m w = Some (Inl e, w') \<and> r = Inl e) \<or> (\<exists>x w1. m w = Some (Inr x, w1) \<and> f x w1 = Some (r, w'))"
  by (auto simp: run_bind_def run_try_def run_fail_def split: option.splits sum.splits)

lemma run_err_Some: "run_err h m w = Some (r, w') \<longleftrightarrow>
    (\<exists>e. m w = Some (Inl e, w') \<and> r = Inl (h e)) \<or> (\<exists>x. m w = Some (Inr x, w') \<and> r = Inr x)"
  by (auto simp: run_err_def run_try_def run_fail_def run_return_def split: option.splits sum.splits)

lemma run_op_Some: "run_op f w = Some (r, w') \<longleftrightarrow> f w = (r, w')"
  by (simp add: run_op_def)

lemma run_get_Some: "run_get f w = Some (r, w') \<longleftrightarrow> (\<exists>x. f w = (x, w') \<and> r = Inr x)"
  by (auto simp: run_get_def split: prod.splits)

lemma run_sum_Some: "run_sum x w = Some (r, w') \<longleftrightarrow> x = r \<and> w' = w"
  by (auto simp: run_sum_def)

lemma run_return_Some: "run_return x w = Some (r, w') \<longleftrightarrow> r = Inr x \<and> w' = w"
  by (auto simp: run_return_def)

lemma run_fail_Some: "run_fail x w = Some (r, w') \<longleftrightarrow> r = Inl x \<and> w' = w"
  by (auto simp: run_fail_def)

lemmas run_Some = run_bind_Some run_err_Some run_op_Some run_get_Some run_sum_Some run_return_Some run_fail_Some

lemma run_bind_eval: "run_bind m f w = (case m w of None \<Rightarrow> None
    | Some (r, w1) \<Rightarrow> (case r of Inl e \<Rightarrow> Some (Inl e, w1) | Inr x \<Rightarrow> f x w1))"
  by (auto simp: run_bind_def run_try_def run_fail_def split: option.splits sum.splits)

lemma run_err_eval: "run_err h m w = (case m w of None \<Rightarrow> None
    | Some (r, w1) \<Rightarrow> (case r of Inl e \<Rightarrow> Some (Inl (h e), w1) | Inr x \<Rightarrow> Some (Inr x, w1)))"
  by (auto simp: run_err_def run_try_def run_fail_def run_return_def split: option.splits sum.splits)

lemmas run_eval = run_bind_eval run_err_eval run_try_def run_op_def run_get_def run_sum_def run_return_def run_fail_def

section \<open>Runs that do not fail\<close>

definition run_yields :: "('a \<Rightarrow> bool) \<Rightarrow> ('w, 'e, 'a) run \<Rightarrow> bool" where
  "run_yields I m \<longleftrightarrow> (\<forall>w r w'. m w = Some (r, w') \<longrightarrow> (\<exists>x. r = Inr x \<and> I x))"

lemma run_yields_return: "I x \<Longrightarrow> run_yields I (run_return x)"
  by (simp add: run_yields_def run_return_def)

lemma run_yields_try: "(\<And>r. run_yields I (h r)) \<Longrightarrow> run_yields I (run_try m h)"
  by (auto simp: run_yields_def run_try_def split: option.splits)

lemma run_yields_bind: "run_yields J m \<Longrightarrow> (\<And>x. J x \<Longrightarrow> run_yields I (f x)) \<Longrightarrow> run_yields I (run_bind m f)"
  unfolding run_yields_def run_bind_Some by blast

lemma run_yields_loop:
  assumes "\<And>x s ys. x \<in> set xs \<Longrightarrow> I ys s \<Longrightarrow> run_yields (I (ys @ [x])) (f x s)" "I ys s"
  shows "run_yields (I (ys @ xs)) (run_loop f xs s)"
  using assms
proof (induction xs arbitrary: ys s)
  case Nil
  then show ?case by (simp add: run_yields_return)
next
  case (Cons x xs)
  have "run_yields (I ((ys @ [x]) @ xs)) (run_loop f xs s')" if "I (ys @ [x]) s'" for s'
    by (rule Cons.IH) (use Cons.prems that in auto)
  with Cons.prems show ?case by (auto intro!: run_yields_bind [where J = "I (ys @ [x])"])
qed

text \<open>Reading the pages of a listing: by induction on the length of the run.\<close>

lemma list_pages_rel [run_rules]:
  fixes S :: "'w ObjectStore"
  assumes "reflp R" "transp R" "\<And>lo w r w'. os_List S prefix lo w = (r, w') \<Longrightarrow> R w w'"
  shows "run_rel R (list_pages S prefix delimiter token pages)"
proof -
  define P where "P = (\<lambda>(S' :: 'w ObjectStore) p (d :: string) (t :: string) (ps :: ListPage list) w (y :: (storage_error + ListPage list) \<times> 'w).
     (\<forall>lo w r w'. os_List S' p lo w = (r, w') \<longrightarrow> R w w') \<longrightarrow> R w (snd y))"
  have "P S prefix delimiter token pages w y" if "list_pages S prefix delimiter token pages w = Some y" for w y
  proof (rule list_pages.raw_induct [OF _ that], goal_cases)
    case (1 f S' p d t ps w y)
    obtain r w1 where o: "os_List S' p (list_options d t) w = (r, w1)" by fastforce
    show ?case
    proof (cases "\<exists>page. r = Inr page \<and> lp_NextToken page \<noteq> []")
      case True
      then obtain page where "r = Inr page" "lp_NextToken page \<noteq> []" by blast
      with 1(2) o have "f S' p d (lp_NextToken page) (ps @ [page]) w1 = Some y" by simp
      then have "P S' p d (lp_NextToken page) (ps @ [page]) w1 y" by (rule 1(1))
      with o assms(2) show ?thesis unfolding P_def by (meson transpD)
    next
      case False
      with 1(2) o have "snd y = w1" by (auto split: sum.splits if_splits)
      with o show ?thesis unfolding P_def by blast
    qed
  qed
  with assms(3) have "R w (snd y)" if "list_pages S prefix delimiter token pages w = Some y" for w y
    using that unfolding P_def by blast
  then show ?thesis by (force simp: run_rel_def)
qed

end
