(* ===== verification/Localfs_List.thy ===== *)
theory Localfs_List
  imports Localfs Go_Run
begin

text \<open>
  Listing the file-system store page by page, as the collector and the other callers of \<open>List\<close> do
  without a delimiter: the loop ends, and the pages together hold exactly the stored keys
  under the prefix, in order and once each. Injected failures may end it early, with their error.
\<close>

definition listable :: "string \<Rightarrow> string \<Rightarrow> bool" where
  "listable prefix k \<longleftrightarrow> \<not> has_suffix (base_name k) ''.meta'' \<and> \<not> has_prefix (base_name k) ''.'' \<and> has_prefix k prefix"

definition stored_under :: "lfs \<Rightarrow> string \<Rightarrow> string list" where
  "stored_under w prefix = filter (listable prefix) (map fst (lf_files w))"

text \<open>A cached listing of the current generation is right, and no key is empty.\<close>

definition cache_right :: "lfs \<Rightarrow> bool" where
  "cache_right w \<longleftrightarrow> mok (lf_files w) \<and> [] \<notin> set (map fst (lf_files w)) \<and>
     list_all (\<lambda>(p, (g, ks)). g = lf_listGen w \<longrightarrow> ks = stored_under w p) (lf_listCache w)"

text \<open>What a listing leaves as it was.\<close>

definition same_files :: "lfs \<Rightarrow> lfs \<Rightarrow> bool" where
  "same_files w w' \<longleftrightarrow> lf_files w' = lf_files w \<and> lf_listGen w' = lf_listGen w"

lemma same_files_simps [simp]:
  "same_files w w" "same_files w (w\<lparr>lf_metas := m\<rparr>)" "same_files w (w\<lparr>lf_faults := fs\<rparr>)"
  "same_files w (w\<lparr>lf_listCache := c\<rparr>)"
  by (simp_all add: same_files_def)

lemma same_files_trans: "same_files w w1 \<Longrightarrow> same_files w1 w2 \<Longrightarrow> same_files w w2"
  by (simp add: same_files_def)

lemma stored_same: "same_files w w' \<Longrightarrow> stored_under w' p = stored_under w p"
  by (simp add: same_files_def stored_under_def)

lemma stored_ascending: "mok (lf_files w) \<Longrightarrow> strictly_ascending (stored_under w p)"
  by (simp add: stored_under_def mok_def strictly_ascending_iff sorted_wrt_filter)

lemma collect_stored: "mok (lf_files w) \<Longrightarrow> collectKeys f p w = (if f = Some StWalk then Inl sys_err else Inr (stored_under w p))"
  using stored_ascending [of w p, THEN strictly_ascending_sorted]
  by (simp add: collectKeys_def stored_under_def listable_def [abs_def] sorted_sort_id)

lemma head_same:
  assumes "headLocked f k w = (r, w')"
  shows "same_files w w' \<and> lf_listCache w' = lf_listCache w \<and> (\<forall>md. r = Inr md \<longrightarrow> md_Key md = k)"
  using assms
  by (auto simp: headLocked_def healSidecar_def Let_def md_of_sidecar_def
      split: if_splits option.splits sidecar_read.splits sum.splits prod.splits)

lemma cached_right:
  assumes "cache_right w" "cachedKeys f p w = (r, w')"
  shows "cache_right w' \<and> same_files w w' \<and> (\<forall>ks. r = Inr ks \<longrightarrow> ks = stored_under w p)"
proof (cases "\<exists>ks. mget (lf_listCache w) p = Some (lf_listGen w, ks)")
  case True
  then obtain ks where ks: "mget (lf_listCache w) p = Some (lf_listGen w, ks)" by blast
  with assms(1) have "ks = stored_under w p"
    by (fastforce simp: cache_right_def list_all_iff dest!: map_of_SomeD)
  with ks assms show ?thesis by (auto simp: cachedKeys_def)
next
  case False
  have upd: "cache_right (w\<lparr>lf_listCache := mput p (lf_listGen w, stored_under w p) (lf_listCache w)\<rparr>)"
  proof -
    have "set (mput q v m) \<subseteq> insert (q, v) (set m)" for q :: string and v :: "nat \<times> string list" and m
      by (induction q v m rule: mput.induct) auto
    from this [of p "(lf_listGen w, stored_under w p)" "lf_listCache w"] assms(1) show ?thesis
      by (auto simp: cache_right_def list_all_iff stored_under_def dest!: subsetD)
  qed
  have ok: "mok (lf_files w)" using assms(1) by (simp add: cache_right_def)
  from False assms upd show ?thesis
    by (auto simp: cachedKeys_def collect_stored [OF ok] split: option.splits if_splits)
qed

lemma take_fault_right: "cache_right w \<Longrightarrow> take_fault w = (f, w') \<Longrightarrow> cache_right w' \<and> same_files w w'"
  by (auto simp: take_fault_def cache_right_def stored_under_def split: list.splits)

lemma cache_right_same: "cache_right w \<Longrightarrow> same_files w w' \<Longrightarrow> lf_listCache w' = lf_listCache w \<Longrightarrow> cache_right w'"
  by (simp add: cache_right_def same_files_def stored_under_def)

text \<open>One page takes keys from the front of what is left, at least one if there is a next page.\<close>

definition took :: "string list \<Rightarrow> ListPage \<Rightarrow> bool" where
  "took ks page \<longleftrightarrow> (\<exists>ys zs. ks = ys @ zs \<and> map md_Key (lp_Objects page) = ys \<and>
     (if lp_NextToken page = [] then zs = [] else ys \<noteq> [] \<and> lp_NextToken page = last ys))"

lemma list_loop_took:
  assumes "list_loop f prefix [] n ks page w = (r, w')" "[] \<notin> set ks" "lp_NextToken page = []"
  shows "same_files w w' \<and> lf_listCache w' = lf_listCache w \<and>
    (\<forall>page'. r = Inr page' \<longrightarrow> took (map md_Key (lp_Objects page) @ ks) page')"
  using assms
proof (induction ks arbitrary: page w)
  case Nil
  then show ?case by (auto simp: took_def)
next
  case (Cons k ks)
  obtain hr w1 where h: "headLocked f k w = (hr, w1)" by fastforce
  note hs = head_same [OF h]
  show ?case
  proof (cases hr)
    case (Inl e)
    with Cons.prems(1) h hs show ?thesis by auto
  next
    case (Inr md)
    let ?page = "page\<lparr>lp_Objects := lp_Objects page @ [md]\<rparr>"
    have md: "md_Key md = k" using hs Inr by blast
    show ?thesis
    proof (cases "page_len ?page \<ge> n")
      case True
      with Cons.prems h Inr have r: "r = Inr (?page\<lparr>lp_NextToken := k\<rparr>)" "w' = w1" by (auto simp: Let_def)
      have "took (map md_Key (lp_Objects page) @ k # ks) (?page\<lparr>lp_NextToken := k\<rparr>)"
        unfolding took_def using Cons.prems(2) md
        by (intro exI [of _ "map md_Key (lp_Objects page) @ [k]"] exI [of _ ks]) auto
      with r hs show ?thesis by simp
    next
      case False
      with Cons.prems h Inr have "list_loop f prefix [] n ks ?page w1 = (r, w')" by (auto simp: Let_def)
      from Cons.IH [OF this] Cons.prems hs md show ?thesis
        by (auto intro: same_files_trans)
    qed
  qed
qed

lemma lfs_List_took:
  assumes "cache_right w" "lfs_List prefix (list_options [] token) w = (r, w')"
  shows "cache_right w' \<and> same_files w w' \<and>
     (\<forall>page. r = Inr page \<longrightarrow> took (if token = [] then stored_under w prefix else dropWhile (\<lambda>k. k \<le> token) (stored_under w prefix)) page)"
proof -
  obtain f w1 where f: "take_fault w = (f, w1)" by fastforce
  have w1: "cache_right w1" "same_files w w1" using take_fault_right [OF assms(1) f] by blast+
  show ?thesis
  proof (cases "lf_closed w1 \<or> \<not> validatePrefix prefix")
    case True
    with assms(2) f have "w' = w1 \<and> (\<exists>e. r = Inl e)" by (auto simp: lfs_List_def checked_def split: if_splits)
    with w1 show ?thesis by auto
  next
    case False
    obtain cr w2 where c: "cachedKeys f prefix w1 = (cr, w2)" by fastforce
    have w2: "cache_right w2" "same_files w1 w2" "\<And>ks. cr = Inr ks \<Longrightarrow> ks = stored_under w prefix"
      using cached_right [OF w1(1) c] stored_same [OF w1(2)] by auto
    have s2: "same_files w w2" using w1(2) w2(2) by (rule same_files_trans)
    show ?thesis
    proof (cases cr)
      case (Inl e)
      with assms(2) f c False have "w' = w2 \<and> r = Inl e" by (simp add: lfs_List_def checked_def Let_def)
      with w2(1) s2 show ?thesis by simp
    next
      case (Inr ks)
      let ?ks = "if token = [] then stored_under w prefix else dropWhile (\<lambda>k. k \<le> token) (stored_under w prefix)"
      have loop: "list_loop f prefix [] 1000 ?ks empty_page w2 = (r, w')"
        using assms(2) f c False Inr w2(3) by (auto simp: lfs_List_def checked_def Let_def list_options_def split: if_splits)
      have "[] \<notin> set ?ks"
        using assms(1) by (auto simp: cache_right_def stored_under_def dest: set_dropWhileD)
      from list_loop_took [OF loop this] have
        "same_files w2 w' \<and> lf_listCache w' = lf_listCache w2 \<and> (\<forall>page. r = Inr page \<longrightarrow> took ?ks page)"
        by (simp add: empty_page_def)
      with w2(1) s2 show ?thesis by (blast intro: cache_right_same same_files_trans)
    qed
  qed
qed

lemma dropWhile_last:
  assumes "strictly_ascending (xs @ ys @ zs)" "ys \<noteq> []"
  shows "dropWhile (\<lambda>k. k \<le> last ys) (xs @ ys @ zs) = zs"
proof -
  have "\<forall>k \<in> set (xs @ ys). k \<le> last ys"
    using assms by (induction ys rule: rev_induct) (auto simp: strictly_ascending_iff sorted_wrt_append less_imp_le)
  moreover have "zs = [] \<or> \<not> hd zs \<le> last ys"
    using assms last_in_set [OF assms(2)]
    by (cases zs) (auto simp: strictly_ascending_iff sorted_wrt_append not_le)
  ultimately show ?thesis
    using dropWhile_append2 [of "xs @ ys" "\<lambda>k. k \<le> last ys" zs] by (cases zs) auto
qed

lemma list_pages_from:
  assumes "cache_right w" "stored_under w prefix = done @ left" "page_keys pages = done"
    "if token = [] then done = [] else done \<noteq> [] \<and> token = last done"
  shows "\<exists>r w'. list_pages localfs prefix [] token pages w = Some (r, w') \<and>
     (\<forall>ps. r = Inr ps \<longrightarrow> page_keys ps = stored_under w prefix)"
  using assms
proof (induction "length left" arbitrary: "done" left token pages w rule: less_induct)
  case less
  obtain r w1 where l: "lfs_List prefix (list_options [] token) w = (r, w1)" by fastforce
  note t = lfs_List_took [OF less.prems(1) l]
  have asc: "strictly_ascending (done @ left)"
    using stored_ascending [of w prefix] less.prems(1,2) by (simp add: cache_right_def)
  have left: "(if token = [] then stored_under w prefix else dropWhile (\<lambda>k. k \<le> token) (stored_under w prefix)) = left"
    using less.prems(2,4) dropWhile_last [of "[]" "done" left] asc by (auto split: if_splits)
  show ?case
  proof (cases r)
    case (Inl e)
    with l show ?thesis by (subst list_pages.simps) (simp add: localfs_def)
  next
    case (Inr page)
    with t left obtain ys zs where p: "left = ys @ zs" "map md_Key (lp_Objects page) = ys"
        "if lp_NextToken page = [] then zs = [] else ys \<noteq> [] \<and> lp_NextToken page = last ys"
      unfolding took_def by auto
    show ?thesis
    proof (cases "lp_NextToken page = []")
      case True
      with l Inr p less.prems(2,3) show ?thesis
        by (subst list_pages.simps) (simp add: localfs_def page_keys_def)
    next
      case False
      have st: "stored_under w1 prefix = stored_under w prefix" using t stored_same by blast
      have "\<exists>r w'. list_pages localfs prefix [] (lp_NextToken page) (pages @ [page]) w1 = Some (r, w') \<and>
          (\<forall>ps. r = Inr ps \<longrightarrow> page_keys ps = stored_under w1 prefix)"
        by (rule less.hyps [of zs _ "done @ ys"]) (use False p less.prems(2,3) t st in \<open>auto simp: page_keys_def\<close>)
      with l Inr False st show ?thesis by (subst list_pages.simps) (simp add: localfs_def)
    qed
  qed
qed



section \<open>A failed delete\<close>

lemma list_loop_missing:
  assumes "k \<in> set ks" "mget (lf_files w) k = None" "page_len page + int (length ks) \<le> n"
  shows "\<exists>e. fst (list_loop f prefix [] n ks page w) = Inl e"
  using assms
proof (induction ks arbitrary: page w)
  case (Cons x ks)
  obtain hr w1 where h: "headLocked f x w = (hr, w1)" by fastforce
  have files: "lf_files w1 = lf_files w" using head_same [OF h] by (simp add: same_files_def)
  show ?case
  proof (cases "\<exists>e. hr = Inl e")
    case True
    with h show ?thesis by auto
  next
    case False
    then obtain md where md: "hr = Inr md" by (cases hr) auto
    with h Cons.prems(1,2) have k: "k \<in> set ks"
      by (auto simp: headLocked_def split: if_splits)
    let ?page = "page\<lparr>lp_Objects := lp_Objects page @ [md]\<rparr>"
    have len: "page_len ?page = page_len page + 1" by (simp add: page_len_def)
    have "ks \<noteq> []" using k by auto
    with Cons.prems(3) len have "\<not> page_len ?page \<ge> n" "page_len ?page + int (length ks) \<le> n"
      by (cases ks; simp)+
    with Cons.IH [of w1 ?page] k files Cons.prems(2) h md show ?thesis by (simp add: Let_def)
  qed
qed simp

lemma delete_keeps_cache:
  assumes "lfs_DeleteIfVersionMatches key ev w = (Inl e, w1)"
  shows "lf_listGen w1 = lf_listGen w \<and> lf_listCache w1 = lf_listCache w"
proof -
  obtain f w0 where f: "take_fault w = (f, w0)" by fastforce
  obtain hr w2 where h: "headLocked f key w0 = (hr, w2)" by fastforce
  have "lf_listGen w0 = lf_listGen w" "lf_listCache w0 = lf_listCache w"
    using f by (auto simp: take_fault_def split: list.splits)
  moreover have "lf_listGen w2 = lf_listGen w0" "lf_listCache w2 = lf_listCache w0"
    using head_same [OF h] by (simp_all add: same_files_def)
  ultimately show ?thesis
    using assms by (auto simp: lfs_DeleteIfVersionMatches_def checked_def f h Let_def split: if_splits option.splits sum.splits)
qed


definition torn_delete :: lfs where
  "torn_delete = \<lparr>lf_files = [(''a'', (''x'', zero_time))],
     lf_metas = [(''a'', print_compact (js_struct
       [(''version'', Some (js_int 1)), (''sha256'', Some (js_string ''00'')), (''size'', Some (js_int 1))]))],
     lf_dirs = [], lf_listGen = 3,
     lf_listCache = [([], (3, [''a'']))], lf_closed = False, lf_clock = zero_time, lf_faults = [Some StFsyncRemove]\<rparr>"


end
