(* ===== verification/Gc_Records.thy ===== *)
theory Gc_Records
  imports Manifest_Body
begin

text \<open>
  The records a collection leaves in the bucket (\<open>internal/gc/marks\<close> and \<open>internal/gc/sweeps\<close>) with
  their JSON form, and the arithmetic of times the collector needs. The Go types of the
  candidates for transaction records, indexes, bundles and markers have the same fields and are
  one record here.
\<close>

section \<open>Times and durations\<close>

text \<open>Days from the start of year 0 of the proleptic calendar, and nanoseconds of an instant.\<close>

definition days_before_year :: "nat \<Rightarrow> int" where
  "days_before_year y = 365 * int y + int ((y + 3) div 4) - int ((y + 99) div 100) + int ((y + 399) div 400)"

definition days_before_month :: "nat \<Rightarrow> nat \<Rightarrow> int" where
  "days_before_month m y = sum_list (map (\<lambda>i. int (days_in i y)) [1..<m])"

definition time_ns :: "gotime \<Rightarrow> int" where
  "time_ns t =
     (((days_before_year (year t) + days_before_month (month t) (year t) + int (day t) - 1) * 1440
       + int (hour t) * 60 + int (minute t) - zone t) * 60 + int (second t)) * 1000000000 + int (nanos t)"

text \<open>\<open>Time.Sub\<close>, which saturates at the bounds of a duration.\<close>

definition time_Sub :: "gotime \<Rightarrow> gotime \<Rightarrow> int" where
  "time_Sub t u = sat64 (time_ns t - time_ns u)"

text \<open>\<open>Time.UTC\<close>: the same instant on the wall clock of zone 0, at most one day away.\<close>

definition next_day :: "gotime \<Rightarrow> gotime" where
  "next_day t =
     (if day t < days_in (month t) (year t) then t\<lparr>day := day t + 1\<rparr>
      else if month t < 12 then t\<lparr>month := month t + 1, day := 1\<rparr>
      else t\<lparr>year := year t + 1, month := 1, day := 1\<rparr>)"

definition prev_day :: "gotime \<Rightarrow> gotime" where
  "prev_day t =
     (if 1 < day t then t\<lparr>day := day t - 1\<rparr>
      else if 1 < month t then t\<lparr>month := month t - 1, day := days_in (month t - 1) (year t)\<rparr>
      else t\<lparr>year := year t - 1, month := 12, day := 31\<rparr>)"

definition to_utc :: "gotime \<Rightarrow> gotime" where
  "to_utc t =
     (let mins = int (hour t) * 60 + int (minute t) - zone t;
          t' = (if mins < 0 then prev_day t else if 1440 \<le> mins then next_day t else t);
          mins' = nat (mins mod 1440) in
      t'\<lparr>hour := mins' div 60, minute := mins' mod 60, zone := 0\<rparr>)"

section \<open>Mark records\<close>

record Candidate =
  ca_Key :: string
  ca_FirstSeenUnreachableAt :: gotime

record PackCandidate =
  pc_Key :: string
  pc_FirstSeenUnreachableAt :: gotime
  pc_LastSeenReachableAt :: "gotime option"
  pc_MarkManifestVersion :: "64 word"

record Candidates =
  cd_TxRecords :: "Candidate list"
  cd_CanonicalPacks :: "PackCandidate list"
  cd_Indexes :: "Candidate list"
  cd_Bundles :: "Candidate list"
  cd_OrphanMarkers :: "Candidate list"

record MarkRecord =
  mk_SchemaVersion :: int
  mk_MarkID :: string
  mk_PreviousMarkID :: string
  mk_StartedAt :: gotime
  mk_CompletedAt :: gotime
  mk_CurrentManifestVersion :: "64 word"
  mk_CurrentManifestObjectVersion :: string
  mk_RetentionSeconds :: int
  mk_TxOrphanSweepArmed :: bool
  mk_Candidates :: Candidates

definition marks_SchemaVersion :: int where "marks_SchemaVersion = 1"

definition zero_candidate :: Candidate where
  "zero_candidate = \<lparr>ca_Key = [], ca_FirstSeenUnreachableAt = zero_time\<rparr>"

definition zero_pack_candidate :: PackCandidate where
  "zero_pack_candidate = \<lparr>pc_Key = [], pc_FirstSeenUnreachableAt = zero_time, pc_LastSeenReachableAt = None,
     pc_MarkManifestVersion = 0\<rparr>"

definition zero_candidates :: Candidates where
  "zero_candidates = \<lparr>cd_TxRecords = [], cd_CanonicalPacks = [], cd_Indexes = [], cd_Bundles = [], cd_OrphanMarkers = []\<rparr>"

definition zero_mark :: MarkRecord where
  "zero_mark = \<lparr>mk_SchemaVersion = 0, mk_MarkID = [], mk_PreviousMarkID = [], mk_StartedAt = zero_time,
     mk_CompletedAt = zero_time, mk_CurrentManifestVersion = 0, mk_CurrentManifestObjectVersion = [],
     mk_RetentionSeconds = 0, mk_TxOrphanSweepArmed = False, mk_Candidates = zero_candidates\<rparr>"

definition js_candidate :: "Candidate \<Rightarrow> json" where
  "js_candidate c = js_struct
     [(''key'', Some (js_string (ca_Key c))),
      (''first_seen_unreachable_at'', Some (js_time (ca_FirstSeenUnreachableAt c)))]"

definition js_pack_candidate :: "PackCandidate \<Rightarrow> json" where
  "js_pack_candidate c = js_struct
     [(''key'', Some (js_string (pc_Key c))),
      (''first_seen_unreachable_at'', Some (js_time (pc_FirstSeenUnreachableAt c))),
      (''last_seen_reachable_at'', map_option js_time (pc_LastSeenReachableAt c)),
      (''mark_manifest_version'', Some (js_nat (unat (pc_MarkManifestVersion c))))]"

definition js_candidates :: "Candidates \<Rightarrow> json" where
  "js_candidates c = js_struct
     [(''tx_records'', Some (JArr (map js_candidate (cd_TxRecords c)))),
      (''canonical_packs'', Some (JArr (map js_pack_candidate (cd_CanonicalPacks c)))),
      (''indexes'', Some (JArr (map js_candidate (cd_Indexes c)))),
      (''bundles'', Some (JArr (map js_candidate (cd_Bundles c)))),
      (''orphan_markers'', Some (JArr (map js_candidate (cd_OrphanMarkers c))))]"

definition js_mark :: "MarkRecord \<Rightarrow> json" where
  "js_mark m = js_struct
     [(''schema_version'', Some (js_int (mk_SchemaVersion m))),
      (''mark_id'', Some (js_string (mk_MarkID m))),
      (''previous_mark_id'', Some (if mk_PreviousMarkID m = [] then JNull else js_string (mk_PreviousMarkID m))),
      (''started_at'', Some (js_time (mk_StartedAt m))),
      (''completed_at'', Some (js_time (mk_CompletedAt m))),
      (''current_manifest_version'', Some (js_nat (unat (mk_CurrentManifestVersion m)))),
      (''current_manifest_object_version'', Some (js_string (mk_CurrentManifestObjectVersion m))),
      (''retention_seconds'', Some (js_int (mk_RetentionSeconds m))),
      (''tx_orphan_sweep_armed'', Some (JBool (mk_TxOrphanSweepArmed m))),
      (''candidates'', Some (js_candidates (mk_Candidates m)))]"

text \<open>Marshalling fails when a time of the record does.\<close>

definition candidates_times :: "Candidates \<Rightarrow> gotime list" where
  "candidates_times c =
     map ca_FirstSeenUnreachableAt (cd_TxRecords c @ cd_Indexes c @ cd_Bundles c @ cd_OrphanMarkers c)
     @ map pc_FirstSeenUnreachableAt (cd_CanonicalPacks c)
     @ List.map_filter pc_LastSeenReachableAt (cd_CanonicalPacks c)"

definition mark_MarshalJSON :: "MarkRecord \<Rightarrow> string option" where
  "mark_MarshalJSON m =
     (if time_marshals (mk_StartedAt m) \<and> time_marshals (mk_CompletedAt m)
         \<and> list_all time_marshals (candidates_times (mk_Candidates m))
      then Some (print_indent (js_mark m)) else None)"

definition dec_candidate_field :: "string \<Rightarrow> json \<Rightarrow> Candidate \<Rightarrow> Candidate option" where
  "dec_candidate_field n j c =
     (if n = ''key'' then map_option (\<lambda>x. c\<lparr>ca_Key := x\<rparr>) (dec_string j (ca_Key c))
      else map_option (\<lambda>x. c\<lparr>ca_FirstSeenUnreachableAt := x\<rparr>) (dec_time j (ca_FirstSeenUnreachableAt c)))"

definition dec_candidate :: "json \<Rightarrow> Candidate \<Rightarrow> Candidate option" where
  "dec_candidate = dec_struct [''key'', ''first_seen_unreachable_at''] dec_candidate_field"

definition dec_pack_candidate_field :: "string \<Rightarrow> json \<Rightarrow> PackCandidate \<Rightarrow> PackCandidate option" where
  "dec_pack_candidate_field n j c =
     (if n = ''key'' then map_option (\<lambda>x. c\<lparr>pc_Key := x\<rparr>) (dec_string j (pc_Key c))
      else if n = ''first_seen_unreachable_at'' then
        map_option (\<lambda>x. c\<lparr>pc_FirstSeenUnreachableAt := x\<rparr>) (dec_time j (pc_FirstSeenUnreachableAt c))
      else if n = ''last_seen_reachable_at'' then
        map_option (\<lambda>x. c\<lparr>pc_LastSeenReachableAt := x\<rparr>) (dec_ptr dec_time zero_time j (pc_LastSeenReachableAt c))
      else map_option (\<lambda>x. c\<lparr>pc_MarkManifestVersion := of_nat x\<rparr>) (dec_uint 64 j (unat (pc_MarkManifestVersion c))))"

definition dec_pack_candidate :: "json \<Rightarrow> PackCandidate \<Rightarrow> PackCandidate option" where
  "dec_pack_candidate = dec_struct [''key'', ''first_seen_unreachable_at'', ''last_seen_reachable_at'',
     ''mark_manifest_version''] dec_pack_candidate_field"

definition dec_candidate_list :: "json \<Rightarrow> Candidate list option" where
  "dec_candidate_list = dec_slice (\<lambda>x. dec_candidate x zero_candidate)"

definition dec_candidates_field :: "string \<Rightarrow> json \<Rightarrow> Candidates \<Rightarrow> Candidates option" where
  "dec_candidates_field n j c =
     (if n = ''tx_records'' then map_option (\<lambda>x. c\<lparr>cd_TxRecords := x\<rparr>) (dec_candidate_list j)
      else if n = ''canonical_packs'' then
        map_option (\<lambda>x. c\<lparr>cd_CanonicalPacks := x\<rparr>) (dec_slice (\<lambda>x. dec_pack_candidate x zero_pack_candidate) j)
      else if n = ''indexes'' then map_option (\<lambda>x. c\<lparr>cd_Indexes := x\<rparr>) (dec_candidate_list j)
      else if n = ''bundles'' then map_option (\<lambda>x. c\<lparr>cd_Bundles := x\<rparr>) (dec_candidate_list j)
      else map_option (\<lambda>x. c\<lparr>cd_OrphanMarkers := x\<rparr>) (dec_candidate_list j))"

definition dec_candidates :: "json \<Rightarrow> Candidates \<Rightarrow> Candidates option" where
  "dec_candidates = dec_struct [''tx_records'', ''canonical_packs'', ''indexes'', ''bundles'', ''orphan_markers'']
     dec_candidates_field"

definition markKeys :: "string list" where
  "markKeys = [''schema_version'', ''mark_id'', ''previous_mark_id'', ''started_at'', ''completed_at'',
     ''current_manifest_version'', ''current_manifest_object_version'', ''retention_seconds'',
     ''tx_orphan_sweep_armed'', ''candidates'']"

text \<open>The pointer of the previous id is nil for null, and the record then has the empty id.\<close>

definition dec_mark_field :: "string \<Rightarrow> json \<Rightarrow> MarkRecord \<Rightarrow> MarkRecord option" where
  "dec_mark_field n j m =
     (if n = ''schema_version'' then map_option (\<lambda>x. m\<lparr>mk_SchemaVersion := x\<rparr>) (dec_int 64 j (mk_SchemaVersion m))
      else if n = ''mark_id'' then map_option (\<lambda>x. m\<lparr>mk_MarkID := x\<rparr>) (dec_string j (mk_MarkID m))
      else if n = ''previous_mark_id'' then
        (if j = JNull then Some (m\<lparr>mk_PreviousMarkID := []\<rparr>)
         else map_option (\<lambda>x. m\<lparr>mk_PreviousMarkID := x\<rparr>) (dec_string j (mk_PreviousMarkID m)))
      else if n = ''started_at'' then map_option (\<lambda>x. m\<lparr>mk_StartedAt := x\<rparr>) (dec_time j (mk_StartedAt m))
      else if n = ''completed_at'' then map_option (\<lambda>x. m\<lparr>mk_CompletedAt := x\<rparr>) (dec_time j (mk_CompletedAt m))
      else if n = ''current_manifest_version'' then
        map_option (\<lambda>x. m\<lparr>mk_CurrentManifestVersion := of_nat x\<rparr>) (dec_uint 64 j (unat (mk_CurrentManifestVersion m)))
      else if n = ''current_manifest_object_version'' then
        map_option (\<lambda>x. m\<lparr>mk_CurrentManifestObjectVersion := x\<rparr>) (dec_string j (mk_CurrentManifestObjectVersion m))
      else if n = ''retention_seconds'' then
        map_option (\<lambda>x. m\<lparr>mk_RetentionSeconds := x\<rparr>) (dec_int 64 j (mk_RetentionSeconds m))
      else if n = ''tx_orphan_sweep_armed'' then
        map_option (\<lambda>x. m\<lparr>mk_TxOrphanSweepArmed := x\<rparr>) (dec_bool j (mk_TxOrphanSweepArmed m))
      else map_option (\<lambda>x. m\<lparr>mk_Candidates := x\<rparr>) (dec_candidates j (mk_Candidates m)))"

definition dec_mark :: "json \<Rightarrow> MarkRecord option" where
  "dec_mark j = dec_struct markKeys dec_mark_field j zero_mark"

definition mark_UnmarshalJSON :: "string \<Rightarrow> MarkRecord option" where
  "mark_UnmarshalJSON s = (case json_parse s of None \<Rightarrow> None | Some j \<Rightarrow> dec_mark j)"

section \<open>Sweep records\<close>

record Deleted =
  dl_TxRecords :: "string list"
  dl_CanonicalPacks :: "string list"
  dl_Indexes :: "string list"
  dl_ReachabilityDeltas :: "string list"
  dl_Bundles :: "string list"
  dl_OrphanMarkers :: "string list"

record SkippedEntry =
  sk_Key :: string
  sk_Category :: string
  sk_Reason :: string

record ErrorEntry =
  ee_Key :: string
  ee_Category :: string
  ee_Error :: storage_error

record SweepRecord =
  sr_SchemaVersion :: int
  sr_SweepID :: string
  sr_MarkID :: string
  sr_StartedAt :: gotime
  sr_CompletedAt :: gotime
  sr_CurrentManifestVersion :: "64 word"
  sr_CurrentManifestObjectVersion :: string
  sr_Deleted :: Deleted
  sr_Skipped :: "SkippedEntry list"
  sr_Errors :: "ErrorEntry list"

definition sweeps_SchemaVersion :: int where "sweeps_SchemaVersion = 1"

definition zero_deleted :: Deleted where
  "zero_deleted = \<lparr>dl_TxRecords = [], dl_CanonicalPacks = [], dl_Indexes = [], dl_ReachabilityDeltas = [],
     dl_Bundles = [], dl_OrphanMarkers = []\<rparr>"

definition js_keys :: "string list \<Rightarrow> json" where
  "js_keys ks = JArr (map js_string ks)"

definition js_deleted :: "Deleted \<Rightarrow> json" where
  "js_deleted d = js_struct
     [(''tx_records'', Some (js_keys (dl_TxRecords d))), (''canonical_packs'', Some (js_keys (dl_CanonicalPacks d))),
      (''indexes'', Some (js_keys (dl_Indexes d))), (''reachability_deltas'', Some (js_keys (dl_ReachabilityDeltas d))),
      (''bundles'', Some (js_keys (dl_Bundles d))), (''orphan_markers'', Some (js_keys (dl_OrphanMarkers d)))]"

definition js_skipped :: "SkippedEntry \<Rightarrow> json" where
  "js_skipped e = js_struct
     [(''key'', Some (js_string (sk_Key e))), (''category'', Some (js_string (sk_Category e))),
      (''reason'', Some (js_string (sk_Reason e)))]"

text \<open>\<open>text\<close> is what an adapter's error prints as.\<close>

definition js_error_entry :: "(storage_error \<Rightarrow> string) \<Rightarrow> ErrorEntry \<Rightarrow> json" where
  "js_error_entry text e = js_struct
     [(''key'', Some (js_string (ee_Key e))), (''category'', Some (js_string (ee_Category e))),
      (''error'', Some (js_string (text (ee_Error e))))]"

definition js_sweep :: "(storage_error \<Rightarrow> string) \<Rightarrow> SweepRecord \<Rightarrow> json" where
  "js_sweep text r = js_struct
     [(''schema_version'', Some (js_int (sr_SchemaVersion r))), (''sweep_id'', Some (js_string (sr_SweepID r))),
      (''mark_id'', Some (js_string (sr_MarkID r))), (''started_at'', Some (js_time (sr_StartedAt r))),
      (''completed_at'', Some (js_time (sr_CompletedAt r))),
      (''current_manifest_version'', Some (js_nat (unat (sr_CurrentManifestVersion r)))),
      (''current_manifest_object_version'', Some (js_string (sr_CurrentManifestObjectVersion r))),
      (''deleted'', Some (js_deleted (sr_Deleted r))),
      (''skipped'', Some (JArr (map js_skipped (sr_Skipped r)))),
      (''errors'', Some (JArr (map (js_error_entry text) (sr_Errors r))))]"

definition sweep_MarshalJSON :: "(storage_error \<Rightarrow> string) \<Rightarrow> SweepRecord \<Rightarrow> string option" where
  "sweep_MarshalJSON text r =
     (if time_marshals (sr_StartedAt r) \<and> time_marshals (sr_CompletedAt r)
      then Some (print_indent (js_sweep text r)) else None)"

section \<open>Mark records come back\<close>

definition wf_candidate :: "Candidate \<Rightarrow> bool" where
  "wf_candidate c \<longleftrightarrow> valid_utf8 (ca_Key c) \<and> wf_time (ca_FirstSeenUnreachableAt c)"

definition wf_pack_candidate :: "PackCandidate \<Rightarrow> bool" where
  "wf_pack_candidate c \<longleftrightarrow> valid_utf8 (pc_Key c) \<and> wf_time (pc_FirstSeenUnreachableAt c) \<and>
     pred_option wf_time (pc_LastSeenReachableAt c)"

definition wf_candidates :: "Candidates \<Rightarrow> bool" where
  "wf_candidates c \<longleftrightarrow> list_all wf_candidate (cd_TxRecords c) \<and> list_all wf_pack_candidate (cd_CanonicalPacks c) \<and>
     list_all wf_candidate (cd_Indexes c) \<and> list_all wf_candidate (cd_Bundles c) \<and> list_all wf_candidate (cd_OrphanMarkers c)"

definition wf_mark :: "MarkRecord \<Rightarrow> bool" where
  "wf_mark m \<longleftrightarrow> int64 (mk_SchemaVersion m) \<and> valid_utf8 (mk_MarkID m) \<and> valid_utf8 (mk_PreviousMarkID m) \<and>
     wf_time (mk_StartedAt m) \<and> wf_time (mk_CompletedAt m) \<and> valid_utf8 (mk_CurrentManifestObjectVersion m) \<and>
     int64 (mk_RetentionSeconds m) \<and> wf_candidates (mk_Candidates m)"

lemma mark_names_valid:
  "list_all valid_utf8 [''schema_version'', ''mark_id'', ''previous_mark_id'', ''started_at'', ''completed_at'',
     ''current_manifest_version'', ''current_manifest_object_version'', ''retention_seconds'',
     ''tx_orphan_sweep_armed'', ''candidates'', ''tx_records'', ''canonical_packs'', ''indexes'', ''bundles'',
     ''orphan_markers'', ''key'', ''first_seen_unreachable_at'', ''last_seen_reachable_at'', ''mark_manifest_version'']"
  by (simp add: ascii_valid)

lemmas mark_names_ok = mark_names_valid [unfolded list.pred_inject simp_thms]

lemma candidate_codec: "wf_candidate c \<Longrightarrow> codec js_candidate (\<lambda>j. dec_candidate j zero_candidate) c"
  unfolding dec_candidate_def
  by (rule codec_struct, rule js_candidate_def)
     (auto simp: mark_names_ok wf_candidate_def dec_candidate_field_def zero_candidate_def)

lemma dec_ptr_time: "wf_time t \<Longrightarrow> dec_ptr dec_time zero_time (js_time t) None = Some (Some t)"
  by (simp add: dec_ptr_def js_time_def dec_time_def parse_format_time)

lemma pack_candidate_codec:
  "wf_pack_candidate c \<Longrightarrow> codec js_pack_candidate (\<lambda>j. dec_pack_candidate j zero_pack_candidate) c"
  unfolding dec_pack_candidate_def
  by (rule codec_struct, rule js_pack_candidate_def)
     (use unat_lt_pow [of "pc_MarkManifestVersion c"] in
       \<open>auto simp: mark_names_ok wf_pack_candidate_def dec_pack_candidate_field_def zero_pack_candidate_def dec_ptr_time
         split: option.splits\<close>)

lemma candidate_list_codec:
  "list_all wf_candidate cs \<Longrightarrow> codec (\<lambda>xs. JArr (map js_candidate xs)) dec_candidate_list cs"
  unfolding dec_candidate_list_def by (rule codec_slice) (auto simp: list_all_iff intro: candidate_codec)

lemma candidates_codec:
  assumes "wf_candidates c"
  shows "codec js_candidates (\<lambda>j. dec_candidates j zero_candidates) c"
proof -
  have l: "list_all wf_candidate cs \<Longrightarrow> (\<forall>x \<in> set cs. wf_json (js_candidate x) \<and> jesc (js_candidate x) = js_candidate x) \<and>
      dec_candidate_list (JArr (map js_candidate cs)) = Some cs" for cs
    using candidate_list_codec [of cs] by (auto simp: codec_def)
  have p: "(\<forall>x \<in> set (cd_CanonicalPacks c). wf_json (js_pack_candidate x) \<and> jesc (js_pack_candidate x) = js_pack_candidate x) \<and>
      dec_slice (\<lambda>x. dec_pack_candidate x zero_pack_candidate) (JArr (map js_pack_candidate (cd_CanonicalPacks c)))
        = Some (cd_CanonicalPacks c)"
    using assms codec_slice [of "cd_CanonicalPacks c" js_pack_candidate] pack_candidate_codec
    by (auto simp: codec_def wf_candidates_def list_all_iff)
  show ?thesis
    unfolding dec_candidates_def
    by (rule codec_struct, rule js_candidates_def)
       (use assms l p in \<open>auto simp: mark_names_ok wf_candidates_def dec_candidates_field_def zero_candidates_def\<close>)
qed

lemma js_string_not_null [simp]: "js_string s \<noteq> JNull"
  by (simp add: js_string_def)

lemma mark_codec:
  assumes "wf_mark m"
  shows "codec js_mark dec_mark m"
proof -
  have c: "wf_json (js_candidates (mk_Candidates m))" "jesc (js_candidates (mk_Candidates m)) = js_candidates (mk_Candidates m)"
      "dec_candidates (js_candidates (mk_Candidates m)) zero_candidates = Some (mk_Candidates m)"
    using assms candidates_codec by (auto simp: codec_def wf_mark_def)
  show ?thesis
    unfolding dec_mark_def
    by (rule codec_struct, rule js_mark_def)
       (use assms c unat_lt_pow [of "mk_CurrentManifestVersion m"] in
         \<open>auto simp: mark_names_ok markKeys_def wf_mark_def dec_mark_field_def zero_mark_def dec_int64 dec_bool_def\<close>)
qed

lemma wf_time_marshals: "wf_time t \<Longrightarrow> time_marshals t"
  by (simp add: wf_time_def time_marshals_def)

lemma mark_marshals: "wf_mark m \<Longrightarrow> mark_MarshalJSON m = Some (print_indent (js_mark m))"
  by (fastforce simp: mark_MarshalJSON_def wf_mark_def wf_candidates_def candidates_times_def list_all_iff wf_candidate_def
      wf_pack_candidate_def List.map_filter_def intro: wf_time_marshals)

text \<open>C31: a mark record whose strings are UTF-8 and whose times are calendar times is written, and
  reading what was written gives the record back, empty previous id and absent last-reachable
  times included.\<close>

theorem mark_roundtrip:
  assumes "wf_mark m"
  shows "\<exists>s. mark_MarshalJSON m = Some s \<and> mark_UnmarshalJSON s = Some m"
  using mark_codec [OF assms] json_parse_indent [of "js_mark m"] mark_marshals [OF assms]
  by (auto simp: mark_UnmarshalJSON_def codec_def)

definition sample_mark :: MarkRecord where
  "sample_mark = zero_mark\<lparr>mk_MarkID := ''mk_01'', mk_RetentionSeconds := 604800, mk_Candidates :=
     zero_candidates\<lparr>cd_CanonicalPacks := [zero_pack_candidate\<lparr>pc_Key := ''p'', pc_LastSeenReachableAt := Some zero_time\<rparr>]\<rparr>\<rparr>"

theorem mark_roundtrip_witness:
  "wf_mark sample_mark \<and> (\<exists>s. mark_MarshalJSON sample_mark = Some s \<and> mark_UnmarshalJSON s = Some sample_mark)"
proof -
  have "wf_time zero_time" by (simp add: wf_time_def zero_time_def days_in_def)
  then have "wf_mark sample_mark"
    by (simp add: sample_mark_def wf_mark_def zero_mark_def zero_candidates_def zero_pack_candidate_def wf_candidates_def
        wf_pack_candidate_def int64_def ascii_valid del: valid_utf8.simps(2))
  with mark_roundtrip [of sample_mark] show ?thesis by blast
qed

end
