(* ===== verification/Gc.thy ===== *)
theory Gc
  imports Gc_Records Go_Run Repo_Engine "HOL-Library.Product_Lexorder"
begin

text \<open>
  The garbage collector (\<open>internal/gc\<close>): the live set of a manifest, the discovery of objects
  outside it, the mark phase that records them, the sweep phase that deletes those unreachable
  for longer than the retention, the pruning of old mark records, and a whole run. Log lines and
  the warning text of a short retention are not modelled. A clock reading, a ULID and the store are the
  environment of the repository engine; \<open>text\<close> is what an adapter's error prints as.
\<close>

section \<open>Errors and constants\<close>

datatype gc_error =
    ErrInvalidPhaseCombo | ErrNoMarkForSweep | GcRetention int | GcKeys id_error | GcRepo repo_error
  | GcStorage storage_error | ErrMarksNotFound | GcReadMark | GcParseMark | GcMarshal

definition second_ns :: int where "second_ns = 1000000000"

definition DefaultRetention :: int where "DefaultRetention = 7 * 24 * 3600 * second_ns"

definition MinRetention :: int where "MinRetention = 4 * 3600 * second_ns"

definition RetentionWarnThreshold :: int where "RetentionWarnThreshold = 24 * 3600 * second_ns"

definition ShouldWarnRetention :: "int \<Rightarrow> bool" where
  "ShouldWarnRetention d \<longleftrightarrow> d < RetentionWarnThreshold"

definition DefaultMarkRecordRetention :: int where "DefaultMarkRecordRetention = 10"

text \<open>\<open>int(d.Seconds())\<close> of a duration that is not negative: whole seconds plus the fraction
  as a quotient, both in double precision (53 significant bits, ties to even), truncated. Numbers are
  scaled by \<open>2 ^ 82\<close>.\<close>

fun bit_len :: "nat \<Rightarrow> nat" where
  "bit_len n = (if n = 0 then 0 else Suc (bit_len (n div 2)))"

declare bit_len.simps [simp del]

definition div_even :: "nat \<Rightarrow> nat \<Rightarrow> nat" where
  "div_even a b = (let q = a div b; r = a mod b in if 2 * r < b \<or> (2 * r = b \<and> even q) then q else q + 1)"

definition seconds_frac :: "nat \<Rightarrow> nat" where
  "seconds_frac nsec =
     (let n = nsec * 2 ^ 82; s = bit_len (n div 1000000000) - 53 in div_even n (1000000000 * 2 ^ s) * 2 ^ s)"

definition duration_seconds :: "int \<Rightarrow> int" where
  "duration_seconds d =
     (let sec = nat d div 1000000000; nsec = nat d mod 1000000000;
          n = sec * 2 ^ 82 + seconds_frac nsec;
          s = bit_len n - 53 in
      int (div_even n (2 ^ s) * 2 ^ s div 2 ^ 82))"

section \<open>The live set\<close>

definition nonempty_keys :: "string list \<Rightarrow> string list" where
  "nonempty_keys = filter (\<lambda>x. x \<noteq> [])"

definition body_keys :: "Body \<Rightarrow> string list" where
  "body_keys body = nonempty_keys
     (concat (map (\<lambda>p. [pk_PackKey p, pk_IdxKey p, pk_BitmapKey p]) (bd_Packs body))
      @ (case ix_ObjectMap (bd_Indexes body) of None \<Rightarrow> [] | Some r \<Rightarrow> [ir_Key r])
      @ (case ix_CommitGraph (bd_Indexes body) of None \<Rightarrow> [] | Some r \<Rightarrow> [ir_Key r])
      @ (case ix_Reachability (bd_Indexes body) of None \<Rightarrow> [] | Some r \<Rightarrow> map ir_Key (rr_Deltas r))
      @ concat (map (\<lambda>b. [be_BundleKey b, be_SidecarKey b]) (bd_Bundles body))
      @ map rs_Key (bd_RefShards body))"

definition header_keys :: "keys_repo \<Rightarrow> RootHeader \<Rightarrow> string list" where
  "header_keys k h = RootManifestKey k #
     (if rh_LatestTx h \<noteq> [] then [TxRecordKey k (rh_LatestTx h), CommitMarkerKey k (rh_LatestTx h)] else [])"

definition BuildLiveSet :: "keys_repo \<Rightarrow> RootHeader \<Rightarrow> string \<Rightarrow> string list \<times> repo_error option" where
  "BuildLiveSet k header bodyJSON =
     (let live = header_keys k header in
      if bodyJSON = [] then (live @ body_keys zero_body, None)
      else (case UnmarshalBody bodyJSON of
              Inl e \<Rightarrow> (live, Some e)
            | Inr body \<Rightarrow> (live @ body_keys body, None)))"

definition live_or_fail :: "string list \<times> repo_error option \<Rightarrow> gc_error + string list" where
  "live_or_fail r = (case snd r of Some e \<Rightarrow> Inl (GcRepo e) | None \<Rightarrow> Inr (fst r))"

section \<open>Discovery\<close>

definition list_all_keys :: "'w Env \<Rightarrow> string \<Rightarrow> ('w, gc_error, string list) run" where
  "list_all_keys E prefix =
     run_bind (run_err GcStorage (list_pages (env_store E) prefix [] [] [])) (\<lambda>pages. run_return (page_keys pages))"

definition listExcludingLive :: "'w Env \<Rightarrow> string \<Rightarrow> string list \<Rightarrow> ('w, gc_error, string list) run" where
  "listExcludingLive E prefix live =
     run_bind (list_all_keys E prefix) (\<lambda>ks. run_return (filter (\<lambda>x. x \<notin> set live) ks))"

definition DiscoverCanonicalPacks :: "'w Env \<Rightarrow> keys_repo \<Rightarrow> string list \<Rightarrow> ('w, gc_error, string list) run" where
  "DiscoverCanonicalPacks E k live = listExcludingLive E (kr_prefix k @ ''packs/canonical/'') live"

definition DiscoverIndexes :: "'w Env \<Rightarrow> keys_repo \<Rightarrow> string list \<Rightarrow> ('w, gc_error, string list) run" where
  "DiscoverIndexes E k live =
     run_loop (\<lambda>sub out. run_bind (listExcludingLive E (kr_prefix k @ ''indexes/'' @ sub) live)
                           (\<lambda>got. run_return (out @ got)))
       [''object-map/'', ''commit-graph/'', ''reachability/'', ''reachability-delta/''] []"

definition DiscoverBundles :: "'w Env \<Rightarrow> keys_repo \<Rightarrow> string list \<Rightarrow> ('w, gc_error, string list) run" where
  "DiscoverBundles E k live = listExcludingLive E (kr_prefix k @ ''bundles/'') live"

text \<open>The keys of a map of keys, sorted: what sorting after the iteration leaves.\<close>

definition sorted_keys :: "string list \<Rightarrow> string list" where
  "sorted_keys ks = sort (remdups ks)"

definition tx_markers :: "string \<Rightarrow> string list \<Rightarrow> string list" where
  "tx_markers prefix = filter (\<lambda>x. has_suffix (trim_prefix x prefix) ''.json.commit'')"

definition tx_records :: "string \<Rightarrow> string list \<Rightarrow> string list" where
  "tx_records prefix = filter (\<lambda>x. \<not> has_suffix (trim_prefix x prefix) ''.json.commit''
                                   \<and> has_suffix (trim_prefix x prefix) ''.json'')"

definition DiscoverTxRecords ::
  "'w Env \<Rightarrow> keys_repo \<Rightarrow> string list \<Rightarrow> ('w, gc_error, string list \<times> string list \<times> bool) run" where
  "DiscoverTxRecords E k live =
     (let prefix = kr_prefix k @ ''tx/'' in
      run_bind (list_all_keys E prefix) (\<lambda>ks.
        (let records = tx_records prefix ks; markers = tx_markers prefix ks in
         run_return
           (sorted_keys (filter (\<lambda>r. r \<notin> set live \<and> r @ ''.commit'' \<notin> set markers) records),
            sorted_keys (filter (\<lambda>m. trim_suffix m ''.commit'' \<notin> set records) markers),
            markers \<noteq> []))))"

section \<open>Mark records in the bucket\<close>

definition mark_ids :: "string \<Rightarrow> string list \<Rightarrow> string list" where
  "mark_ids prefix ks =
     filter (\<lambda>i. i \<noteq> [])
       (map (\<lambda>x. trim_suffix (trim_prefix x prefix) ''.json'')
         (filter (\<lambda>x. has_suffix (trim_prefix x prefix) ''.json'') ks))"

definition marks_List :: "'w Env \<Rightarrow> keys_repo \<Rightarrow> ('w, gc_error, string list) run" where
  "marks_List E k =
     (let prefix = kr_prefix k @ ''gc/marks/'' in
      run_bind (list_all_keys E prefix) (\<lambda>ks. run_return (rev (sort (mark_ids prefix ks)))))"

definition marks_ReadByID :: "'w Env \<Rightarrow> keys_repo \<Rightarrow> string \<Rightarrow> ('w, gc_error, MarkRecord) run" where
  "marks_ReadByID E k i =
     run_bind (run_err (\<lambda>e. if e = ErrNotFound then ErrMarksNotFound else GcStorage e)
                 (run_op (os_Get (env_store E) (GCMarkKey k i) None)))
       (\<lambda>obj. if obj_ReadErr obj then run_fail GcReadMark
              else (case mark_UnmarshalJSON (obj_Body obj) of
                      None \<Rightarrow> run_fail GcParseMark
                    | Some m \<Rightarrow> run_return m))"

definition marks_ReadLatest :: "'w Env \<Rightarrow> keys_repo \<Rightarrow> ('w, gc_error, MarkRecord) run" where
  "marks_ReadLatest E k =
     run_bind (marks_List E k) (\<lambda>ids. case ids of [] \<Rightarrow> run_fail ErrMarksNotFound | i # _ \<Rightarrow> marks_ReadByID E k i)"

definition marks_Write :: "'w Env \<Rightarrow> keys_repo \<Rightarrow> MarkRecord \<Rightarrow> ('w, gc_error, unit) run" where
  "marks_Write E k m =
     (case mark_MarshalJSON m of
        None \<Rightarrow> run_fail GcMarshal
      | Some b \<Rightarrow> run_bind (run_err GcStorage (run_op (os_PutIfAbsent (env_store E) (GCMarkKey k (mk_MarkID m)) b [])))
                    (\<lambda>_. run_return ()))"

definition sweeps_Write :: "(storage_error \<Rightarrow> string) \<Rightarrow> 'w Env \<Rightarrow> keys_repo \<Rightarrow> SweepRecord \<Rightarrow> ('w, gc_error, unit) run" where
  "sweeps_Write text E k r =
     (case sweep_MarshalJSON text r of
        None \<Rightarrow> run_fail GcMarshal
      | Some b \<Rightarrow> run_bind (run_err GcStorage (run_op (os_PutIfAbsent (env_store E) (GCSweepKey k (sr_SweepID r)) b [])))
                    (\<lambda>_. run_return ()))"

section \<open>The mark phase\<close>

definition now_utc :: "'w Env \<Rightarrow> ('w, gc_error, gotime) run" where
  "now_utc E = run_get (\<lambda>w. case env_now E w of (t, w1) \<Rightarrow> (to_utc t, w1))"

definition newMarkID :: "'w Env \<Rightarrow> ('w, gc_error, string) run" where
  "newMarkID E = run_get (\<lambda>w. case env_ulid E w of (u, w1) \<Rightarrow> (''mk_'' @ u, w1))"

definition newSweepID :: "'w Env \<Rightarrow> ('w, gc_error, string) run" where
  "newSweepID E = run_get (\<lambda>w. case env_ulid E w of (u, w1) \<Rightarrow> (''sw_'' @ u, w1))"

text \<open>A candidate of the previous mark is kept as it is; a new one is first seen now.\<close>

definition carry :: "gotime \<Rightarrow> Candidate list \<Rightarrow> string list \<Rightarrow> Candidate list" where
  "carry now prev ks =
     (let byKey = mput_all (map (\<lambda>c. (ca_Key c, c)) prev) [] in
      map (\<lambda>key. case mget byKey key of
                   Some old \<Rightarrow> old
                 | None \<Rightarrow> \<lparr>ca_Key = key, ca_FirstSeenUnreachableAt = now\<rparr>) ks)"

definition carry_packs ::
  "gotime \<Rightarrow> 64 word \<Rightarrow> gotime option \<Rightarrow> PackCandidate list \<Rightarrow> string list \<Rightarrow> PackCandidate list" where
  "carry_packs now ver lastReachable prev ks =
     (let byKey = mput_all (map (\<lambda>c. (pc_Key c, c)) prev) [] in
      map (\<lambda>key. case mget byKey key of
                   Some old \<Rightarrow> old
                 | None \<Rightarrow> \<lparr>pc_Key = key, pc_FirstSeenUnreachableAt = now, pc_LastSeenReachableAt = lastReachable,
                            pc_MarkManifestVersion = ver\<rparr>) ks)"

definition prev_candidates :: "MarkRecord option \<Rightarrow> Candidates" where
  "prev_candidates prev = (case prev of None \<Rightarrow> zero_candidates | Some m \<Rightarrow> mk_Candidates m)"

text \<open>The previous mark, none when there is no record.\<close>

definition previous_mark :: "'w Env \<Rightarrow> keys_repo \<Rightarrow> ('w, gc_error, MarkRecord option) run" where
  "previous_mark E k =
     run_try (marks_ReadLatest E k) (\<lambda>r. case r of
        Inr m \<Rightarrow> run_return (Some m)
      | Inl e \<Rightarrow> if e = ErrMarksNotFound then run_return None else run_fail e)"

definition new_mark ::
  "int \<Rightarrow> string \<Rightarrow> gotime \<Rightarrow> RootView \<Rightarrow> MarkRecord option \<Rightarrow> string list \<Rightarrow> string list \<Rightarrow>
   string list \<times> string list \<times> bool \<Rightarrow> string list \<Rightarrow> MarkRecord" where
  "new_mark retentionSeconds markID startedAt view prev packs indexes txs bundles =
     (let (txCands, orphanMarkers, armedNow) = txs; pc = prev_candidates prev in
      \<lparr>mk_SchemaVersion = marks_SchemaVersion, mk_MarkID = markID,
       mk_PreviousMarkID = (case prev of None \<Rightarrow> [] | Some m \<Rightarrow> mk_MarkID m),
       mk_StartedAt = startedAt, mk_CompletedAt = zero_time,
       mk_CurrentManifestVersion = rh_ManifestVersion (rv_Header view),
       mk_CurrentManifestObjectVersion = VToken (rv_Version view),
       mk_RetentionSeconds = retentionSeconds,
       mk_TxOrphanSweepArmed = (armedNow \<or> (case prev of None \<Rightarrow> False | Some m \<Rightarrow> mk_TxOrphanSweepArmed m)),
       mk_Candidates = \<lparr>
         cd_TxRecords = carry startedAt (cd_TxRecords pc) txCands,
         cd_CanonicalPacks = carry_packs startedAt (rh_ManifestVersion (rv_Header view))
            (map_option mk_CompletedAt prev) (cd_CanonicalPacks pc) packs,
         cd_Indexes = carry startedAt (cd_Indexes pc) indexes,
         cd_Bundles = carry startedAt (cd_Bundles pc) bundles,
         cd_OrphanMarkers = carry startedAt (cd_OrphanMarkers pc) orphanMarkers\<rparr>\<rparr>)"

definition RunMark :: "'w Env \<Rightarrow> keys_repo \<Rightarrow> int \<Rightarrow> ('w, gc_error, MarkRecord) run" where
  "RunMark E r retentionSeconds0 =
     (let retentionSeconds = (if retentionSeconds0 \<le> 0 then DefaultRetention div second_ns else retentionSeconds0) in
      run_bind (run_err GcKeys (run_sum (NewRepo (kr_tenantID r) (kr_repoID r)))) (\<lambda>k.
      run_bind (run_err GcRepo (run_op (repo_ReadRoot E r))) (\<lambda>view.
      run_bind (run_sum (live_or_fail (BuildLiveSet k (rv_Header view) (rv_Body view)))) (\<lambda>live.
      run_bind (now_utc E) (\<lambda>startedAt.
      run_bind (newMarkID E) (\<lambda>markID.
      run_bind (previous_mark E k) (\<lambda>prev.
      run_bind (DiscoverCanonicalPacks E k live) (\<lambda>packs.
      run_bind (DiscoverIndexes E k live) (\<lambda>indexes.
      run_bind (DiscoverTxRecords E k live) (\<lambda>txs.
      run_bind (DiscoverBundles E k live) (\<lambda>bundles.
      run_bind (now_utc E) (\<lambda>t.
      run_return ((new_mark retentionSeconds markID startedAt view prev packs indexes txs bundles)\<lparr>mk_CompletedAt := t\<rparr>)))))))))))))"

section \<open>The sweep phase\<close>

datatype decision = decideDelete | decideRevived | decideRetention | decideDisarmed

definition classify :: "string \<Rightarrow> string \<Rightarrow> gotime \<Rightarrow> int \<Rightarrow> gotime \<Rightarrow> string list \<Rightarrow> bool \<Rightarrow> decision" where
  "classify key category firstSeen retention now live armed =
     (if key \<in> set live then decideRevived
      else if time_Sub now firstSeen < retention then decideRetention
      else if category = ''tx_records'' \<and> \<not> armed then decideDisarmed
      else decideDelete)"

definition skip :: "string \<Rightarrow> string \<Rightarrow> string \<Rightarrow> SweepRecord \<Rightarrow> SweepRecord" where
  "skip key category reason out =
     out\<lparr>sr_Skipped := sr_Skipped out @ [\<lparr>sk_Key = key, sk_Category = category, sk_Reason = reason\<rparr>]\<rparr>"

definition record_error :: "string \<Rightarrow> string \<Rightarrow> storage_error \<Rightarrow> SweepRecord \<Rightarrow> SweepRecord" where
  "record_error key category e out =
     out\<lparr>sr_Errors := sr_Errors out @ [\<lparr>ee_Key = key, ee_Category = category, ee_Error = e\<rparr>]\<rparr>"

text \<open>A category outside the list is only logged.\<close>

definition record_deleted :: "string \<Rightarrow> string \<Rightarrow> SweepRecord \<Rightarrow> SweepRecord" where
  "record_deleted key category out =
     (let d = sr_Deleted out in
      out\<lparr>sr_Deleted :=
        (if category = ''tx_records'' then d\<lparr>dl_TxRecords := dl_TxRecords d @ [key]\<rparr>
         else if category = ''canonical_packs'' then d\<lparr>dl_CanonicalPacks := dl_CanonicalPacks d @ [key]\<rparr>
         else if category = ''reachability_deltas'' then d\<lparr>dl_ReachabilityDeltas := dl_ReachabilityDeltas d @ [key]\<rparr>
         else if category = ''indexes'' then d\<lparr>dl_Indexes := dl_Indexes d @ [key]\<rparr>
         else if category = ''bundles'' then d\<lparr>dl_Bundles := dl_Bundles d @ [key]\<rparr>
         else if category = ''orphan_markers'' then d\<lparr>dl_OrphanMarkers := dl_OrphanMarkers d @ [key]\<rparr>
         else d)\<rparr>)"

definition applyDecision ::
  "'w Env \<Rightarrow> string \<Rightarrow> string \<Rightarrow> decision \<Rightarrow> bool \<Rightarrow> SweepRecord \<Rightarrow> ('w, gc_error, SweepRecord) run" where
  "applyDecision E key category d dryRun out =
     (case d of
        decideRevived \<Rightarrow> run_return (skip key category ''revived'' out)
      | decideRetention \<Rightarrow> run_return (skip key category ''retention_not_met'' out)
      | decideDisarmed \<Rightarrow> run_return (skip key category ''tx_sweep_disarmed'' out)
      | decideDelete \<Rightarrow>
          if dryRun then run_return (record_deleted key category out)
          else
            run_try (run_op (os_Head (env_store E) key)) (\<lambda>r. case r of
               Inl e \<Rightarrow> run_return (if e = ErrNotFound then skip key category ''not_found'' out
                                   else record_error key category e out)
             | Inr meta \<Rightarrow>
                 run_try (run_op (os_DeleteIfVersionMatches (env_store E) key (md_Version meta))) (\<lambda>r. case r of
                    Inl e \<Rightarrow> run_return
                      (if e = ErrVersionMismatch then skip key category ''version_mismatch'' out
                       else if e = ErrNotFound then skip key category ''not_found'' out
                       else record_error key category e out)
                  | Inr _ \<Rightarrow> run_return (record_deleted key category out))))"

definition sweep_one ::
  "'w Env \<Rightarrow> int \<Rightarrow> gotime \<Rightarrow> string list \<Rightarrow> bool \<Rightarrow> bool \<Rightarrow> string \<Rightarrow> string \<times> gotime \<Rightarrow> SweepRecord \<Rightarrow>
   ('w, gc_error, SweepRecord) run" where
  "sweep_one E retention now live dryRun armed category c out =
     applyDecision E (fst c) category (classify (fst c) category (snd c) retention now live armed) dryRun out"

definition index_category :: "string \<Rightarrow> string" where
  "index_category key =
     (if str_contains key ''/indexes/reachability-delta/'' then ''reachability_deltas'' else ''indexes'')"

definition sweep_marker ::
  "'w Env \<Rightarrow> int \<Rightarrow> gotime \<Rightarrow> string list \<Rightarrow> bool \<Rightarrow> string \<times> gotime \<Rightarrow> SweepRecord \<Rightarrow> ('w, gc_error, SweepRecord) run" where
  "sweep_marker E retention now live dryRun c out =
     (if dryRun then sweep_one E retention now live dryRun True ''orphan_markers'' c out
      else
        run_try (run_op (os_Head (env_store E) (trim_suffix (fst c) ''.commit''))) (\<lambda>r. case r of
           Inr _ \<Rightarrow> run_return (skip (fst c) ''orphan_markers'' ''revived'' out)
         | Inl e \<Rightarrow>
             if e \<noteq> ErrNotFound then run_return (record_error (fst c) ''orphan_markers'' e out)
             else sweep_one E retention now live dryRun True ''orphan_markers'' c out))"

definition seen :: "Candidate list \<Rightarrow> (string \<times> gotime) list" where
  "seen = map (\<lambda>c. (ca_Key c, ca_FirstSeenUnreachableAt c))"

definition pack_seen :: "PackCandidate list \<Rightarrow> (string \<times> gotime) list" where
  "pack_seen = map (\<lambda>c. (pc_Key c, pc_FirstSeenUnreachableAt c))"

definition sweep_candidates ::
  "'w Env \<Rightarrow> MarkRecord \<Rightarrow> gotime \<Rightarrow> string list \<Rightarrow> bool \<Rightarrow> SweepRecord \<Rightarrow> ('w, gc_error, SweepRecord) run" where
  "sweep_candidates E mark now live dryRun out =
     (let retention = wrap64 (mk_RetentionSeconds mark * second_ns); cs = mk_Candidates mark;
          one = sweep_one E retention now live dryRun in
      run_bind (run_loop (one (mk_TxOrphanSweepArmed mark) ''tx_records'') (seen (cd_TxRecords cs)) out) (\<lambda>out.
      run_bind (run_loop (one True ''canonical_packs'') (pack_seen (cd_CanonicalPacks cs)) out) (\<lambda>out.
      run_bind (run_loop (\<lambda>c. one True (index_category (fst c)) c) (seen (cd_Indexes cs)) out) (\<lambda>out.
      run_bind (run_loop (one True ''bundles'') (seen (cd_Bundles cs)) out) (\<lambda>out.
      run_loop (sweep_marker E retention now live dryRun) (seen (cd_OrphanMarkers cs)) out)))))"

definition new_sweep :: "string \<Rightarrow> MarkRecord \<Rightarrow> gotime \<Rightarrow> RootView \<Rightarrow> SweepRecord" where
  "new_sweep sweepID mark startedAt view =
     \<lparr>sr_SchemaVersion = sweeps_SchemaVersion, sr_SweepID = sweepID, sr_MarkID = mk_MarkID mark,
      sr_StartedAt = startedAt, sr_CompletedAt = zero_time,
      sr_CurrentManifestVersion = rh_ManifestVersion (rv_Header view),
      sr_CurrentManifestObjectVersion = VToken (rv_Version view),
      sr_Deleted = zero_deleted, sr_Skipped = [], sr_Errors = []\<rparr>"

definition RunSweep :: "'w Env \<Rightarrow> keys_repo \<Rightarrow> MarkRecord \<Rightarrow> bool \<Rightarrow> ('w, gc_error, SweepRecord) run" where
  "RunSweep E r mark dryRun =
     run_bind (run_err GcKeys (run_sum (NewRepo (kr_tenantID r) (kr_repoID r)))) (\<lambda>k.
     run_bind (now_utc E) (\<lambda>startedAt.
     run_bind (run_err GcRepo (run_op (repo_ReadRoot E r))) (\<lambda>view.
     run_bind (run_sum (live_or_fail (BuildLiveSet k (rv_Header view) (rv_Body view)))) (\<lambda>freshLive.
     run_bind (newSweepID E) (\<lambda>sweepID.
     run_bind (sweep_candidates E mark startedAt freshLive dryRun (new_sweep sweepID mark startedAt view)) (\<lambda>out.
     run_bind (now_utc E) (\<lambda>t. run_return (out\<lparr>sr_CompletedAt := t\<rparr>))))))))"

section \<open>Pruning mark records\<close>

definition prune_one :: "'w Env \<Rightarrow> keys_repo \<Rightarrow> string \<Rightarrow> unit \<Rightarrow> ('w, gc_error, unit) run" where
  "prune_one E k i _ =
     (let key = GCMarkKey k i in
      run_try (run_op (os_Head (env_store E) key)) (\<lambda>r. case r of
         Inl e \<Rightarrow> if e = ErrNotFound then run_return () else run_fail (GcStorage e)
       | Inr meta \<Rightarrow>
           run_try (run_op (os_DeleteIfVersionMatches (env_store E) key (md_Version meta))) (\<lambda>r. case r of
              Inl e \<Rightarrow> if e = ErrNotFound \<or> e = ErrVersionMismatch then run_return () else run_fail (GcStorage e)
            | Inr _ \<Rightarrow> run_return ())))"

definition PruneMarks :: "'w Env \<Rightarrow> keys_repo \<Rightarrow> int \<Rightarrow> ('w, gc_error, unit) run" where
  "PruneMarks E k keep0 =
     (let keep = (if keep0 < 1 then DefaultMarkRecordRetention else keep0) in
      run_bind (marks_List E k) (\<lambda>ids.
        if int (length ids) \<le> keep then run_return ()
        else run_loop (prune_one E k) (drop (nat keep) ids) ()))"

section \<open>A whole run\<close>

record RunOptions =
  ro_Retention :: int
  ro_MaxConcurrency :: int
  ro_MarkOnly :: bool
  ro_SweepOnly :: bool
  ro_DryRun :: bool

record RunReport =
  rp_RepoID :: string
  rp_MarkID :: string
  rp_SweepID :: string
  rp_ManifestVersion :: "64 word"
  rp_MarkRecord :: "MarkRecord option"
  rp_SweepRecord :: "SweepRecord option"
  rp_MarkDuration :: int
  rp_SweepDuration :: int
  rp_DryRun :: bool

definition zero_report :: RunReport where
  "zero_report = \<lparr>rp_RepoID = [], rp_MarkID = [], rp_SweepID = [], rp_ManifestVersion = 0, rp_MarkRecord = None,
     rp_SweepRecord = None, rp_MarkDuration = 0, rp_SweepDuration = 0, rp_DryRun = False\<rparr>"

type_synonym ('w, 'a) gc_run = "('w, RunReport \<times> gc_error, 'a) run"

definition mark_phase :: "'w Env \<Rightarrow> keys_repo \<Rightarrow> keys_repo \<Rightarrow> int \<Rightarrow> bool \<Rightarrow> RunReport \<Rightarrow> ('w, RunReport \<times> MarkRecord) gc_run" where
  "mark_phase E r k retention dryRun rep =
     run_bind (run_get (env_now E)) (\<lambda>markStart.
     run_bind (run_err (\<lambda>e. (rep, e)) (RunMark E r (duration_seconds retention))) (\<lambda>mark.
     run_bind (run_get (env_now E)) (\<lambda>markEnd.
     (let rep1 = rep\<lparr>rp_MarkDuration := time_Sub markEnd markStart,
                     rp_ManifestVersion := mk_CurrentManifestVersion mark, rp_MarkRecord := Some mark\<rparr> in
      if dryRun then run_return (rep1, mark)
      else run_bind (run_err (\<lambda>e. (rep1, e)) (marks_Write E k mark)) (\<lambda>_.
           run_return (rep1\<lparr>rp_MarkID := mk_MarkID mark\<rparr>, mark))))))"

definition load_mark :: "'w Env \<Rightarrow> keys_repo \<Rightarrow> RunReport \<Rightarrow> ('w, RunReport \<times> MarkRecord) gc_run" where
  "load_mark E k rep =
     run_bind (run_err (\<lambda>e. (rep, if e = ErrMarksNotFound then ErrNoMarkForSweep else e)) (marks_ReadLatest E k)) (\<lambda>latest.
     run_return (rep\<lparr>rp_MarkID := mk_MarkID latest, rp_MarkRecord := Some latest,
                     rp_ManifestVersion := mk_CurrentManifestVersion latest\<rparr>, latest))"

definition sweep_phase ::
  "(storage_error \<Rightarrow> string) \<Rightarrow> 'w Env \<Rightarrow> keys_repo \<Rightarrow> keys_repo \<Rightarrow> bool \<Rightarrow> RunReport \<times> MarkRecord \<Rightarrow> ('w, RunReport) gc_run" where
  "sweep_phase text E r k dryRun = (\<lambda>(rep, mark).
     run_bind (run_get (env_now E)) (\<lambda>sweepStart.
     run_bind (run_err (\<lambda>e. (rep, e)) (RunSweep E r mark dryRun)) (\<lambda>sweep.
     run_bind (run_get (env_now E)) (\<lambda>sweepEnd.
     (let rep1 = rep\<lparr>rp_SweepDuration := time_Sub sweepEnd sweepStart, rp_SweepRecord := Some sweep\<rparr> in
      if dryRun then run_return rep1
      else run_bind (run_err (\<lambda>e. (rep1, e)) (sweeps_Write text E k sweep)) (\<lambda>_.
           run_try (PruneMarks E k DefaultMarkRecordRetention) (\<lambda>_.
           run_return (rep1\<lparr>rp_SweepID := sr_SweepID sweep\<rparr>))))))))"

definition Run :: "(storage_error \<Rightarrow> string) \<Rightarrow> 'w Env \<Rightarrow> keys_repo \<Rightarrow> RunOptions \<Rightarrow> ('w, RunReport) gc_run" where
  "Run text E r opts =
     (let retention = (if ro_Retention opts \<le> 0 then DefaultRetention else ro_Retention opts);
          rep = zero_report\<lparr>rp_RepoID := kr_tenantID r @ ''/'' @ kr_repoID r, rp_DryRun := ro_DryRun opts\<rparr> in
      if ro_MarkOnly opts \<and> ro_SweepOnly opts then run_fail (zero_report, ErrInvalidPhaseCombo)
      else if retention < second_ns then run_fail (zero_report, GcRetention retention)
      else
        run_bind (run_err (\<lambda>e. (rep, GcKeys e)) (run_sum (NewRepo (kr_tenantID r) (kr_repoID r)))) (\<lambda>k.
        run_bind (if ro_SweepOnly opts then load_mark E k rep else mark_phase E r k retention (ro_DryRun opts) rep) (\<lambda>rm.
        if ro_MarkOnly opts then run_return (fst rm) else sweep_phase text E r k (ro_DryRun opts) rm)))"

section \<open>Repositories of a bucket\<close>

record RepoRef =
  rf_TenantID :: string
  rf_RepoID :: string

text \<open>\<open>iter\<close> is the order in which a map yields its keys.\<close>

definition listCommonPrefixes :: "(string list \<Rightarrow> string list) \<Rightarrow> 'w Env \<Rightarrow> string \<Rightarrow> ('w, gc_error, string list) run" where
  "listCommonPrefixes iter E prefix =
     run_bind (run_err GcStorage (list_pages (env_store E) prefix ''/'' [] [])) (\<lambda>pages.
     run_return (iter (remdups (concat (map lp_CommonPrefixes pages)))))"

definition DiscoverRepos :: "(string list \<Rightarrow> string list) \<Rightarrow> 'w Env \<Rightarrow> ('w, gc_error, RepoRef list) run" where
  "DiscoverRepos iter E =
     run_bind (listCommonPrefixes iter E ''tenants/'') (\<lambda>tenants.
     run_bind (run_loop (\<lambda>tenantPath out.
         (let t = trim_suffix (trim_prefix tenantPath ''tenants/'') ''/'' in
          if t = [] then run_return out
          else
            (let repoPrefix = tenantPath @ ''repos/'' in
             run_bind (listCommonPrefixes iter E repoPrefix) (\<lambda>repos.
             run_return (out @ map (\<lambda>rid. \<lparr>rf_TenantID = t, rf_RepoID = rid\<rparr>)
               (filter (\<lambda>rid. rid \<noteq> []) (map (\<lambda>p. trim_suffix (trim_prefix p repoPrefix) ''/'') repos)))))))
       tenants []) (\<lambda>out.
     run_return (sort_by (\<lambda>x. (rf_TenantID x, rf_RepoID x)) out)))"

end
