(* ===== verification/Gc_Safety.thy ===== *)
theory Gc_Safety
  imports Gc Ref_Localfs "HOL-Library.Multiset"
begin

text \<open>
  What a collection does to a bucket that other clients keep using. Locale \<open>collected\<close> is the
  environment of the engine together with a set of keys the others leave alone; in it every part of the
  collector is shown to spare them, except what the sweep may delete and the mark records
  that are pruned. It is interpreted on the file-system store shared with other processes. The
  accounting of a sweep and the ages in a mark hold for every environment.
\<close>

section \<open>What a collection deletes\<close>

text \<open>The objects a sweep may delete: not live, and a candidate of the mark for at least the retention
  the mark has pinned; a transaction record only when the mark is armed.\<close>

definition old_enough :: "MarkRecord \<Rightarrow> gotime \<Rightarrow> gotime \<Rightarrow> bool" where
  "old_enough mark now firstSeen \<longleftrightarrow> wrap64 (mk_RetentionSeconds mark * second_ns) \<le> time_Sub now firstSeen"

definition seen_old :: "MarkRecord \<Rightarrow> gotime \<Rightarrow> (string \<times> gotime) list \<Rightarrow> string \<Rightarrow> bool" where
  "seen_old mark now cs key \<longleftrightarrow> list_ex (\<lambda>(x, t). x = key \<and> old_enough mark now t) cs"

definition due :: "MarkRecord \<Rightarrow> gotime \<Rightarrow> string list \<Rightarrow> string \<Rightarrow> bool" where
  "due mark now live key \<longleftrightarrow> key \<notin> set live \<and>
     (mk_TxOrphanSweepArmed mark \<and> seen_old mark now (seen (cd_TxRecords (mk_Candidates mark))) key
      \<or> seen_old mark now (pack_seen (cd_CanonicalPacks (mk_Candidates mark))) key
      \<or> seen_old mark now (seen (cd_Indexes (mk_Candidates mark))) key
      \<or> seen_old mark now (seen (cd_Bundles (mk_Candidates mark))) key
      \<or> seen_old mark now (seen (cd_OrphanMarkers (mk_Candidates mark))) key)"

lemma seen_oldI: "(key, t) \<in> set cs \<Longrightarrow> old_enough mark now t \<Longrightarrow> seen_old mark now cs key"
  by (force simp: seen_old_def list_ex_iff)

text \<open>A sweep as the bucket shows it: the root was read at one instant, and from then on, of the
  objects in \<open>area\<close>, only those due for the live set of that root are gone.\<close>

definition swept_bucket ::
  "semver \<Rightarrow> keys_repo \<Rightarrow> (string \<Rightarrow> bool) \<Rightarrow> bool \<Rightarrow> MarkRecord \<Rightarrow> gotime \<Rightarrow> bucket \<Rightarrow> bucket \<Rightarrow> bool" where
  "swept_bucket sv k area dryRun mark now b0 b' \<longleftrightarrow>
     (\<exists>b c v h body live. keeps area b0 b \<and> b (RootManifestKey k) = Some (c, v) \<and>
        decode_root sv c = Inr (h, body) \<and> BuildLiveSet k h body = (live, None) \<and>
        keeps (\<lambda>x. area x \<and> \<not> (\<not> dryRun \<and> due mark now live x)) b b')"

definition is_mark_key :: "keys_repo \<Rightarrow> string \<Rightarrow> bool" where
  "is_mark_key k x \<longleftrightarrow> has_prefix x (kr_prefix k @ ''gc/marks/'')"

definition report_of :: "RunReport \<times> gc_error + RunReport \<Rightarrow> RunReport" where
  "report_of r = (case r of Inl (rep, e) \<Rightarrow> rep | Inr rep \<Rightarrow> rep)"

lemma classify_delete:
  "classify key category t retention now live armed = decideDelete \<longleftrightarrow>
     key \<notin> set live \<and> retention \<le> time_Sub now t \<and> (category = ''tx_records'' \<longrightarrow> armed)"
  by (auto simp: classify_def)

lemma keeps_mono: "keeps area b b' \<Longrightarrow> (\<And>x. area' x \<Longrightarrow> area x) \<Longrightarrow> keeps area' b b'"
  by (auto simp: keeps_def)

lemma keeps_sub: "keeps area b b' \<Longrightarrow> keeps (\<lambda>x. area x \<and> P x) b b'"
  by (auto simp: keeps_def)

text \<open>What a sweep record accounts for.\<close>

definition deleted_keys :: "SweepRecord \<Rightarrow> string list" where
  "deleted_keys r = (let d = sr_Deleted r in dl_TxRecords d @ dl_CanonicalPacks d @ dl_Indexes d
     @ dl_ReachabilityDeltas d @ dl_Bundles d @ dl_OrphanMarkers d)"

definition accounted :: "SweepRecord \<Rightarrow> string multiset" where
  "accounted r = mset (deleted_keys r @ map sk_Key (sr_Skipped r) @ map ee_Key (sr_Errors r))"

definition candidate_keys :: "MarkRecord \<Rightarrow> string list" where
  "candidate_keys mark = (let c = mk_Candidates mark in
     map ca_Key (cd_TxRecords c) @ map pc_Key (cd_CanonicalPacks c) @ map ca_Key (cd_Indexes c)
     @ map ca_Key (cd_Bundles c) @ map ca_Key (cd_OrphanMarkers c))"

definition sweep_categories :: "string list" where
  "sweep_categories = [''tx_records'', ''canonical_packs'', ''reachability_deltas'', ''indexes'', ''bundles'', ''orphan_markers'']"

text \<open>The record after some candidates: started when it was, and their keys accounted for.\<close>

definition progress :: "SweepRecord \<Rightarrow> (string \<times> gotime) list \<Rightarrow> SweepRecord \<Rightarrow> bool" where
  "progress out cs out' \<longleftrightarrow> sr_StartedAt out' = sr_StartedAt out \<and> accounted out' = accounted out + mset (map fst cs)"

lemma skip_progress: "progress out cs s \<Longrightarrow> progress out (cs @ [(key, t)]) (skip key category reason s)"
  by (simp add: progress_def skip_def accounted_def deleted_keys_def)

lemma error_progress: "progress out cs s \<Longrightarrow> progress out (cs @ [(key, t)]) (record_error key category e s)"
  by (simp add: progress_def record_error_def accounted_def deleted_keys_def)

lemma deleted_progress:
  "category \<in> set sweep_categories \<Longrightarrow> progress out cs s \<Longrightarrow> progress out (cs @ [(key, t)]) (record_deleted key category s)"
  by (auto simp: progress_def record_deleted_def accounted_def deleted_keys_def sweep_categories_def Let_def)

lemmas progress_rules = run_yields_return run_yields_try skip_progress error_progress deleted_progress

lemma applyDecision_progress:
  assumes "category \<in> set sweep_categories" "progress out cs s"
  shows "run_yields (progress out (cs @ [(key, t)])) (applyDecision E key category d dryRun s)"
  unfolding applyDecision_def
  by (cases d) (auto intro!: progress_rules assms split: sum.splits)

lemma sweep_one_progress:
  assumes "category \<in> set sweep_categories" "progress out cs s"
  shows "run_yields (progress out (cs @ [c])) (sweep_one E retention now live dryRun armed category c s)"
  unfolding sweep_one_def using applyDecision_progress [OF assms, of "fst c" "snd c"] by simp

lemma sweep_marker_progress:
  assumes "progress out cs s"
  shows "run_yields (progress out (cs @ [c])) (sweep_marker E retention now live dryRun c s)"
proof -
  have one: "run_yields (progress out (cs @ [c])) (sweep_one E retention now live dryRun True ''orphan_markers'' c s)"
    by (rule sweep_one_progress [OF _ assms]) (simp add: sweep_categories_def)
  have "progress out (cs @ [c]) (skip (fst c) x y s)" "progress out (cs @ [c]) (record_error (fst c) x e s)" for x y e
    using skip_progress [OF assms, of "fst c" "snd c"] error_progress [OF assms, of "fst c" "snd c"] by simp_all
  with one show ?thesis
    unfolding sweep_marker_def by (auto intro!: run_yields_try run_yields_return split: sum.splits)
qed

lemma sweep_candidates_yields:
  "run_yields (\<lambda>s. sr_StartedAt s = sr_StartedAt out \<and> accounted s = accounted out + mset (candidate_keys mark))
     (sweep_candidates E mark now live dryRun out)"
proof -
  let ?c = "mk_Candidates mark" and ?r = "wrap64 (mk_RetentionSeconds mark * second_ns)"
  let ?one = "sweep_one E ?r now live dryRun"
  have loop: "run_yields (progress out (cs @ xs)) (run_loop (\<lambda>c. ?one armed (cat c) c) xs s)"
    if "progress out cs s" "\<And>c. cat c \<in> set sweep_categories" for cs xs s armed cat
    by (rule run_yields_loop [where I = "progress out"]) (use that in \<open>auto intro: sweep_one_progress\<close>)
  have cats: "''tx_records'' \<in> set sweep_categories" "''canonical_packs'' \<in> set sweep_categories"
      "''bundles'' \<in> set sweep_categories" "\<And>c. index_category (fst c) \<in> set sweep_categories"
    by (simp_all add: sweep_categories_def index_category_def)
  let ?l = "[seen (cd_TxRecords ?c), pack_seen (cd_CanonicalPacks ?c), seen (cd_Indexes ?c), seen (cd_Bundles ?c), seen (cd_OrphanMarkers ?c)]"
  have "run_yields (progress out (((([] @ ?l ! 0) @ ?l ! 1) @ ?l ! 2) @ ?l ! 3 @ ?l ! 4)) (sweep_candidates E mark now live dryRun out)"
    unfolding sweep_candidates_def Let_def append_assoc [symmetric]
    apply (rule run_yields_bind, rule loop, simp add: progress_def, rule cats)
    apply (rule run_yields_bind, rule loop, simp, rule cats)
    apply (rule run_yields_bind, rule loop, simp, rule cats)
    apply (rule run_yields_bind, rule loop, simp, rule cats)
    apply (simp add: append_assoc [symmetric] del: append_assoc)
    apply (rule run_yields_loop, rule sweep_marker_progress, simp, simp)
    done
  then show ?thesis
    by (auto simp: run_yields_def progress_def candidate_keys_def seen_def pack_seen_def Let_def ac_simps comp_def)
qed

lemma accounted_new [simp]: "accounted (new_sweep sid mark t rv) = {#}"
  by (simp add: new_sweep_def accounted_def deleted_keys_def zero_deleted_def)

text \<open>A store whose other clients leave the objects of \<open>area\<close> alone.\<close>

locale collected = repo_env E view good vers rely
  for E :: "'w Env" and view :: "'w \<Rightarrow> bucket" and good :: "'w \<Rightarrow> bool"
    and vers :: "string \<Rightarrow> ObjectVersion \<Rightarrow> bool" and rely :: "bucket \<Rightarrow> bucket \<Rightarrow> bool" +
  fixes area :: "string \<Rightarrow> bool"
  assumes others_keep: "rely b b' \<Longrightarrow> keeps area b b'"
begin

definition spared :: "(string \<Rightarrow> bool) \<Rightarrow> 'w \<Rightarrow> 'w \<Rightarrow> bool" where
  "spared D w w' \<longleftrightarrow> (good w \<longrightarrow> good w' \<and> keeps (\<lambda>x. area x \<and> \<not> D x) (view w) (view w'))"

lemma spared_refl [simp]: "reflp (spared D)"
  by (auto simp: reflp_def spared_def)

lemma spared_trans [simp]: "transp (spared D)"
  unfolding transp_def spared_def by (blast intro: keeps_trans)

lemma spared_mono: "spared D w w' \<Longrightarrow> (\<And>x. D x \<Longrightarrow> D' x) \<Longrightarrow> spared D' w w'"
  unfolding spared_def by (blast intro: keeps_mono)

lemma others_sub: "rely b b' \<Longrightarrow> keeps (\<lambda>x. area x \<and> P x) b b'"
  by (rule keeps_sub) (rule others_keep)

lemma rely_spared: "(good w \<Longrightarrow> good w' \<and> rely (view w) (view w')) \<Longrightarrow> spared D w w'"
  unfolding spared_def by (simp add: others_sub)

lemma get_spared: "os_Get (env_store E) k None w = (r, w') \<Longrightarrow> spared D w w'"
  by (rule rely_spared) (metis get_law rely_trans)

lemma head_spared: "os_Head (env_store E) k w = (r, w') \<Longrightarrow> spared D w w'"
  by (rule rely_spared) (metis head_law rely_trans)

lemma list_spared: "os_List (env_store E) k lo w = (r, w') \<Longrightarrow> spared D w w'"
  by (rule rely_spared) (metis list_law rely_trans)

lemma now_spared: "env_now E w = (t, w') \<Longrightarrow> spared D w w'"
  by (rule rely_spared) (rule now_law)

lemma ulid_spared: "env_ulid E w = (t, w') \<Longrightarrow> spared D w w'"
  by (rule rely_spared) (rule ulid_law)

lemma put_spared:
  assumes "os_PutIfAbsent (env_store E) k c ct w = (r, w')"
  shows "spared D w w'"
  unfolding spared_def
proof
  assume "good w"
  with assms obtain b b' where b: "good w'" "rely (view w) b" "put_post vers b k c r b'" "rely b' (view w')"
    using put_law by blast
  have "keeps area b b'" using b(3) by (auto simp: put_post_def keeps_def split: sum.splits)
  with b others_keep have "keeps area (view w) (view w')" by (meson keeps_trans)
  with b(1) show "good w' \<and> keeps (\<lambda>x. area x \<and> \<not> D x) (view w) (view w')"
    by (simp add: keeps_sub)
qed

lemma del_spared:
  assumes "os_DeleteIfVersionMatches (env_store E) k v w = (r, w')" "D k"
  shows "spared D w w'"
  unfolding spared_def
proof
  let ?A = "\<lambda>x. area x \<and> \<not> D x"
  assume "good w"
  with assms obtain b b' where b: "good w'" "rely (view w) b" "del_post b k v r b'" "rely b' (view w')"
    using del_law by blast
  have "keeps ?A b b'" using b(3) assms(2) by (auto simp: del_post_def keeps_def split: sum.splits)
  moreover have "keeps ?A (view w) b" "keeps ?A b' (view w')"
    using b(2,4) by (simp_all add: others_sub)
  ultimately show "good w' \<and> keeps ?A (view w) (view w')"
    using b(1) by (meson keeps_trans)
qed

lemma spared_ops:
  "run_rel (spared D) (run_op (os_Get (env_store E) k None))"
  "run_rel (spared D) (run_op (os_Head (env_store E) k))"
  "run_rel (spared D) (run_op (os_PutIfAbsent (env_store E) k c ct))"
  "D k \<Longrightarrow> run_rel (spared D) (run_op (os_DeleteIfVersionMatches (env_store E) k v))"
  "run_rel (spared D) (list_pages (env_store E) prefix delimiter token pages)"
  "run_rel (spared D) (run_get (env_now E))"
  by (rule run_rel_op run_rel_get list_pages_rel;
      auto intro: get_spared head_spared put_spared list_spared now_spared del_spared)+

lemmas spared_rules = spared_refl spared_trans run_rules spared_ops

lemma list_all_keys_spared: "run_rel (spared D) (list_all_keys E prefix)"
  unfolding list_all_keys_def by (intro spared_rules)

lemma exclude_spared: "run_rel (spared D) (listExcludingLive E prefix live)"
  unfolding listExcludingLive_def by (intro spared_rules list_all_keys_spared)

lemma discover_spared:
  "run_rel (spared D) (DiscoverCanonicalPacks E k live)" "run_rel (spared D) (DiscoverIndexes E k live)"
  "run_rel (spared D) (DiscoverTxRecords E k live)" "run_rel (spared D) (DiscoverBundles E k live)"
  unfolding DiscoverCanonicalPacks_def DiscoverIndexes_def DiscoverTxRecords_def DiscoverBundles_def Let_def
  by (intro spared_rules list_all_keys_spared exclude_spared)+

lemma marks_spared:
  "run_rel (spared D) (marks_List E k)" "run_rel (spared D) (marks_ReadByID E k i)" "run_rel (spared D) (marks_ReadLatest E k)"
  "run_rel (spared D) (marks_Write E k m)" "run_rel (spared D) (sweeps_Write text E k sr)" "run_rel (spared D) (previous_mark E k)"
proof -
  show l: "run_rel (spared D) (marks_List E k)" for k
    unfolding marks_List_def Let_def by (intro spared_rules list_all_keys_spared)
  show i: "run_rel (spared D) (marks_ReadByID E k i)" for k i
    unfolding marks_ReadByID_def by (auto intro!: spared_rules split: option.splits)
  show r: "run_rel (spared D) (marks_ReadLatest E k)" for k
    unfolding marks_ReadLatest_def by (auto intro!: spared_rules l i split: list.splits)
  show "run_rel (spared D) (marks_Write E k m)"
    unfolding marks_Write_def by (auto intro!: spared_rules split: option.splits)
  show "run_rel (spared D) (sweeps_Write text E k sr)"
    unfolding sweeps_Write_def by (auto intro!: spared_rules split: option.splits)
  show "run_rel (spared D) (previous_mark E k)"
    unfolding previous_mark_def by (auto intro!: spared_rules r split: sum.splits)
qed

lemma clock_spared:
  "run_rel (spared D) (now_utc E)" "run_rel (spared D) (newMarkID E)" "run_rel (spared D) (newSweepID E)"
  unfolding now_utc_def newMarkID_def newSweepID_def
  by (rule run_rel_get; auto intro: now_spared ulid_spared split: prod.splits)+

lemma ReadRoot_spared: "run_rel (spared D) (run_op (repo_ReadRoot E r))"
proof (rule run_rel_op)
  fix w res w' assume "repo_ReadRoot E r w = (res, w')"
  then obtain g where "os_Get (env_store E) (RootManifestKey r) None w = (g, w')"
    by (auto simp: repo_ReadRoot_def ReadRoot_def split: prod.splits sum.splits if_splits)
  then show "spared D w w'" by (rule get_spared)
qed

lemma RunMark_spared: "run_rel (spared D) (RunMark E r secs)"
  unfolding RunMark_def Let_def
  by (intro spared_rules ReadRoot_spared clock_spared marks_spared discover_spared)

text \<open>A decision deletes nothing but what is due.\<close>

lemma applyDecision_spared:
  assumes "d = decideDelete \<Longrightarrow> dryRun \<or> D key"
  shows "run_rel (spared D) (applyDecision E key category d dryRun out)"
  using assms unfolding applyDecision_def
  by (cases d) (auto intro!: spared_rules split: sum.splits)

lemma sweep_one_spared:
  assumes "fst c \<notin> set live \<Longrightarrow> retention \<le> time_Sub now (snd c) \<Longrightarrow> (category = ''tx_records'' \<longrightarrow> armed) \<Longrightarrow> dryRun \<or> D (fst c)"
  shows "run_rel (spared D) (sweep_one E retention now live dryRun armed category c out)"
  unfolding sweep_one_def by (rule applyDecision_spared) (use assms in \<open>auto simp: classify_delete\<close>)

lemma sweep_marker_spared:
  assumes "fst c \<notin> set live \<Longrightarrow> retention \<le> time_Sub now (snd c) \<Longrightarrow> dryRun \<or> D (fst c)"
  shows "run_rel (spared D) (sweep_marker E retention now live dryRun c out)"
  unfolding sweep_marker_def using assms
  by (auto intro!: spared_rules sweep_one_spared split: sum.splits)

lemma sweep_candidates_spared:
  assumes D: "\<And>x. due mark now live x \<Longrightarrow> dryRun \<or> D x"
  shows "run_rel (spared D) (sweep_candidates E mark now live dryRun out)"
proof -
  have due: "dryRun \<or> D (fst c)"
    if "fst c \<notin> set live" "wrap64 (mk_RetentionSeconds mark * second_ns) \<le> time_Sub now (snd c)"
      "c \<in> set (seen (cd_TxRecords (mk_Candidates mark))) \<and> mk_TxOrphanSweepArmed mark
       \<or> c \<in> set (pack_seen (cd_CanonicalPacks (mk_Candidates mark))) \<or> c \<in> set (seen (cd_Indexes (mk_Candidates mark)))
       \<or> c \<in> set (seen (cd_Bundles (mk_Candidates mark))) \<or> c \<in> set (seen (cd_OrphanMarkers (mk_Candidates mark)))" for c
  proof (rule D)
    have "(fst c, snd c) = c" "old_enough mark now (snd c)" using that(2) by (simp_all add: old_enough_def)
    then show "due mark now live (fst c)"
      unfolding due_def using that(1,3) seen_oldI [of "fst c" "snd c"] by metis
  qed
  show ?thesis
    unfolding sweep_candidates_def Let_def
    by (intro spared_rules sweep_one_spared sweep_marker_spared due) (simp_all add: index_category_def split: if_splits)
qed

definition swept :: "keys_repo \<Rightarrow> (string \<Rightarrow> bool) \<Rightarrow> bool \<Rightarrow> MarkRecord \<Rightarrow> gotime \<Rightarrow> 'w \<Rightarrow> 'w \<Rightarrow> bool" where
  "swept k D dryRun mark now w w' \<longleftrightarrow>
     good w' \<and> swept_bucket (env_semver E) k (\<lambda>x. area x \<and> \<not> D x) dryRun mark now (view w) (view w')"

lemma swept_pre: "good w \<Longrightarrow> spared D w w1 \<Longrightarrow> swept k D dry mark now w1 w2 \<Longrightarrow> swept k D dry mark now w w2"
  unfolding swept_def swept_bucket_def spared_def by (blast intro: keeps_trans)

lemma swept_post:
  assumes "swept k D dry mark now w w1" "spared D w1 w2"
  shows "swept k D dry mark now w w2"
proof -
  have "good w2" "keeps (\<lambda>x. area x \<and> \<not> D x) (view w1) (view w2)"
    using assms unfolding swept_def spared_def by blast+
  then have "good w2" "keeps (\<lambda>x. (area x \<and> \<not> D x) \<and> \<not> (\<not> dry \<and> due mark now live x)) (view w1) (view w2)" for live
    by (auto simp: keeps_def)
  with assms(1) show ?thesis unfolding swept_def swept_bucket_def by (blast intro: keeps_trans)
qed

lemma ReadRoot_at:
  assumes "good w" "repo_ReadRoot E r w = (Inr rv, w')"
  shows "\<exists>b c v. rely (view w) b \<and> rely b (view w') \<and> b (RootManifestKey r) = Some (c, v)
           \<and> decode_root (env_semver E) c = Inr (rv_Header rv, rv_Body rv)"
proof -
  obtain obj where g: "os_Get (env_store E) (RootManifestKey r) None w = (Inr obj, w')" "\<not> obj_ReadErr obj"
     "decode_root (env_semver E) (obj_Body obj) = Inr (rv_Header rv, rv_Body rv)"
    using assms(2) by (auto simp: repo_ReadRoot_def ReadRoot_def split: prod.splits sum.splits if_splits)
  obtain b where "rely (view w) b" "rely b (view w')" "get_post b (RootManifestKey r) (Inr obj)"
    using get_law [OF assms(1) g(1)] by blast
  with g show ?thesis by (auto simp: get_post_def)
qed

lemma RunSweep_spec:
  assumes good: "good w" and k: "NewRepo (kr_tenantID r) (kr_repoID r) = Inr r"
    and run: "RunSweep E r mark dryRun w = Some (res, w')"
  shows "(\<exists>e. res = Inl e \<and> spared D w w') \<or>
         (\<exists>sweep. res = Inr sweep \<and> accounted sweep = mset (candidate_keys mark) \<and>
            swept r D dryRun mark (sr_StartedAt sweep) w w')"
proof -
  obtain t w1 where now: "now_utc E w = Some (Inr t, w1)"
    by (cases "env_now E w") (simp add: now_utc_def run_get_def)
  obtain rr w2 where root: "repo_ReadRoot E r w1 = (rr, w2)" by fastforce
  have s1: "spared D w w1" for D using run_relD [OF clock_spared(1) now] .
  have s2: "spared D w1 w2" for D using run_relD [OF ReadRoot_spared, unfolded run_op_Some, OF root] .
  have g: "good w1" "good w2" using good s1 s2 unfolding spared_def by blast+
  show ?thesis
  proof (cases "\<exists>rv live. rr = Inr rv \<and> BuildLiveSet r (rv_Header rv) (rv_Body rv) = (live, None)")
    case False
    have "\<exists>e. res = Inl e \<and> w' = w2"
    proof (cases rr)
      case (Inl e)
      with run show ?thesis unfolding RunSweep_def k by (auto simp: run_eval now root)
    next
      case (Inr rv)
      with False obtain e where "live_or_fail (BuildLiveSet r (rv_Header rv) (rv_Body rv)) = Inl e"
        by (cases "BuildLiveSet r (rv_Header rv) (rv_Body rv)"; cases "snd (BuildLiveSet r (rv_Header rv) (rv_Body rv))")
          (auto simp: live_or_fail_def)
      with Inr run show ?thesis unfolding RunSweep_def k by (auto simp: run_eval now root)
    qed
    with s1 [of D] s2 [of D] spared_trans [of D] show ?thesis unfolding transp_def by blast
  next
    case True
    then obtain rv live where rv: "rr = Inr rv" and live: "BuildLiveSet r (rv_Header rv) (rv_Body rv) = (live, None)" by blast
    obtain sid w3 where sid: "newSweepID E w2 = Some (Inr sid, w3)"
      by (cases "env_ulid E w2") (simp add: newSweepID_def run_get_def)
    define out where "out = new_sweep sid mark t rv"
    have "run_bind (sweep_candidates E mark t live dryRun out)
            (\<lambda>out. run_bind (now_utc E) (\<lambda>t. run_return (out\<lparr>sr_CompletedAt := t\<rparr>))) w3 = Some (res, w')"
      using run unfolding RunSweep_def k
      by (simp add: run_eval now root rv live sid live_or_fail_def out_def)
    moreover note sweep_candidates_yields [of out mark E t live dryRun]
    ultimately obtain out1 w4 t' where sw: "sweep_candidates E mark t live dryRun out w3 = Some (Inr out1, w4)"
        "sr_StartedAt out1 = t" "accounted out1 = accounted out + mset (candidate_keys mark)"
        "now_utc E w4 = Some (Inr t', w')" "res = Inr (out1\<lparr>sr_CompletedAt := t'\<rparr>)"
      by (fastforce simp: run_Some run_yields_def now_utc_def out_def new_sweep_def)
    have acc: "accounted out = {#}" by (simp add: out_def)
    obtain b c v where b: "rely (view w1) b" "rely b (view w2)" "b (RootManifestKey r) = Some (c, v)"
        "decode_root (env_semver E) c = Inr (rv_Header rv, rv_Body rv)"
      using ReadRoot_at [OF g(1)] root rv by blast
    let ?D = "\<lambda>x. D x \<or> \<not> dryRun \<and> due mark t live x"
    have "run_rel (spared ?D) (sweep_candidates E mark t live dryRun out)"
      by (rule sweep_candidates_spared) blast
    then have "spared ?D w3 w4" using sw(1) by (rule run_relD)
    moreover have "spared ?D w2 w3" "spared ?D w4 w'"
      using run_relD [OF clock_spared(3) sid] run_relD [OF clock_spared(1) sw(4)] by simp_all
    ultimately have "good w'" "keeps (\<lambda>x. area x \<and> \<not> ?D x) (view w2) (view w')"
      using g(2) unfolding spared_def by (blast intro: keeps_trans)+
    moreover have "keeps (\<lambda>x. area x \<and> \<not> ?D x) b (view w2)" by (rule others_sub [OF b(2)])
    ultimately have "good w'" "keeps (\<lambda>x. area x \<and> \<not> ?D x) b (view w')" by (blast intro: keeps_trans)+
    then have "swept r D dryRun mark t w1 w'"
      unfolding swept_def swept_bucket_def using b live others_sub [OF b(1)]
      by (intro conjI exI [of _ b] exI [of _ c] exI [of _ v] exI [of _ "rv_Header rv"] exI [of _ "rv_Body rv"] exI [of _ live])
        (auto simp: keeps_def)
    then have "swept r D dryRun mark t w w'" using swept_pre [OF good s1] by blast
    moreover have "accounted (out1\<lparr>sr_CompletedAt := t'\<rparr>) = mset (candidate_keys mark)"
      using sw(3) acc by (simp add: accounted_def deleted_keys_def)
    ultimately show ?thesis using sw(2,5) by simp
  qed
qed

lemma PruneMarks_spared: "run_rel (spared (is_mark_key k)) (PruneMarks E k n)"
proof -
  have m: "is_mark_key k (GCMarkKey k i)" for i
    by (simp add: is_mark_key_def GCMarkKey_def has_prefix_def)
  have "run_rel (spared (is_mark_key k)) (prune_one E k i u)" for i u
    unfolding prune_one_def Let_def by (auto intro!: spared_rules m split: sum.splits)
  then show ?thesis
    unfolding PruneMarks_def Let_def by (auto intro!: spared_rules marks_spared)
qed

lemma mark_phase_spec:
  assumes "mark_phase E r k retention dryRun rep w = Some (res, w')"
  shows "spared D w w'"
    and "(\<exists>rep1 e. res = Inl (rep1, e) \<and> rp_SweepRecord rep1 = rp_SweepRecord rep) \<or>
         (\<exists>rep1 mark. res = Inr (rep1, mark) \<and> rp_SweepRecord rep1 = rp_SweepRecord rep \<and> rp_MarkRecord rep1 = Some mark)"
proof -
  have "run_rel (spared D) (mark_phase E r k retention dryRun rep)"
    unfolding mark_phase_def Let_def by (auto intro!: spared_rules RunMark_spared marks_spared)
  then show "spared D w w'" using assms by (rule run_relD)
  show "(\<exists>rep1 e. res = Inl (rep1, e) \<and> rp_SweepRecord rep1 = rp_SweepRecord rep) \<or>
         (\<exists>rep1 mark. res = Inr (rep1, mark) \<and> rp_SweepRecord rep1 = rp_SweepRecord rep \<and> rp_MarkRecord rep1 = Some mark)"
    using assms by (cases dryRun) (auto simp: mark_phase_def Let_def run_Some)
qed

lemma load_mark_spec:
  assumes "load_mark E k rep w = Some (res, w')"
  shows "spared D w w'"
    and "(\<exists>rep1 e. res = Inl (rep1, e) \<and> rp_SweepRecord rep1 = rp_SweepRecord rep) \<or>
         (\<exists>rep1 mark. res = Inr (rep1, mark) \<and> rp_SweepRecord rep1 = rp_SweepRecord rep \<and> rp_MarkRecord rep1 = Some mark)"
proof -
  have "run_rel (spared D) (load_mark E k rep)"
    unfolding load_mark_def by (auto intro!: spared_rules marks_spared)
  then show "spared D w w'" using assms by (rule run_relD)
  show "(\<exists>rep1 e. res = Inl (rep1, e) \<and> rp_SweepRecord rep1 = rp_SweepRecord rep) \<or>
         (\<exists>rep1 mark. res = Inr (rep1, mark) \<and> rp_SweepRecord rep1 = rp_SweepRecord rep \<and> rp_MarkRecord rep1 = Some mark)"
    using assms by (auto simp: load_mark_def run_Some)
qed

text \<open>What a run with the given report has done to the bucket.\<close>

definition collected_by :: "keys_repo \<Rightarrow> bool \<Rightarrow> RunReport \<Rightarrow> 'w \<Rightarrow> 'w \<Rightarrow> bool" where
  "collected_by k dryRun rep w w' \<longleftrightarrow> (case rp_SweepRecord rep of
     None \<Rightarrow> good w' \<and> keeps area (view w) (view w')
   | Some sweep \<Rightarrow> \<exists>mark. rp_MarkRecord rep = Some mark \<and> accounted sweep = mset (candidate_keys mark) \<and>
       swept k (\<lambda>x. \<not> dryRun \<and> is_mark_key k x) dryRun mark (sr_StartedAt sweep) w w')"

lemma spared_none: "good w \<Longrightarrow> spared (\<lambda>_. False) w w' \<longleftrightarrow> good w' \<and> keeps area (view w) (view w')"
  by (simp add: spared_def)

lemma sweep_phase_spec:
  assumes good: "good w" and k: "NewRepo (kr_tenantID r) (kr_repoID r) = Inr r"
    and rep: "rp_MarkRecord rep = Some mark" "rp_SweepRecord rep = None"
    and run: "sweep_phase text E r r dryRun (rep, mark) w = Some (res, w')"
  shows "collected_by r dryRun (report_of res) w w'"
proof -
  let ?D = "\<lambda>x. \<not> dryRun \<and> is_mark_key r x"
  obtain t1 w1 where t1: "env_now E w = (t1, w1)" by fastforce
  have s1: "spared D w w1" for D by (rule now_spared [OF t1])
  then have g1: "good w1" using good by (simp add: spared_def)
  obtain sr w2 where sr: "RunSweep E r mark dryRun w1 = Some (sr, w2)"
    using run by (auto simp: sweep_phase_def run_bind_eval run_err_eval run_get_def t1 split: option.splits)
  show ?thesis
  proof (cases sr)
    case (Inl e)
    then have res: "res = Inl (rep, e)" "w' = w2"
      using run by (auto simp: sweep_phase_def run_eval t1 sr)
    have "spared (\<lambda>_. False) w1 w2"
      using RunSweep_spec [OF g1 k sr, of "\<lambda>_. False"] Inl by auto
    then have "spared (\<lambda>_. False) w w'"
      using s1 [of "\<lambda>_. False"] res(2) spared_trans [of "\<lambda>_. False"] unfolding transp_def by blast
    then show ?thesis by (simp add: collected_by_def report_of_def res rep good spared_none)
  next
    case (Inr sweep)
    obtain t2 w3 where t2: "env_now E w2 = (t2, w3)" by fastforce
    have sw: "accounted sweep = mset (candidate_keys mark)" "swept r ?D dryRun mark (sr_StartedAt sweep) w1 w2"
      using RunSweep_spec [OF g1 k sr, of ?D] Inr by auto
    define rep1 where "rep1 = rep\<lparr>rp_SweepDuration := time_Sub t2 t1, rp_SweepRecord := Some sweep\<rparr>"
    have tail: "(if dryRun then run_return rep1
      else run_bind (run_err (\<lambda>e. (rep1, e)) (sweeps_Write text E r sweep)) (\<lambda>_.
           run_try (PruneMarks E r DefaultMarkRecordRetention) (\<lambda>_.
           run_return (rep1\<lparr>rp_SweepID := sr_SweepID sweep\<rparr>)))) w3 = Some (res, w')" (is "?m w3 = _")
      using run unfolding rep1_def
      by (simp add: sweep_phase_def run_bind_eval run_err_eval run_get_def Let_def t1 sr Inr t2 split del: if_split)
    have "run_rel (spared ?D) ?m"
      by (auto intro!: spared_rules marks_spared PruneMarks_spared)
    then have "spared ?D w3 w'" using tail by (rule run_relD)
    then have "spared ?D w2 w'"
      using now_spared [OF t2, of ?D] spared_trans [of ?D] unfolding transp_def by blast
    with sw(2) have "swept r ?D dryRun mark (sr_StartedAt sweep) w1 w'" by (rule swept_post)
    with good s1 [of ?D] have fin: "swept r ?D dryRun mark (sr_StartedAt sweep) w w'" by (rule swept_pre)
    have "rp_SweepRecord (report_of res) = Some sweep" "rp_MarkRecord (report_of res) = Some mark"
      using tail rep(1) by (auto simp: run_eval rep1_def report_of_def split: if_splits option.splits prod.splits sum.splits)
    with sw(1) fin show ?thesis by (simp add: collected_by_def)
  qed
qed

lemma Run_spec:
  assumes good: "good w" and k: "NewRepo (kr_tenantID r) (kr_repoID r) = Inr r"
    and run: "Run text E r opts w = Some (res, w')"
  shows "collected_by r (ro_DryRun opts) (report_of res) w w'"
proof -
  let ?ret = "if ro_Retention opts \<le> 0 then DefaultRetention else ro_Retention opts"
  let ?dry = "ro_DryRun opts"
  define rep where "rep = zero_report\<lparr>rp_RepoID := kr_tenantID r @ ''/'' @ kr_repoID r, rp_DryRun := ro_DryRun opts\<rparr>"
  define ph1 where "ph1 = (if ro_SweepOnly opts then load_mark E r rep else mark_phase E r r ?ret ?dry rep)"
  have rep: "rp_SweepRecord rep = None" by (simp add: rep_def zero_report_def)
  have zero: "collected_by r ?dry zero_report w w"
    using good by (simp add: collected_by_def zero_report_def)
  show ?thesis
  proof (cases "ro_MarkOnly opts \<and> ro_SweepOnly opts \<or> ?ret < second_ns")
    case True
    then have "report_of res = zero_report" "w' = w"
      using run by (auto simp: Run_def Let_def run_fail_def report_of_def split: if_splits)
    with zero show ?thesis by simp
  next
    case False
    have body: "run_bind ph1 (\<lambda>rm. if ro_MarkOnly opts then run_return (fst rm) else sweep_phase text E r r ?dry rm) w = Some (res, w')"
      using run False unfolding Run_def Let_def by (simp add: run_eval k ph1_def rep_def split: if_splits)
    then obtain r1 w1 where r1: "ph1 w = Some (r1, w1)"
      by (auto simp: run_bind_eval split: option.splits)
    have p: "spared D w w1" "(\<exists>rep1 e. r1 = Inl (rep1, e) \<and> rp_SweepRecord rep1 = None) \<or>
         (\<exists>rep1 mark. r1 = Inr (rep1, mark) \<and> rp_SweepRecord rep1 = None \<and> rp_MarkRecord rep1 = Some mark)" for D
      using load_mark_spec [of r rep w r1 w1] mark_phase_spec [of r r ?ret ?dry rep w r1 w1] r1 rep
      by (auto simp: ph1_def split: if_splits)
    have kept: "good w1 \<and> keeps area (view w) (view w1)" using p(1) good spared_none by blast
    from p(2) consider rep1 e where "r1 = Inl (rep1, e)" "rp_SweepRecord rep1 = None"
      | rep1 mark where "r1 = Inr (rep1, mark)" "rp_SweepRecord rep1 = None" "rp_MarkRecord rep1 = Some mark" by blast
    then show ?thesis
    proof cases
      case 1
      then have "report_of res = rep1" "w' = w1" using body r1 by (auto simp: run_eval report_of_def)
      with 1 kept show ?thesis by (simp add: collected_by_def)
    next
      case 2
      show ?thesis
      proof (cases "ro_MarkOnly opts")
        case True
        then have "report_of res = rep1" "w' = w1" using 2 body r1 by (auto simp: run_eval report_of_def)
        with 2 kept show ?thesis by (simp add: collected_by_def)
      next
        case False
        then have "sweep_phase text E r r ?dry (rep1, mark) w1 = Some (res, w')"
          using 2 body r1 by (simp add: run_bind_eval)
        then have c: "collected_by r ?dry (report_of res) w1 w'"
          using sweep_phase_spec [OF _ k 2(3,2)] kept by blast
        show ?thesis
          using c keeps_trans [of area "view w" "view w1" "view w'"] kept swept_pre [OF good p(1)]
          unfolding collected_by_def by (auto split: option.splits)
      qed
    qed
  qed
qed

end

section \<open>A sweep accounts for every candidate\<close>

text \<open>C17: a sweep that completes accounts for its candidates. Every candidate of the mark, counted as
  often as the mark lists it, appears exactly once in the sweep record: as deleted (or, in a dry run,
  as one that would be), as skipped, or with the error of the store. An object whose delete fails is never
  dropped from the record.\<close>

theorem sweep_accounts:
  "case RunSweep E r mark dryRun w of
     Some (Inr sweep, w') \<Rightarrow> accounted sweep = mset (candidate_keys mark)
   | _ \<Rightarrow> True"
proof -
  have "accounted sweep = mset (candidate_keys mark)" if run: "RunSweep E r mark dryRun w = Some (Inr sweep, w')" for sweep w'
  proof -
    from run obtain t live sid rv w1 w2 out1 t' where
      "sweep_candidates E mark t live dryRun (new_sweep sid mark t rv) w1 = Some (Inr out1, w2)" "sweep = out1\<lparr>sr_CompletedAt := t'\<rparr>"
      unfolding RunSweep_def by (auto simp: run_Some)
    moreover from this(1) have "accounted out1 = mset (candidate_keys mark)"
      using sweep_candidates_yields [of "new_sweep sid mark t rv" mark E t live dryRun] by (auto simp: run_yields_def)
    ultimately show ?thesis by (simp add: accounted_def deleted_keys_def)
  qed
  then show ?thesis by (auto split: option.splits prod.splits sum.splits)
qed

section \<open>The ages in a mark\<close>

definition carried :: "gotime \<Rightarrow> (string \<times> gotime) list \<Rightarrow> (string \<times> gotime) list \<Rightarrow> bool" where
  "carried start prev cs \<longleftrightarrow> (\<forall>(x, t) \<in> set cs. (x, t) \<in> set prev \<or> t = start \<and> x \<notin> fst ` set prev)"

definition by_category :: "Candidates \<Rightarrow> (string \<times> gotime) list list" where
  "by_category c = [seen (cd_TxRecords c), pack_seen (cd_CanonicalPacks c), seen (cd_Indexes c), seen (cd_Bundles c),
     seen (cd_OrphanMarkers c)]"

lemma mget_mput_all_key:
  "mget (mput_all (map (\<lambda>c. (f c, c)) cs) []) key = Some c \<Longrightarrow> c \<in> set cs \<and> f c = key"
  by (auto simp: mget_mput_all dest!: map_of_SomeD)

lemma mget_mput_all_None: "mget (mput_all (map (\<lambda>c. (f c, c)) cs) []) key = None \<Longrightarrow> key \<notin> f ` set cs"
  by (auto simp: mget_mput_all map_of_eq_None_iff image_image)

lemma carry_carried: "carried now (seen prev) (seen (carry now prev ks))"
  by (auto simp: carried_def carry_def seen_def Let_def image_image dest: mget_mput_all_key mget_mput_all_None split: option.splits)

lemma carry_packs_carried: "carried now (pack_seen prev) (pack_seen (carry_packs now ver l prev ks))"
  by (auto simp: carried_def carry_packs_def pack_seen_def Let_def image_image dest: mget_mput_all_key mget_mput_all_None split: option.splits)

lemma carry_keys: "map fst (seen (carry now prev ks)) = ks"
  by (auto simp: carry_def seen_def Let_def comp_def dest: mget_mput_all_key split: option.splits intro!: map_idI)

lemma carry_packs_keys: "map fst (pack_seen (carry_packs now ver l prev ks)) = ks"
  by (auto simp: carry_packs_def pack_seen_def Let_def comp_def dest: mget_mput_all_key split: option.splits intro!: map_idI)

definition armed_in :: "MarkRecord option \<Rightarrow> bool" where
  "armed_in prev = (case prev of None \<Rightarrow> False | Some m \<Rightarrow> mk_TxOrphanSweepArmed m)"

lemma run_bind_Inr: "run_bind m f w = Some (Inr y, w') \<longleftrightarrow> (\<exists>x w1. m w = Some (Inr x, w1) \<and> f x w1 = Some (Inr y, w'))"
  by (auto simp: run_bind_Some)

lemma run_err_Inr: "run_err h m w = Some (Inr x, w') \<longleftrightarrow> m w = Some (Inr x, w')"
  by (auto simp: run_err_Some)

lemma exclude_not_live: "listExcludingLive E prefix live w = Some (Inr ks, w') \<Longrightarrow> set ks \<inter> set live = {}"
  by (auto simp: listExcludingLive_def run_bind_Inr run_return_Some)

lemma indexes_not_live:
  assumes "DiscoverIndexes E k live w = Some (Inr ks, w')"
  shows "set ks \<inter> set live = {}"
proof -
  have "set out \<inter> set live = {} \<Longrightarrow> run_loop (\<lambda>sub out. run_bind (listExcludingLive E (kr_prefix k @ ''indexes/'' @ sub) live)
          (\<lambda>got. run_return (out @ got))) subs out w = Some (Inr ks, w') \<Longrightarrow> set ks \<inter> set live = {}" for subs out w
  proof (induction subs arbitrary: out w)
    case Nil
    then show ?case by (simp add: run_return_Some)
  next
    case (Cons sub subs)
    then obtain got w1 where g: "listExcludingLive E (kr_prefix k @ ''indexes/'' @ sub) live w = Some (Inr got, w1)"
       "run_loop (\<lambda>sub out. run_bind (listExcludingLive E (kr_prefix k @ ''indexes/'' @ sub) live)
          (\<lambda>got. run_return (out @ got))) subs (out @ got) w1 = Some (Inr ks, w')"
      by (auto simp: run_bind_Inr run_return_Some)
    have "set (out @ got) \<inter> set live = {}" using Cons.prems(1) exclude_not_live [OF g(1)] by auto
    then show ?case using g(2) by (rule Cons.IH)
  qed
  note all = this
  show ?thesis by (rule all [OF _ assms [unfolded DiscoverIndexes_def]]) simp
qed

lemma tx_not_live: "DiscoverTxRecords E k live w = Some (Inr (txs, ms, a), w') \<Longrightarrow> set txs \<inter> set live = {}"
  by (auto simp: DiscoverTxRecords_def sorted_keys_def Let_def run_bind_Inr run_return_Some)

lemma RunMark_ok:
  assumes "RunMark E r secs w = Some (Inr mark, w')"
  obtains k rv live start mid prev packs idxs txs bundles t w3 w4 w1 w2 v1 v2 v3 v4 v5 v6 v7 v8 where
    "NewRepo (kr_tenantID r) (kr_repoID r) = Inr k" "repo_ReadRoot E r w3 = (Inr rv, w4)"
    "live_or_fail (BuildLiveSet k (rv_Header rv) (rv_Body rv)) = Inr live"
    "previous_mark E k w1 = Some (Inr prev, w2)"
    "DiscoverCanonicalPacks E k live v1 = Some (Inr packs, v2)" "DiscoverIndexes E k live v3 = Some (Inr idxs, v4)"
    "DiscoverTxRecords E k live v5 = Some (Inr txs, v6)" "DiscoverBundles E k live v7 = Some (Inr bundles, v8)"
    "mark = (new_mark (if secs \<le> 0 then DefaultRetention div second_ns else secs) mid start rv prev packs idxs txs bundles)\<lparr>mk_CompletedAt := t\<rparr>"
  using assms
  unfolding RunMark_def Let_def run_bind_Inr run_err_Inr run_sum_Some run_op_Some run_return_Some sum.inject
  by (elim exE conjE) (rule that)


section \<open>Collections on a shared file-system store\<close>

text \<open>A bench whose other processes leave the objects of \<open>area\<close> alone.\<close>

definition calm_good :: "(string \<Rightarrow> bool) \<Rightarrow> bench \<Rightarrow> bool" where
  "calm_good area W = busy_good lfs_view lfs_good (keeps area) (fst W)"

interpretation calm_lfs: object_store "busy localfs" "lfs_view \<circ> fst"
  "busy_good lfs_view lfs_good (keeps area)" lfs_vers "keeps area" for area
  by (rule lfs.busy_store) (auto intro: keeps_trans)

interpretation gc_bench: collected "bench_env sv isprint" bench_view "calm_good area" lfs_vers "keeps area" area
  for sv isprint area
proof -
  have "bench_view = lfs_view \<circ> fst \<circ> fst" "calm_good area = busy_good lfs_view lfs_good (keeps area) \<circ> fst"
    by (simp_all add: fun_eq_iff bench_view_def calm_good_def)
  then have "repo_env (bench_env sv isprint) bench_view (calm_good area) lfs_vers (keeps area)"
    unfolding bench_env_def using calm_lfs.process_repo_env [of sv isprint area] by (simp add: o_assoc)
  then show "collected (bench_env sv isprint) bench_view (calm_good area) lfs_vers (keeps area) area"
    by (rule collected.intro) (simp add: collected_axioms_def)
qed



end
