(* ===== verification/Build_Commit.thy ===== *)
theory Build_Commit
  imports Gc_Safety
begin

text \<open>
  The push pipeline (\<open>internal/importer/buildcommit.go\<close> and the helpers of \<open>importer.go\<close>):
  \<open>BuildAndCommit\<close> takes a bare mirror that already holds the pushed objects and a map of ref updates,
  stages the refs, uploads the repacked objects with their indexes and commits a new root. Git, the
  mirror's directory and the index builder are operations of a record over the same world; the order in
  which a map is iterated is an argument.
\<close>

section \<open>What a push uses\<close>

type_synonym refmap = "(string, string) gomap"

record IndexBuild =
  ib_PackSizeBytes :: int
  ib_ObjectCount :: int
  ib_ObjectMapBytes :: string
  ib_ObjectMapHash :: string
  ib_CommitGraphBytes :: string
  ib_CommitGraphHash :: string

text \<open>The mirror: a failure is the text of the error. The pack and its index are files, read
  anew by each call that opens them.\<close>

record 'w Mirror =
  mi_dir :: string
  mi_RevParseObjectKind :: "string \<Rightarrow> 'w \<Rightarrow> (string + string) \<times> 'w"
  mi_MkdirTemp :: "'w \<Rightarrow> (string + unit) \<times> 'w"
  mi_removeKeepFiles :: "'w \<Rightarrow> (string + unit) \<times> 'w"
  mi_PackObjectsAll :: "'w \<Rightarrow> (string + string) \<times> 'w"
  mi_buildIndexes :: "string \<Rightarrow> refmap \<Rightarrow> 'w \<Rightarrow> (string + IndexBuild) \<times> 'w"
  mi_read_pack :: "string \<Rightarrow> 'w \<Rightarrow> (string + string) \<times> 'w"
  mi_read_idx :: "string \<Rightarrow> 'w \<Rightarrow> (string + string) \<times> 'w"
  mi_RevListCommitsOnly :: "string list \<Rightarrow> string list \<Rightarrow> 'w \<Rightarrow> (string + string list) \<times> 'w"

datatype push_error =
    PushNilStore | PushEmptyDir | PushRepo repo_error | PushKeys id_error
  | PushEmptyRef | PushInvalidRef string | PushRefStore refstore_error | PushDeletesDefault string
  | PushGit string | PushStorage storage_error | PushReadStored | PushPackCollision string
  | PushPatcher string | PushMarshal repo_error | PushCommit repo_error

type_synonym 'w patcher = "Body \<Rightarrow> Body \<Rightarrow> string list \<Rightarrow> 'w \<Rightarrow> (string + Body) \<times> 'w"

section \<open>Ref names and uploads\<close>

definition bad_ref_char :: "char \<Rightarrow> bool" where
  "bad_ref_char c \<longleftrightarrow> c \<le> CHR '' '' \<or> c \<in> set ''~^:?*['' \<or> c = CHR 0x7F"

definition validFullRefName :: "string \<Rightarrow> bool" where
  "validFullRefName s =
     (if s = [] \<or> \<not> has_prefix s ''refs/'' then False
      else if str_contains s ''//'' \<or> str_contains s ''/.'' \<or> has_suffix s ''/'' \<or> has_suffix s ''.lock'' then False
      else if str_contains s ''..'' \<or> str_contains s [CHR ''@'', CHR 0x7B] then False
      else list_all (\<lambda>c. \<not> bad_ref_char c) s)"

definition uploadBytes :: "'w ObjectStore \<Rightarrow> string \<Rightarrow> string \<Rightarrow> ('w, push_error, unit) run" where
  "uploadBytes S b dstKey =
     run_try (run_op (os_PutIfAbsent S dstKey b [])) (\<lambda>r. case r of
        Inr _ \<Rightarrow> run_return ()
      | Inl e \<Rightarrow> if e = ErrAlreadyExists then run_return () else run_fail (PushStorage e))"

definition uploadFile :: "'w ObjectStore \<Rightarrow> ('w \<Rightarrow> (string + string) \<times> 'w) \<Rightarrow> string \<Rightarrow> ('w, push_error, unit) run" where
  "uploadFile S open_file dstKey =
     run_bind (run_err PushGit (run_op open_file)) (\<lambda>f.
     run_bind (run_err PushStorage (run_op (os_PutIfAbsent S dstKey f []))) (\<lambda>_. run_return ()))"

definition sha256OfStoredObject :: "'w ObjectStore \<Rightarrow> string \<Rightarrow> ('w, push_error, string) run" where
  "sha256OfStoredObject S key =
     run_bind (run_err PushStorage (run_op (os_Get S key None))) (\<lambda>obj.
     if obj_ReadErr obj then run_fail PushReadStored else run_return (sha256_hex (obj_Body obj)))"

definition uploadFileVerified ::
  "'w ObjectStore \<Rightarrow> ('w \<Rightarrow> (string + string) \<times> 'w) \<Rightarrow> string \<Rightarrow> ('w, push_error, unit) run" where
  "uploadFileVerified S open_file dstKey =
     run_bind (run_err PushGit (run_op open_file)) (\<lambda>f.
     run_try (run_op (os_PutIfAbsent S dstKey f [])) (\<lambda>r. case r of
        Inr _ \<Rightarrow> run_return ()
      | Inl e \<Rightarrow>
          if e \<noteq> ErrAlreadyExists then run_fail (PushStorage e)
          else
            run_bind (run_err PushGit (run_op open_file)) (\<lambda>local.
            run_bind (sha256OfStoredObject S dstKey) (\<lambda>storedSum.
            if sha256_hex local \<noteq> storedSum then run_fail (PushPackCollision dstKey) else run_return ()))))"

section \<open>Refs\<close>

fun check_refnames :: "string list \<Rightarrow> push_error option" where
  "check_refnames [] = None"
| "check_refnames (ref # refs) =
     (if ref = [] then Some PushEmptyRef
      else if \<not> validFullRefName ref then Some (PushInvalidRef ref)
      else check_refnames refs)"

text \<open>The default branch must not be deleted. A stage that does not know the ref is taken to have
  left it as it was.\<close>

definition default_after :: "refstore_error + string option \<Rightarrow> bool \<Rightarrow> refstore_error + bool" where
  "default_after sl hadBefore = (case sl of
     Inr v \<Rightarrow> Inr (v \<noteq> None)
   | Inl e \<Rightarrow> if e = ErrLookupNotInStage then Inr hadBefore else Inl e)"

definition guard_default :: "'w RefStore \<Rightarrow> Stage \<Rightarrow> string \<Rightarrow> ('w, push_error, unit) run" where
  "guard_default rs stage branch =
     (if branch = [] then run_return ()
      else
        run_bind (run_err PushRefStore (run_op (rs_Lookup rs branch))) (\<lambda>before.
        run_bind (run_err PushRefStore (run_sum (default_after (stage_Lookup stage branch) (before \<noteq> None)))) (\<lambda>hasAfter.
        if before \<noteq> None \<and> \<not> hasAfter then run_fail (PushDeletesDefault branch) else run_return ())))"

fun merge_updates :: "refmap \<Rightarrow> refmap \<Rightarrow> push_error + refmap" where
  "merge_updates [] out = Inr out"
| "merge_updates ((ref, oid) # us) out =
     (if ref = [] then Inl PushEmptyRef
      else merge_updates us (if is_delete oid then mdel ref out else mput ref oid out))"

definition buildEffectiveRefs ::
  "'w RefStore \<Rightarrow> Stage \<Rightarrow> nat list \<Rightarrow> nat list \<Rightarrow> refmap \<Rightarrow> refmap option \<Rightarrow> ('w, push_error, refmap) run" where
  "buildEffectiveRefs rs stage sched order refUpdates preListed =
     (if sg_Mode stage = ModeInline then run_return (sg_NewInlineRefs stage)
      else
        run_bind (case preListed of Some pre \<Rightarrow> run_return pre
                  | None \<Rightarrow> run_err PushRefStore (run_op (rs_List rs sched))) (\<lambda>pre.
        run_sum (merge_updates (permute order refUpdates) pre)))"

section \<open>The commit callback\<close>

fun publish_shards :: "'w ObjectStore \<Rightarrow> ShardWrite list \<Rightarrow> 'w \<Rightarrow> (repo_error + unit) \<times> 'w" where
  "publish_shards S [] w = (Inr (), w)"
| "publish_shards S (x # xs) w =
     (case os_PutIfAbsent S (sw_Key x) (sw_Contents x) [] w of
        (Inr _, w1) \<Rightarrow> publish_shards S xs w1
      | (Inl e, w1) \<Rightarrow> if e = ErrAlreadyExists then publish_shards S xs w1 else (Inl (EStorage e), w1))"

definition push_callback :: "'w ObjectStore \<Rightarrow> 64 word \<Rightarrow> Stage \<Rightarrow> string \<Rightarrow> 'w callback" where
  "push_callback S startVersion stage bodyBytes prev w =
     (if rh_ManifestVersion (rv_Header prev) \<noteq> startVersion then (Inl (EOther ''stale manifest''), w)
      else (case publish_shards S (sg_NewShardObjects stage) w of
              (Inl e, w1) \<Rightarrow> (Inl e, w1)
            | (Inr _, w1) \<Rightarrow> (Inr bodyBytes, w1)))"

definition push_commit :: "'w Env \<Rightarrow> keys_repo \<Rightarrow> string \<Rightarrow> 64 word \<Rightarrow> Stage \<Rightarrow> Body \<Rightarrow> ('w, push_error, Body) run" where
  "push_commit E r actor startVersion stage body =
     run_bind (run_err PushMarshal (run_sum (MarshalBody body))) (\<lambda>bodyBytes.
     run_bind (run_err PushCommit (run_op (Commit E r (simple_tx_body ''push'' actor)
                (push_callback (env_store E) startVersion stage bodyBytes) []))) (\<lambda>_.
     run_return body))"

definition commitEmptyBody :: "'w Env \<Rightarrow> keys_repo \<Rightarrow> Body \<Rightarrow> 64 word \<Rightarrow> string \<Rightarrow> Stage \<Rightarrow> ('w, push_error, Body) run" where
  "commitEmptyBody E r prev startVersion actor stage =
     push_commit E r actor startVersion stage
       (zero_body\<lparr>bd_DefaultBranch := bd_DefaultBranch prev, bd_Bundles := bd_Bundles prev\<rparr>)"

section \<open>The push\<close>

definition with_refs :: "Stage \<Rightarrow> Body \<Rightarrow> Body" where
  "with_refs stage body = (case sg_Mode stage of
     ModeInline \<Rightarrow> body\<lparr>bd_Refs := sg_NewInlineRefs stage, bd_RefShards := [], bd_RefSharding := []\<rparr>
   | ModeSharded \<Rightarrow> body\<lparr>bd_Refs := [], bd_RefShards := sg_NewRefShards stage, bd_RefSharding := ''hash_v1''\<rparr>)"

definition pack_body :: "keys_repo \<Rightarrow> Body \<Rightarrow> string \<Rightarrow> IndexBuild \<Rightarrow> string \<Rightarrow> Body" where
  "pack_body k cur packID idx idxKey = zero_body\<lparr>
     bd_DefaultBranch := bd_DefaultBranch cur,
     bd_Packs := [zero_pack\<lparr>pk_PackID := packID, pk_PackKey := CanonicalPackKey k packID, pk_IdxKey := idxKey,
                   pk_SizeBytes := ib_PackSizeBytes idx, pk_ObjectCount := ib_ObjectCount idx\<rparr>],
     bd_Indexes := zero_indexes\<lparr>
       ix_ObjectMap := Some (zero_index_ref\<lparr>ir_Key := ObjectMapKey k (ib_ObjectMapHash idx), ir_Hash := ib_ObjectMapHash idx\<rparr>),
       ix_CommitGraph := Some (zero_index_ref\<lparr>ir_Key := CommitGraphKey k (ib_CommitGraphHash idx), ir_Hash := ib_CommitGraphHash idx\<rparr>)\<rparr>,
     bd_Bundles := bd_Bundles cur\<rparr>"

definition live_oids :: "refmap \<Rightarrow> string list" where
  "live_oids m = filter (\<lambda>oid. \<not> is_delete oid) (map snd m)"

definition run_patcher ::
  "'w Mirror \<Rightarrow> 'w RefStore \<Rightarrow> nat list \<Rightarrow> nat list \<Rightarrow> refmap \<Rightarrow> refmap option \<Rightarrow> Body \<Rightarrow> 'w patcher option \<Rightarrow> Body \<Rightarrow>
   ('w, push_error, Body) run" where
  "run_patcher G rs sched order refUpdates preListed cur patcher body = (case patcher of
     None \<Rightarrow> run_return body
   | Some patch \<Rightarrow>
       run_bind (case preListed of Some pre \<Rightarrow> run_return pre
                 | None \<Rightarrow> run_err PushRefStore (run_op (rs_List rs sched))) (\<lambda>pre.
       (let excludes = map (\<lambda>oid. CHR ''^'' # oid) (live_oids (permute order pre));
            tips = live_oids (permute order refUpdates) in
        run_bind (if tips = [] then run_return []
                  else run_err PushGit (run_op (mi_RevListCommitsOnly G tips excludes))) (\<lambda>newOIDs.
        run_err PushPatcher (run_op (patch cur body newOIDs))))))"

definition upload_artifacts ::
  "'w ObjectStore \<Rightarrow> 'w Mirror \<Rightarrow> keys_repo \<Rightarrow> string \<Rightarrow> string \<Rightarrow> IndexBuild \<Rightarrow> ('w, push_error, unit) run" where
  "upload_artifacts S G k packID idxKey idx =
     run_bind (uploadFileVerified S (mi_read_pack G packID) (CanonicalPackKey k packID)) (\<lambda>_.
     run_bind (uploadFileVerified S (mi_read_idx G packID) idxKey) (\<lambda>_.
     run_bind (uploadBytes S (ib_ObjectMapBytes idx) (ObjectMapKey k (ib_ObjectMapHash idx))) (\<lambda>_.
     uploadBytes S (ib_CommitGraphBytes idx) (CommitGraphKey k (ib_CommitGraphHash idx)))))"

definition repack ::
  "'w ObjectStore \<Rightarrow> 'w Mirror \<Rightarrow> keys_repo \<Rightarrow> Body \<Rightarrow> refmap \<Rightarrow> ('w, push_error, Body) run" where
  "repack S G k cur effectiveRefs =
     run_bind (run_err PushGit (run_op (mi_MkdirTemp G))) (\<lambda>_.
     run_bind (run_err PushGit (run_op (mi_removeKeepFiles G))) (\<lambda>_.
     run_bind (run_err PushGit (run_op (mi_PackObjectsAll G))) (\<lambda>packID.
     run_bind (run_err PushGit (run_op (mi_buildIndexes G packID effectiveRefs))) (\<lambda>idx.
     (let idxKey = the (PackIdxKey k packID ''canonical'') in
      run_bind (upload_artifacts S G k packID idxKey idx) (\<lambda>_.
      run_return (pack_body k cur packID idx idxKey)))))))"

definition check_tips :: "'w Mirror \<Rightarrow> refmap \<Rightarrow> ('w, push_error, unit) run" where
  "check_tips G refs =
     run_loop (\<lambda>(ref, oid) _. run_bind (run_err PushGit (run_op (mi_RevParseObjectKind G oid))) (\<lambda>_. run_return ())) refs ()"

definition empty_target :: "Stage \<Rightarrow> bool" where
  "empty_target stage = (case sg_Mode stage of
     ModeInline \<Rightarrow> sg_NewInlineRefs stage = [] | ModeSharded \<Rightarrow> sg_NewRefShards stage = [])"

text \<open>From the staged refs on.\<close>

definition finish_push ::
  "'w Env \<Rightarrow> 'w Mirror \<Rightarrow> keys_repo \<Rightarrow> keys_repo \<Rightarrow> 'w RefStore \<Rightarrow> nat list \<Rightarrow> nat list \<Rightarrow> refmap \<Rightarrow> string \<Rightarrow>
   'w patcher option \<Rightarrow> Body \<Rightarrow> 64 word \<Rightarrow> Stage \<Rightarrow> ('w, push_error, Body) run" where
  "finish_push E G r k rs sched order refUpdates actor patcher cur startVersion stage =
     run_bind (guard_default rs stage (bd_DefaultBranch cur)) (\<lambda>_.
     run_bind (if sg_Mode stage = ModeSharded
               then run_bind (run_err PushRefStore (run_op (rs_List rs sched))) (\<lambda>m. run_return (Some m))
               else run_return None) (\<lambda>preListed.
     run_bind (buildEffectiveRefs rs stage sched order refUpdates preListed) (\<lambda>effectiveRefs.
     run_bind (check_tips G (permute order effectiveRefs)) (\<lambda>_.
     if empty_target stage then commitEmptyBody E r cur startVersion actor stage
     else
       run_bind (repack (env_store E) G k cur effectiveRefs) (\<lambda>body.
       run_bind (run_patcher G rs sched order refUpdates preListed cur patcher (with_refs stage body)) (\<lambda>body.
       push_commit E r actor startVersion stage body))))))"

definition BuildAndCommit ::
  "'w Env option \<Rightarrow> 'w Mirror \<Rightarrow> string \<Rightarrow> string \<Rightarrow> nat list \<Rightarrow> nat list \<Rightarrow> refmap \<Rightarrow> string \<Rightarrow> 'w patcher option \<Rightarrow>
   ('w, push_error, Body) run" where
  "BuildAndCommit store G tenantID repoID sched order refUpdates actor patcher = (case store of
     None \<Rightarrow> run_fail PushNilStore
   | Some E \<Rightarrow>
       if mi_dir G = [] then run_fail PushEmptyDir
       else
         run_bind (run_err PushRepo (run_op (repo_Open E tenantID repoID))) (\<lambda>r.
         run_bind (run_err PushRepo (run_op (repo_ReadRoot E r))) (\<lambda>view.
         run_bind (run_err PushRepo (run_sum (UnmarshalBody (rv_Body view)))) (\<lambda>cur.
         run_bind (run_err PushKeys (run_sum (NewRepo tenantID repoID))) (\<lambda>k.
         (case check_refnames (map fst (permute order refUpdates)) of
            Some e \<Rightarrow> run_fail e
          | None \<Rightarrow>
              run_bind (run_err PushRefStore (run_sum (refstore_New (Some (env_store E)) (Some k) (Some cur)))) (\<lambda>rs.
              run_bind (run_err PushRefStore (run_op (rs_Stage rs sched refUpdates))) (\<lambda>stage.
              finish_push E G r k rs sched order refUpdates actor patcher cur
                (rh_ManifestVersion (rv_Header view)) stage))))))))"

end
