(* ===== verification/Push_Safety.thy ===== *)
theory Push_Safety
  imports Build_Commit
begin

text \<open>
  What a push does to a bucket that other clients keep using: the guard of the default branch, the
  refs a push computes, and the commit of the new root. Locale \<open>pusher\<close> is the environment of the
  engine with an area of shard objects nobody overwrites; it provides the contract of a ref store for
  the sharded layout and is interpreted on the file-system store shared with other processes.
\<close>

section \<open>Updates in any order\<close>

lemma merge_updates_eq: "[] \<notin> fst ` set us \<Longrightarrow> merge_updates us m = Inr (apply_updates us m)"
proof (induction us arbitrary: m)
  case (Cons u us)
  then show ?case by (cases u) (auto simp: apply_updates_def apply_update_def)
qed (simp add: apply_updates_def)

lemma mget_updates_distinct:
  assumes "mok m" "distinct (map fst us)"
  shows "mget (apply_updates us m) n = update_of us n (mget m n)"
  using assms
proof (induction us arbitrary: m)
  case (Cons u us)
  obtain a v where u: "u = (a, v)" by (cases u)
  have "a = n \<Longrightarrow> mget us n = None" using Cons.prems(2) u by (auto simp: map_of_eq_None_iff)
  with Cons.IH [of "apply_update u m"] Cons.prems u show ?case
    by (auto simp: apply_updates_def update_of_def apply_update_def split: option.splits)
qed (simp add: apply_updates_def update_of_def)

lemma distinct_fst_permute: "distinct (map fst us) \<Longrightarrow> distinct (map fst (permute order us))"
  by (simp add: distinct_map)

lemma mget_permute: "distinct (map fst us) \<Longrightarrow> mget (permute order us) = mget us"
  by (simp add: map_of_inject_set distinct_fst_permute)

lemma apply_updates_permute:
  assumes "mok m" "mok us"
  shows "apply_updates (permute order us) m = apply_updates us m"
proof (rule mok_ext)
  have d: "distinct (map fst us)" using assms(2) by (rule mok_distinct)
  show "mget (apply_updates (permute order us) m) = mget (apply_updates us m)"
    using assms d by (simp add: fun_eq_iff mget_updates_distinct distinct_fst_permute update_of_def mget_permute)
qed (simp_all add: assms)

section \<open>Staged look-ups\<close>

lemma staged_same_iff:
  assumes h: "shards_hold area b shards m" and nc: "no_collision shards m m'" and ne: "part sid m' \<noteq> []"
  shows "staged_same (existing_by_shard shards) m' sid \<longleftrightarrow> part sid m \<noteq> [] \<and> part sid m' = part sid m"
proof (cases "List.find (\<lambda>s. rs_Shard s = sid) shards")
  case None
  then have "part sid m = []" using part_no_shard [OF h] by blast
  with None h show ?thesis by (simp add: staged_same_def mget_existing shards_hold_def)
next
  case (Some s)
  then have s: "s \<in> set shards" "rs_Shard s = sid" by (auto simp: find_Some_iff)
  with h have "part sid m \<noteq> []" "rs_Hash s = staged_hash m sid"
    by (auto simp: shards_hold_def shard_holds_def staged_hash_def)
  moreover have "rs_Hash s = staged_hash m' sid \<Longrightarrow> part sid m' = part sid m"
    using nc ne s by (auto simp: no_collision_def)
  ultimately show ?thesis
    using Some h by (auto simp: staged_same_def mget_existing shards_hold_def staged_hash_def)
qed

lemma find_staged_write:
  "List.find (\<lambda>w. sw_Shard w = sid) (map (staged_write k ex m') sids) =
     (if sid \<in> set sids then Some (staged_write k ex m' sid) else None)"
  by (induction sids) (auto simp: staged_write_def)

text \<open>A sharded stage knows a ref exactly when its shard is rewritten: touched, not emptied, changed.\<close>

lemma stage_Lookup_sharded:
  assumes h: "shards_hold area b shards m" and us: "wf_refs us" and nc: "no_collision shards m m'"
    and m': "m' = apply_updates us m"
    and st: "sg_Mode st = ModeSharded" "sg_NewShardObjects st = staged_writes k shards us m'"
  shows "stage_Lookup st n =
     (if part (ShardKey n) m' \<noteq> [] \<and> part (ShardKey n) m' \<noteq> part (ShardKey n) m then Inr (mget m' n)
      else Inl ErrLookupNotInStage)"
proof -
  let ?sid = "ShardKey n"
  have wf: "wf_refs m" using h by (simp add: shards_hold_def)
  have "?sid \<in> set (filter (\<lambda>sid. part sid m' \<noteq> [] \<and> \<not> staged_same (existing_by_shard shards) m' sid) (map fst (updates_by_shard us)))
      \<longleftrightarrow> part ?sid us \<noteq> [] \<and> part ?sid m' \<noteq> [] \<and> part ?sid m' \<noteq> part ?sid m"
    using touched_ids [OF wf_refs_mok [OF us]] unfolding set_filter by (auto simp: staged_same_iff [OF h nc])
  moreover have "part ?sid us = [] \<Longrightarrow> part ?sid m' = part ?sid m"
    unfolding m' by (rule part_untouched) (use wf us in simp_all)
  ultimately have "List.find (\<lambda>w. sw_Shard w = ?sid) (sg_NewShardObjects st) =
      (if part ?sid m' \<noteq> [] \<and> part ?sid m' \<noteq> part ?sid m then Some (staged_write k (existing_by_shard shards) m' ?sid) else None)"
    unfolding st staged_writes_def find_staged_write by auto
  moreover have "wf_refs (part ?sid m')" unfolding m' using wf_refs_apply_updates [OF wf us] by simp
  ultimately show ?thesis
    using st(1) by (simp add: stage_Lookup_def parseShardWrite_def staged_write_def shard_roundtrip map_get_def mget_part)
qed

section \<open>The guard of the default branch\<close>

definition guard_result :: "bool \<Rightarrow> string \<Rightarrow> push_error + unit \<Rightarrow> bool" where
  "guard_result refused branch r \<longleftrightarrow>
     (\<exists>e. r = Inl (PushRefStore e) \<and> store_failure e) \<or> r = (if refused then Inl (PushDeletesDefault branch) else Inr ())"

context ref_bucket
begin

lemma guard_sharded:
  assumes h: "holds shards w m" and us: "wf_refs us" and m': "m' = apply_updates us m" and nc: "no_collision shards m m'"
    and st: "rs_Stage (ShardedRefStore S kr shards) sched us w = (Inr st, w1)" and br: "branch \<noteq> []"
  shows "\<exists>r w2. guard_default (ShardedRefStore S kr shards) st branch w1 = Some (r, w2) \<and>
     guard_result (mget m branch \<noteq> None \<and> mget m' branch = None \<and> part (ShardKey branch) m' \<noteq> []) branch r"
proof -
  let ?rs = "ShardedRefStore S kr shards"
  have run: "sharded_Stage S kr shards sched us w = (Inr st, w1)" using st by (simp add: rs_Stage_def)
  from stage_refs [OF h us run] have w1: "holds shards w1 m" and
    sg: "sg_Mode st = ModeSharded" "sg_NewShardObjects st = staged_writes kr shards us m'"
    by (simp_all add: m')
  have hold: "shards_hold area (view w1) shards m" using w1 by (simp add: holds_def)
  note look = stage_Lookup_sharded [OF hold us nc m' sg, of branch]
  obtain r w2 where l: "rs_Lookup ?rs branch w1 = (r, w2)" by fastforce
  have L: "case r of Inr v \<Rightarrow> v = mget m branch | Inl e \<Rightarrow> store_failure e"
    using lookup_law [OF w1, of branch r w2] l by (simp add: rs_Lookup_def)
  have same: "part (ShardKey branch) m' = part (ShardKey branch) m \<Longrightarrow> mget m' branch = mget m branch"
    using mget_part [of "ShardKey branch" m' branch] mget_part [of "ShardKey branch" m branch] by simp
  show ?thesis
  proof (cases r)
    case (Inl e)
    with l L br show ?thesis by (simp add: guard_default_def run_eval guard_result_def)
  next
    case (Inr v)
    with L have v: "v = mget m branch" by simp
    show ?thesis
    proof (cases "part (ShardKey branch) m' \<noteq> [] \<and> part (ShardKey branch) m' \<noteq> part (ShardKey branch) m")
      case True
      then have "stage_Lookup st branch = Inr (mget m' branch)" using look by simp
      with True l Inr v br show ?thesis
        by (cases "mget m branch"; cases "mget m' branch") (simp_all add: guard_default_def run_eval guard_result_def default_after_def)
    next
      case False
      then have "stage_Lookup st branch = Inl ErrLookupNotInStage" using look by auto
      with False same l Inr v br show ?thesis
        by (cases "mget m branch"; cases "mget m' branch") (auto simp: guard_default_def run_eval guard_result_def default_after_def)
    qed
  qed
qed

end

section \<open>The refs of a push\<close>

context ref_store
begin

text \<open>In either layout, and in whatever order the maps are iterated, a push works with the refs shown
  before, updated.\<close>

lemma effective_refs:
  assumes sh: "shows_refs w m" and us: "wf_refs us" "[] \<notin> fst ` set us"
    and st: "rs_Stage rs sched us w0 = (Inr st, w)" "shows_refs w0 m" and pre: "pre = None \<or> pre = Some m"
    and run: "buildEffectiveRefs rs st sched' order us pre w = Some (r, w')"
  shows "shows_refs w' m \<and> (case r of Inl e \<Rightarrow> \<exists>x. e = PushRefStore x \<and> store_failure x | Inr refs \<Rightarrow> refs = apply_updates us m)"
proof (cases "sg_Mode st = ModeInline")
  case True
  with stage_shown [OF st(2) us(1) st(1)] run sh show ?thesis
    by (auto simp: buildEffectiveRefs_def run_eval)
next
  case False
  have "[] \<notin> fst ` set (permute order us)" using us(2) by simp
  moreover have "mok m" "mok us" using shown_wf [OF sh] us(1) by simp_all
  ultimately have merge: "merge_updates (permute order us) m = Inr (apply_updates us m)"
    by (simp add: merge_updates_eq apply_updates_permute)
  show ?thesis
  proof (cases pre)
    case (Some p)
    with pre False run sh show ?thesis by (auto simp: buildEffectiveRefs_def run_eval merge)
  next
    case None
    obtain lr w1 where l: "rs_List rs sched' w = (lr, w1)" by fastforce
    from list_shown [OF sh l] None False run show ?thesis
      by (cases lr) (auto simp: buildEffectiveRefs_def run_eval merge l)
  qed
qed

end

section \<open>A push and other clients\<close>

text \<open>The refs a body shows over a bucket, in either layout.\<close>

definition body_shows :: "(string \<Rightarrow> bool) \<Rightarrow> bucket \<Rightarrow> Body \<Rightarrow> refmap \<Rightarrow> bool" where
  "body_shows area b body m \<longleftrightarrow>
     (if bd_RefShards body = [] then bd_Refs body = m \<and> wf_refs m else shards_hold area b (bd_RefShards body) m)"

lemma body_shows_keeps: "keeps area b b' \<Longrightarrow> body_shows area b body m \<Longrightarrow> body_shows area b' body m"
  by (auto simp: body_shows_def intro: shards_hold_keeps)

lemma shards_hold_empty: "shards_hold area b [] m \<Longrightarrow> m = []"
  by (cases m) (auto simp: shards_hold_def)

definition same_refs :: "Body \<Rightarrow> Body \<Rightarrow> bool" where
  "same_refs b b' \<longleftrightarrow> bd_Refs b' = bd_Refs b \<and> bd_RefShards b' = bd_RefShards b"

text \<open>The layout a push commits for a stage.\<close>

definition lays_out :: "Stage \<Rightarrow> Body \<Rightarrow> bool" where
  "lays_out st body \<longleftrightarrow> same_refs (if empty_target st then zero_body else with_refs st zero_body) body"

lemma refstore_New_cases:
  assumes "refstore_New (Some S) (Some k) (Some cur) = Inr rs"
  shows "rs = (if bd_RefShards cur = [] then InlineRefStore (bd_Refs cur) else ShardedRefStore S k (bd_RefShards cur))"
  using assms by (auto simp: refstore_New_def newInlineRefStore_def newShardedRefStore_def split: if_splits)

text \<open>The objects a stage asks for are shard objects.\<close>

lemma stage_shards_keys:
  "stage_shards k ex loaded by = Inr (ws, ss) \<Longrightarrow> x \<in> set ws \<Longrightarrow> \<exists>h. sw_Key x = RefShardKey k h"
proof (induction "by" arbitrary: ws ss)
  case (Cons p bs)
  then show ?case
    by (cases p) (fastforce simp: Let_def split: sum.splits if_splits option.splits prod.splits)
qed simp

lemma stage_keys:
  assumes "rs_Stage rs sched us w = (Inr st, w')" "x \<in> set (sg_NewShardObjects st)"
    "rs = InlineRefStore refs \<or> rs = ShardedRefStore S k shards"
  shows "\<exists>h. sw_Key x = RefShardKey k h"
  using assms stage_shards_keys [of k]
  by (fastforce simp: rs_Stage_def inline_Stage_def sharded_Stage_def Let_def split: if_splits prod.splits sum.splits)

lemma run_bind_Inr_iff: "run_bind m f w = Some (Inr y, w') \<longleftrightarrow> (\<exists>x w1. m w = Some (Inr x, w1) \<and> f x w1 = Some (Inr y, w'))"
  by (auto simp: run_bind_Some)

lemma run_err_Inr_iff: "run_err h m w = Some (Inr x, w') \<longleftrightarrow> m w = Some (Inr x, w')"
  by (auto simp: run_err_Some)

text \<open>What a push that succeeds has done. At one instant \<open>b0\<close> the root was read, with the body \<open>cur\<close>. At a later
  one, \<open>b1\<close>, the commit read a root of the same manifest version; and at \<open>b2\<close>, when the root still carried the object
  version of that one, it was replaced by its successor with the new body. The body shows the updated refs
  in every bucket that has kept the shard objects and holds the staged ones.\<close>

definition push_landed ::
  "semver \<Rightarrow> (string \<Rightarrow> ObjectVersion \<Rightarrow> bool) \<Rightarrow> (bucket \<Rightarrow> bucket \<Rightarrow> bool) \<Rightarrow> (string \<Rightarrow> bool) \<Rightarrow> keys_repo \<Rightarrow>
   refmap \<Rightarrow> Body \<Rightarrow> bucket \<Rightarrow> bucket \<Rightarrow> bool" where
  "push_landed sv vers rely area kr us body b b' \<longleftrightarrow>
     (\<exists>b0 c0 v0 h0 j0 cur st b1 c1 v h1 j1 b2 c2 tx now nb nxt v'.
        hist vers rely (RootManifestKey kr) b b0 \<and> b0 (RootManifestKey kr) = Some (c0, v0) \<and>
        decode_root sv c0 = Inr (h0, j0) \<and> UnmarshalBody j0 = Inr cur \<and>
        hist vers rely (RootManifestKey kr) b0 b1 \<and> b1 (RootManifestKey kr) = Some (c1, v) \<and>
        decode_root sv c1 = Inr (h1, j1) \<and> rh_ManifestVersion h1 = rh_ManifestVersion h0 \<and>
        hist vers rely (RootManifestKey kr) b1 b2 \<and> b2 (RootManifestKey kr) = Some (c2, v) \<and>
        MarshalBody body = Inr nb \<and> WrapHeaderInBody (next_header h1 tx now) nb = Inr nxt \<and> vers nxt v' \<and>
        hist vers rely (RootManifestKey kr) (b2(RootManifestKey kr \<mapsto> (nxt, v'))) b' \<and>
        (\<forall>m b3. body_shows area b0 cur m \<longrightarrow> no_collision (bd_RefShards cur) m (apply_updates us m) \<longrightarrow>
           keeps area b2 b3 \<longrightarrow> published b3 st \<longrightarrow> body_shows area b3 body (apply_updates us m)))"

lemma push_callback_built:
  "push_callback S v st nb rv w = (Inr newBody, w') \<Longrightarrow> newBody = nb \<and> rh_ManifestVersion (rv_Header rv) = v"
  by (auto simp: push_callback_def split: if_splits sum.splits prod.splits)

lemma hist_keeps:
  assumes "hist vers rely root b b'" "\<And>b b'. rely b b' \<Longrightarrow> keeps area b b'"
  shows "keeps area b b'"
  using assms(1) unfolding hist_def
proof (induction rule: rtranclp_induct)
  case (step y z)
  have "keeps area y z" using step(2) assms(2) by (auto simp: put_new_def keeps_def)
  with step(3) show ?case by (rule keeps_trans)
qed simp

locale pusher = collected E view good vers rely area
  for E :: "'w Env" and view :: "'w \<Rightarrow> bucket" and good :: "'w \<Rightarrow> bool"
    and vers :: "string \<Rightarrow> ObjectVersion \<Rightarrow> bool" and rely :: "bucket \<Rightarrow> bucket \<Rightarrow> bool" and area :: "string \<Rightarrow> bool" +
  fixes kr :: keys_repo
  assumes area_shards: "area (RefShardKey kr h)"

sublocale pusher \<subseteq> shard: ref_bucket "env_store E" view good vers rely area kr
  by unfold_locales (use others_keep area_shards in auto)

context pusher
begin

text \<open>The root is left to others.\<close>

definition stepped :: "'w \<Rightarrow> 'w \<Rightarrow> bool" where
  "stepped w w' \<longleftrightarrow> (good w \<longrightarrow> H kr w w')"

lemma stepped_refl [simp]: "reflp stepped"
  by (simp add: reflp_def stepped_def)

lemma stepped_trans [simp]: "transp stepped"
  unfolding transp_def stepped_def using H_trans by blast

lemma rely_stepped: "(good w \<Longrightarrow> good w' \<and> rely (view w) (view w')) \<Longrightarrow> stepped w w'"
  unfolding stepped_def using rely_H by blast

definition quiet :: "('w \<Rightarrow> 'a \<times> 'w) \<Rightarrow> bool" where
  "quiet f \<longleftrightarrow> (\<forall>w r w'. good w \<longrightarrow> f w = (r, w') \<longrightarrow> good w' \<and> rely (view w) (view w'))"

lemma quiet_run: "quiet f \<Longrightarrow> run_rel stepped (run_op f)"
  by (rule run_rel_op, rule rely_stepped) (auto simp: quiet_def)

lemma get_quiet: "quiet (os_Get (env_store E) k None)"
  unfolding quiet_def by (metis get_law rely_trans)

lemma put_run: "k \<noteq> RootManifestKey kr \<Longrightarrow> run_rel stepped (run_op (os_PutIfAbsent (env_store E) k c ct))"
  by (rule run_rel_op, unfold stepped_def) (use put_H in blast)

lemma get_only_quiet: "(\<And>w r w'. f w = (r, w') \<Longrightarrow> \<exists>k g. os_Get (env_store E) k None w = (g, w')) \<Longrightarrow> quiet f"
  using get_quiet unfolding quiet_def by blast

lemma quietD: "quiet f \<Longrightarrow> good w \<Longrightarrow> f w = (r, w') \<Longrightarrow> good w' \<and> rely (view w) (view w')"
  unfolding quiet_def by blast

lemma fetch_quiet: "quiet (fetchShard (env_store E) s)"
  by (rule get_only_quiet) (auto simp: fetchShard_def split: prod.splits sum.splits if_splits option.splits)

lemma fetch_merge_quiet: "quiet (fetch_merge (env_store E) ss out)"
proof (induction ss arbitrary: out)
  case Nil
  then show ?case by (simp add: quiet_def rely_refl)
next
  case (Cons s ss)
  show ?case
    unfolding quiet_def
  proof (intro allI impI)
    fix w r w' assume w: "good w" and run: "fetch_merge (env_store E) (s # ss) out w = (r, w')"
    obtain f w1 where f: "fetchShard (env_store E) s w = (f, w1)" by fastforce
    note q = quietD [OF fetch_quiet w f]
    show "good w' \<and> rely (view w) (view w')"
    proof (cases f)
      case (Inl e)
      with q f run show ?thesis by simp
    next
      case (Inr refs)
      with f run have "fetch_merge (env_store E) ss (mput_all (case refs of None \<Rightarrow> [] | Some m \<Rightarrow> m) out) w1 = (r, w')" by simp
      from quietD [OF Cons.IH _ this] q show ?thesis by (blast intro: rely_trans)
    qed
  qed
qed

lemma load_quiet: "quiet (load_shards (env_store E) ex sids loaded)"
proof (induction sids arbitrary: loaded)
  case Nil
  then show ?case by (simp add: quiet_def rely_refl)
next
  case (Cons sid sids)
  show ?case
    unfolding quiet_def
  proof (intro allI impI)
    fix w r w' assume w: "good w" and run: "load_shards (env_store E) ex (sid # sids) loaded w = (r, w')"
    show "good w' \<and> rely (view w) (view w')"
    proof (cases "mget ex sid")
      case None
      with run have "load_shards (env_store E) ex sids (mput sid (Some []) loaded) w = (r, w')" by simp
      from quietD [OF Cons.IH w this] show ?thesis .
    next
      case (Some s)
      obtain f w1 where f: "fetchShard (env_store E) s w = (f, w1)" by fastforce
      note q = quietD [OF fetch_quiet w f]
      show ?thesis
      proof (cases f)
        case (Inl e)
        with q f run Some show ?thesis by simp
      next
        case (Inr refs)
        with f run Some have "load_shards (env_store E) ex sids (mput sid refs loaded) w1 = (r, w')" by simp
        from quietD [OF Cons.IH _ this] q show ?thesis by (blast intro: rely_trans)
      qed
    qed
  qed
qed

text \<open>The ref store of a push: inline, or sharded over the same store.\<close>

definition own :: "'w RefStore \<Rightarrow> bool" where
  "own rs \<longleftrightarrow> (case rs of InlineRefStore _ \<Rightarrow> True | ShardedRefStore S k _ \<Rightarrow> S = env_store E \<and> k = kr)"

lemma own_quiet:
  assumes "own rs"
  shows "quiet (rs_Lookup rs n)" "quiet (rs_List rs sched)" "quiet (rs_Stage rs sched us)"
proof -
  show "quiet (rs_Lookup rs n)"
  proof (cases rs)
    case (InlineRefStore refs)
    then show ?thesis by (simp add: rs_Lookup_def quiet_def rely_refl)
  next
    case (ShardedRefStore S k shards)
    with assms have "S = env_store E" by (simp add: own_def)
    with ShardedRefStore show ?thesis
      using fetch_quiet unfolding quiet_def
      by (auto simp: rs_Lookup_def sharded_Lookup_def rely_refl split: option.splits prod.splits sum.splits)
  qed
  show "quiet (rs_List rs sched)"
  proof (cases rs)
    case (InlineRefStore refs)
    then show ?thesis by (simp add: rs_List_def quiet_def rely_refl)
  next
    case (ShardedRefStore S k shards)
    with assms show ?thesis
      using fetch_merge_quiet unfolding quiet_def own_def by (simp add: rs_List_def sharded_List_def)
  qed
  show "quiet (rs_Stage rs sched us)"
  proof (cases rs)
    case (InlineRefStore refs)
    then show ?thesis by (simp add: rs_Stage_def quiet_def rely_refl)
  next
    case (ShardedRefStore S k shards)
    with assms have S: "S = env_store E" by (simp add: own_def)
    show ?thesis
      using ShardedRefStore load_quiet unfolding quiet_def S
      by (auto simp: rs_Stage_def sharded_Stage_def Let_def rely_refl split: if_splits prod.splits sum.splits)
  qed
qed

lemma ReadRoot_quiet: "quiet (repo_ReadRoot E r)"
  by (rule get_only_quiet) (auto simp: repo_ReadRoot_def ReadRoot_def split: prod.splits sum.splits if_splits)

lemma Open_quiet: "quiet (repo_Open E t i)"
  unfolding quiet_def
proof (intro allI impI)
  fix w r w' assume w: "good w" and run: "repo_Open E t i w = (r, w')"
  show "good w' \<and> rely (view w) (view w')"
  proof (cases "NewRepo t i")
    case (Inl e)
    with run w show ?thesis by (simp add: repo_Open_def rely_refl)
  next
    case (Inr k)
    with run obtain g where "os_Get (env_store E) (RootManifestKey k) None w = (g, w')"
      by (auto simp: repo_Open_def ReadRoot_def split: prod.splits sum.splits if_splits)
    from quietD [OF get_quiet w this] show ?thesis .
  qed
qed

definition mirror_ok :: "'w Mirror \<Rightarrow> bool" where
  "mirror_ok G \<longleftrightarrow> (\<forall>oid. quiet (mi_RevParseObjectKind G oid)) \<and> quiet (mi_MkdirTemp G) \<and> quiet (mi_removeKeepFiles G) \<and>
     quiet (mi_PackObjectsAll G) \<and> (\<forall>p m. quiet (mi_buildIndexes G p m)) \<and> (\<forall>p. quiet (mi_read_pack G p)) \<and>
     (\<forall>p. quiet (mi_read_idx G p)) \<and> (\<forall>a b. quiet (mi_RevListCommitsOnly G a b))"

definition patcher_ok :: "'w patcher option \<Rightarrow> bool" where
  "patcher_ok patcher \<longleftrightarrow> (\<forall>p a b c. patcher = Some p \<longrightarrow> run_rel stepped (run_op (p a b c)) \<and>
     (\<forall>w b' w'. p a b c w = (Inr b', w') \<longrightarrow> same_refs b b'))"

lemmas stepped_rules = stepped_refl stepped_trans run_rules put_run

lemma guard_stepped: "own rs \<Longrightarrow> run_rel stepped (guard_default rs st br)"
  unfolding guard_default_def by (auto intro!: stepped_rules quiet_run own_quiet)

lemma list_stepped: "own rs \<Longrightarrow> run_rel stepped (run_op (rs_List rs sched))"
  by (rule quiet_run) (rule own_quiet)

lemma effective_stepped: "own rs \<Longrightarrow> run_rel stepped (buildEffectiveRefs rs st sched order us pre)"
  unfolding buildEffectiveRefs_def by (auto intro!: stepped_rules list_stepped split: option.splits)

lemma tips_stepped: "mirror_ok G \<Longrightarrow> run_rel stepped (check_tips G refs)"
  unfolding check_tips_def mirror_ok_def by (auto intro!: stepped_rules quiet_run)

lemma upload_stepped:
  assumes "k \<noteq> RootManifestKey kr"
  shows "run_rel stepped (uploadBytes (env_store E) b k)" "quiet f \<Longrightarrow> run_rel stepped (uploadFileVerified (env_store E) f k)"
  using assms unfolding uploadBytes_def uploadFileVerified_def sha256OfStoredObject_def
  by (auto intro!: stepped_rules quiet_run [of f] quiet_run [OF get_quiet] split: sum.splits)

lemma repack_stepped:
  assumes "mirror_ok G"
  shows "run_rel stepped (repack (env_store E) G kr cur refs)"
proof -
  have keys: "CanonicalPackKey kr p \<noteq> RootManifestKey kr" "the (PackIdxKey kr p ''canonical'') \<noteq> RootManifestKey kr"
      "ObjectMapKey kr h \<noteq> RootManifestKey kr" "CommitGraphKey kr h \<noteq> RootManifestKey kr" for p h
    by (simp_all add: CanonicalPackKey_def PackIdxKey_def checkPackArea_def ObjectMapKey_def CommitGraphKey_def RootManifestKey_def)
  show ?thesis
    using assms unfolding repack_def upload_artifacts_def Let_def mirror_ok_def
    by (intro stepped_rules quiet_run upload_stepped keys) blast+
qed

lemma patcher_stepped:
  assumes "mirror_ok G" "patcher_ok patcher" "own rs"
  shows "run_rel stepped (run_patcher G rs sched order us pre cur patcher body)"
proof -
  have rev: "run_rel stepped (run_op (mi_RevListCommitsOnly G a b))" for a b
    using assms(1) unfolding mirror_ok_def by (blast intro: quiet_run)
  have patch: "patcher = Some p \<Longrightarrow> run_rel stepped (run_op (p a b c))" for p a b c
    using assms(2) unfolding patcher_ok_def by blast
  show ?thesis
    using list_stepped [OF assms(3)] unfolding run_patcher_def Let_def
    by (auto intro!: stepped_rules rev patch split: option.splits)
qed

lemma patcher_refs:
  assumes "patcher_ok patcher" "run_patcher G rs sched order us pre cur patcher body w = Some (Inr body', w')"
  shows "same_refs body body'"
proof (cases patcher)
  case None
  with assms(2) show ?thesis by (simp add: run_patcher_def run_return_Some same_refs_def)
next
  case (Some p)
  with assms(2) obtain c w1 where "p cur body c w1 = (Inr body', w')"
    by (auto simp: run_patcher_def Let_def run_bind_Inr_iff run_err_Inr_iff run_op_Some)
  with assms(1) Some show ?thesis unfolding patcher_ok_def by blast
qed

lemma push_commit_ok:
  assumes "push_commit E r actor v st body w = Some (Inr body', w')"
  obtains nb tx where "body' = body" "MarshalBody body = Inr nb"
    "Commit E r (simple_tx_body ''push'' actor) (push_callback (env_store E) v st nb) [] w = (Inr tx, w')"
  using assms by (auto simp: push_commit_def run_bind_Inr_iff run_err_Inr_iff run_op_Some run_return_Some run_sum_Some)

lemma finish_push_ok:
  assumes ok: "mirror_ok G" "patcher_ok patcher" "own rs"
    and run: "finish_push E G r kr rs sched order us actor patcher cur v st w = Some (Inr body, w')"
  shows "\<exists>w1 nb tx. stepped w w1 \<and> MarshalBody body = Inr nb \<and> lays_out st body \<and>
    Commit E r (simple_tx_body ''push'' actor) (push_callback (env_store E) v st nb) [] w1 = (Inr tx, w')"
proof -
  let ?pre = "if sg_Mode st = ModeSharded then run_bind (run_err PushRefStore (run_op (rs_List rs sched))) (\<lambda>m. run_return (Some m))
     else run_return None"
  have preS: "run_rel stepped ?pre" using list_stepped [OF ok(3)] by (auto intro!: stepped_rules)
  from run obtain w1 pre w2 eff w3 w4 where
    1: "guard_default rs st (bd_DefaultBranch cur) w = Some (Inr (), w1)" "?pre w1 = Some (Inr pre, w2)"
      "buildEffectiveRefs rs st sched order us pre w2 = Some (Inr eff, w3)" "check_tips G (permute order eff) w3 = Some (Inr (), w4)"
    and 2: "(if empty_target st then commitEmptyBody E r cur v actor st
     else run_bind (repack (env_store E) G kr cur eff) (\<lambda>body.
       run_bind (run_patcher G rs sched order us pre cur patcher (with_refs st body)) (\<lambda>body.
       push_commit E r actor v st body))) w4 = Some (Inr body, w')"
    unfolding finish_push_def run_bind_Inr_iff by auto
  have s4: "stepped w w4"
    using run_relD [OF guard_stepped [OF ok(3)] 1(1)] run_relD [OF preS 1(2)] run_relD [OF effective_stepped [OF ok(3)] 1(3)]
      run_relD [OF tips_stepped [OF ok(1)] 1(4)] stepped_trans unfolding transp_def by blast
  show ?thesis
  proof (cases "empty_target st")
    case True
    with 2 have "commitEmptyBody E r cur v actor st w4 = Some (Inr body, w')" by simp
    then show ?thesis
      unfolding commitEmptyBody_def
      by (rule push_commit_ok) (use s4 True in \<open>auto simp: lays_out_def same_refs_def zero_body_def\<close>)
  next
    case False
    with 2 obtain b1 w5 b2 w6 where 3: "repack (env_store E) G kr cur eff w4 = Some (Inr b1, w5)"
        "run_patcher G rs sched order us pre cur patcher (with_refs st b1) w5 = Some (Inr b2, w6)"
        "push_commit E r actor v st b2 w6 = Some (Inr body, w')"
      by (auto simp: run_bind_Inr_iff)
    have s6: "stepped w w6"
      using s4 run_relD [OF repack_stepped [OF ok(1)] 3(1)] run_relD [OF patcher_stepped [OF ok] 3(2)] stepped_trans
      unfolding transp_def by blast
    have "same_refs (with_refs st zero_body) b2"
      using patcher_refs [OF ok(2) 3(2)] by (cases "sg_Mode st") (auto simp: same_refs_def with_refs_def)
    then show ?thesis
      using 3(3) s6 False by (elim push_commit_ok) (auto simp: lays_out_def)
  qed
qed

lemma publish_H:
  assumes "\<forall>x \<in> set ws. \<exists>h. sw_Key x = RefShardKey kr h" "good w" "publish_shards (env_store E) ws w = (r, w')"
  shows "H kr w w'"
  using assms
proof (induction ws arbitrary: w)
  case (Cons x ws)
  obtain q w1 where q: "os_PutIfAbsent (env_store E) (sw_Key x) (sw_Contents x) [] w = (q, w1)" by fastforce
  have "sw_Key x \<noteq> RootManifestKey kr"
    using Cons.prems(1) by (auto simp: RefShardKey_def RootManifestKey_def)
  then have h: "H kr w w1" by (rule put_H [OF Cons.prems(2) q])
  show ?case
  proof (cases "(\<exists>v. q = Inr v) \<or> q = Inl ErrAlreadyExists")
    case True
    with q Cons.prems(3) have "publish_shards (env_store E) ws w1 = (r, w')" by auto
    with Cons.IH [of w1] Cons.prems(1) h H_trans show ?thesis by auto
  next
    case False
    with q Cons.prems(3) h show ?thesis by (auto split: sum.splits if_splits)
  qed
qed simp

lemma push_callback_ok:
  assumes "\<forall>x \<in> set (sg_NewShardObjects st). \<exists>h. sw_Key x = RefShardKey kr h"
  shows "callback_ok kr (push_callback (env_store E) v st nb)"
  unfolding callback_ok_def
proof (intro allI impI)
  fix rv w r w' assume w: "good w" and run: "push_callback (env_store E) v st nb rv w = (r, w')"
  obtain q w1 where q: "publish_shards (env_store E) (sg_NewShardObjects st) w = (q, w1)" by fastforce
  have h: "H kr w w1" by (rule publish_H [OF assms w q])
  from run q h w show "good w' \<and> hist vers rely (RootManifestKey kr) (view w) (view w')"
    by (auto simp: push_callback_def split: if_splits sum.splits)
qed

lemma staged_layout:
  assumes good: "good w" and cur: "body_shows area (view w) cur m" and us: "wf_refs us"
    and rs: "rs = (if bd_RefShards cur = [] then InlineRefStore (bd_Refs cur) else ShardedRefStore (env_store E) kr (bd_RefShards cur))"
    and st: "rs_Stage rs sched us w = (Inr st, w')" and nc: "no_collision (bd_RefShards cur) m (apply_updates us m)"
    and lay: "lays_out st body" and b1: "keeps area (view w') b1" "published b1 st"
  shows "body_shows area b1 body (apply_updates us m)"
proof (cases "bd_RefShards cur = []")
  case True
  with cur rs have m: "m = bd_Refs cur" "wf_refs m" "rs = InlineRefStore m" by (simp_all add: body_shows_def)
  have "sg_Mode st = ModeInline" "sg_NewInlineRefs st = apply_updates us m"
    using st m by (auto simp: rs_Stage_def inline_Stage_def mput_all_self)
  with lay show ?thesis
    using wf_refs_apply_updates [OF m(2) us]
    by (auto simp: lays_out_def empty_target_def same_refs_def with_refs_def body_shows_def zero_body_def split: if_splits)
next
  case False
  with cur rs have h: "shard.holds (bd_RefShards cur) w m" and rs': "rs = ShardedRefStore (env_store E) kr (bd_RefShards cur)"
    using good by (simp_all add: body_shows_def shard.holds_def)
  from shard.sharded.stage_shown [OF h us st [unfolded rs']] nc
  have sg: "sg_Mode st = ModeSharded" and d: "staged_denotes area (view w') st (apply_updates us m)"
    by (simp_all add: rs_Mode_def)
  have hold: "shards_hold area b1 (sg_NewRefShards st) (apply_updates us m)"
    using d b1 by (simp add: staged_denotes_def)
  show ?thesis
  proof (cases "sg_NewRefShards st = []")
    case True
    with hold have "apply_updates us m = []" using shards_hold_empty by simp
    with True sg lay show ?thesis
      by (simp add: lays_out_def empty_target_def same_refs_def body_shows_def zero_body_def wf_refs_def)
  next
    case False
    with sg lay hold show ?thesis
      by (simp add: lays_out_def empty_target_def same_refs_def with_refs_def body_shows_def)
  qed
qed

text \<open>A commit of the callback, unpacked.\<close>

lemma committed_push:
  assumes "committed sv kr vers rely (ran (push_callback (env_store E) v st nb)) tx b b'"
  obtains b1 c1 u h1 j1 b2 c2 now nxt v' where
    "hist vers rely (RootManifestKey kr) b b1" "b1 (RootManifestKey kr) = Some (c1, u)" "decode_root sv c1 = Inr (h1, j1)"
    "rh_ManifestVersion h1 = v" "hist vers rely (RootManifestKey kr) b1 b2" "b2 (RootManifestKey kr) = Some (c2, u)"
    "WrapHeaderInBody (next_header h1 tx now) nb = Inr nxt" "vers nxt v'"
    "hist vers rely (RootManifestKey kr) (b2(RootManifestKey kr \<mapsto> (nxt, v'))) b'"
proof -
  let ?R = "RootManifestKey kr" and ?T = "TxRecordKey kr tx"
  obtain b1 c1 rv bc newBody bf bt rec tv b2 c2 now nxt v' where c:
    "hist vers rely ?R b b1" "b1 ?R = Some (c1, rv_Version rv)" "decode_root sv c1 = Inr (rv_Header rv, rv_Body rv)"
    "hist vers rely ?R b1 bc" "ran (push_callback (env_store E) v st nb) rv bc newBody bf"
    "hist vers rely ?R bc bf" "hist vers rely ?R bf bt" "bt ?T = None" "vers rec tv"
    "hist vers rely ?R (bt(?T \<mapsto> (rec, tv))) b2" "b2 ?R = Some (c2, rv_Version rv)"
    "WrapHeaderInBody (next_header (rv_Header rv) tx now) newBody = Inr nxt" "vers nxt v'"
    "hist vers rely ?R (b2(?R \<mapsto> (nxt, v'))) b'"
    using assms unfolding committed_def by blast
  have n: "newBody = nb" "rh_ManifestVersion (rv_Header rv) = v"
    using c(5) unfolding ran_def by (auto dest: push_callback_built)
  have "hist vers rely ?R bt (bt(?T \<mapsto> (rec, tv)))"
    using c(8,9) by (auto simp: TxRecordKey_def RootManifestKey_def intro: hist_put)
  then have "hist vers rely ?R b1 b2" using c(4,6,7,10) by (blast intro: hist_trans)
  with c n show ?thesis using that by blast
qed

lemma BuildAndCommit_spec:
  assumes good: "good w" and k: "NewRepo t i = Inr kr" and ok: "mirror_ok G" "patcher_ok patcher" and us: "wf_refs us"
    and run: "BuildAndCommit (Some E) G t i sched order us actor patcher w = Some (Inr body, w')"
  shows "good w' \<and> push_landed (env_semver E) vers rely area kr us body (view w) (view w')"
proof -
  from run obtain r w1 rv w2 cur rs st w3 where
    1: "repo_Open E t i w = (Inr r, w1)" and 2: "repo_ReadRoot E r w1 = (Inr rv, w2)"
    and 3: "UnmarshalBody (rv_Body rv) = Inr cur" "refstore_New (Some (env_store E)) (Some kr) (Some cur) = Inr rs"
    and 4: "rs_Stage rs sched us w2 = (Inr st, w3)"
    and 5: "finish_push E G r kr rs sched order us actor patcher cur (rh_ManifestVersion (rv_Header rv)) st w3 = Some (Inr body, w')"
    unfolding BuildAndCommit_def
    by (auto simp: run_bind_Inr_iff run_err_Inr_iff run_op_Some run_sum_Some k run_fail_Some split: if_splits option.splits)
  have r: "r = kr" using 1 k by (auto simp: repo_Open_def split: prod.splits sum.splits)
  have h1: "H kr w w1" using quietD [OF Open_quiet good 1] rely_H by blast
  note rs = refstore_New_cases [OF 3(2)]
  have own: "own rs" by (simp add: rs own_def)
  have g2: "good w2" using quietD [OF ReadRoot_quiet _ 2] h1 by blast
  obtain b0 c0 v0 where b0: "rely (view w1) b0" "rely b0 (view w2)" "b0 (RootManifestKey kr) = Some (c0, v0)"
      "decode_root (env_semver E) c0 = Inr (rv_Header rv, rv_Body rv)"
    using ReadRoot_at [of w1 kr rv w2] 2 h1 r by blast
  have s3: "good w3 \<and> rely (view w2) (view w3)" by (rule quietD [OF own_quiet(3) [OF own] g2 4])
  obtain w4 nb tx where f: "stepped w3 w4" "MarshalBody body = Inr nb" "lays_out st body"
      "Commit E kr (simple_tx_body ''push'' actor) (push_callback (env_store E) (rh_ManifestVersion (rv_Header rv)) st nb) [] w4 = (Inr tx, w')"
    using finish_push_ok [OF ok own 5] r by blast
  have keys: "\<forall>x \<in> set (sg_NewShardObjects st). \<exists>h. sw_Key x = RefShardKey kr h"
    using stage_keys [OF 4] rs by (metis (full_types))
  have h34: "H kr w3 w4" using f(1) s3 by (simp add: stepped_def)
  have c: "good w' \<and> committed (env_semver E) kr vers rely (ran (push_callback (env_store E) (rh_ManifestVersion (rv_Header rv)) st nb)) tx (view w4) (view w')"
    using Commit_spec [OF push_callback_ok [OF keys] _ f(4)] h34 by (simp add: commit_post_def)
  have h04: "hist vers rely (RootManifestKey kr) b0 (view w3)" "hist vers rely (RootManifestKey kr) (view w) b0"
    using b0(1,2) s3 h1 by (blast intro: hist_rely hist_trans)+
  from c have "committed (env_semver E) kr vers rely (ran (push_callback (env_store E) (rh_ManifestVersion (rv_Header rv)) st nb)) tx (view w3) (view w')"
    using committed_hist h34 by blast
  then obtain b1 c1 u h1' j1 b2 c2 now nxt v' where p:
    "hist vers rely (RootManifestKey kr) (view w3) b1" "b1 (RootManifestKey kr) = Some (c1, u)"
    "decode_root (env_semver E) c1 = Inr (h1', j1)" "rh_ManifestVersion h1' = rh_ManifestVersion (rv_Header rv)"
    "hist vers rely (RootManifestKey kr) b1 b2" "b2 (RootManifestKey kr) = Some (c2, u)"
    "WrapHeaderInBody (next_header h1' tx now) nb = Inr nxt" "vers nxt v'"
    "hist vers rely (RootManifestKey kr) (b2(RootManifestKey kr \<mapsto> (nxt, v'))) (view w')"
    by (rule committed_push)
  have k2: "keeps area (view w3) b2" using p(1,5) by (blast intro: hist_trans hist_keeps others_keep)
  have lay: "body_shows area b3 body (apply_updates us m)"
    if "body_shows area b0 cur m" "no_collision (bd_RefShards cur) m (apply_updates us m)" "keeps area b2 b3" "published b3 st" for m b3
    using staged_layout [OF g2 body_shows_keeps [OF others_keep [OF b0(2)] that(1)] us rs 4 that(2) f(3)
        keeps_trans [OF k2 that(3)] that(4)] .
  have "hist vers rely (RootManifestKey kr) b0 b1" using h04(1) p(1) by (rule hist_trans)
  note p = this p(2-)
  show ?thesis
    unfolding push_landed_def
    by (rule conjI, use c in blast, rule exI [of _ b0], rule exI [of _ c0], rule exI [of _ v0], rule exI [of _ "rv_Header rv"],
        rule exI [of _ "rv_Body rv"], rule exI [of _ cur], rule exI [of _ st], rule exI [of _ b1], rule exI [of _ c1],
        rule exI [of _ u], rule exI [of _ h1'], rule exI [of _ j1], rule exI [of _ b2], rule exI [of _ c2],
        rule exI [of _ tx], rule exI [of _ now], rule exI [of _ nb], rule exI [of _ nxt], rule exI [of _ v'])
      (intro conjI h04 b0 3 p f(2) allI impI, rule lay)
qed

text \<open>A push that fails has left the root alone, unless a failure of the store hides a commit.\<close>

definition fails_clean :: "('w, push_error, 'a) run \<Rightarrow> bool" where
  "fails_clean m \<longleftrightarrow> (\<forall>w e w'. good w \<longrightarrow> m w = Some (Inl e, w') \<longrightarrow>
     good w' \<and> (hist vers rely (RootManifestKey kr) (view w) (view w') \<or> (\<exists>x. e = PushCommit (EStorage x))))"

lemma clean_fail: "fails_clean (run_fail e)"
  by (simp add: fails_clean_def run_fail_def)

lemma clean_bind:
  assumes "run_rel stepped m" "\<And>x w w1. m w = Some (Inr x, w1) \<Longrightarrow> fails_clean (f x)"
  shows "fails_clean (run_bind m f)"
  unfolding fails_clean_def
proof (intro allI impI)
  fix w e w' assume w: "good w" and run: "run_bind m f w = Some (Inl e, w')"
  show "good w' \<and> (hist vers rely (RootManifestKey kr) (view w) (view w') \<or> (\<exists>x. e = PushCommit (EStorage x)))"
  proof (cases "\<exists>x w1. m w = Some (Inr x, w1) \<and> f x w1 = Some (Inl e, w')")
    case True
    then obtain x w1 where 1: "m w = Some (Inr x, w1)" "f x w1 = Some (Inl e, w')" by blast
    have "H kr w w1" using run_relD [OF assms(1) 1(1)] w by (simp add: stepped_def)
    with assms(2) [OF 1(1)] 1(2) show ?thesis unfolding fails_clean_def by (blast intro: hist_trans)
  next
    case False
    with run have "m w = Some (Inl e, w')" by (auto simp: run_bind_Some)
    from run_relD [OF assms(1) this] w show ?thesis by (simp add: stepped_def)
  qed
qed

lemma clean_commit:
  assumes "\<forall>x \<in> set (sg_NewShardObjects st). \<exists>h. sw_Key x = RefShardKey kr h"
  shows "fails_clean (push_commit E kr actor v st body)"
  unfolding fails_clean_def
proof (intro allI impI)
  fix w e w' assume w: "good w" and run: "push_commit E kr actor v st body w = Some (Inl e, w')"
  show "good w' \<and> (hist vers rely (RootManifestKey kr) (view w) (view w') \<or> (\<exists>x. e = PushCommit (EStorage x)))"
  proof (cases "MarshalBody body")
    case (Inl x)
    with run w show ?thesis by (simp add: push_commit_def run_eval)
  next
    case (Inr nb)
    obtain q w1 where q: "Commit E kr (simple_tx_body ''push'' actor) (push_callback (env_store E) v st nb) [] w = (q, w1)" by fastforce
    from Commit_spec [OF push_callback_ok [OF assms] w q] run Inr q show ?thesis
      by (cases q) (auto simp: push_commit_def run_eval commit_post_def)
  qed
qed

lemma finish_push_clean:
  assumes "\<forall>x \<in> set (sg_NewShardObjects st). \<exists>h. sw_Key x = RefShardKey kr h" "mirror_ok G" "patcher_ok patcher" "own rs"
  shows "fails_clean (finish_push E G kr kr rs sched order us actor patcher cur v st)"
proof -
  have "run_rel stepped (if sg_Mode st = ModeSharded then run_bind (run_err PushRefStore (run_op (rs_List rs sched))) (\<lambda>m. run_return (Some m))
     else run_return None)"
    using list_stepped [OF assms(4)] by (auto intro!: stepped_rules)
  then show ?thesis
    unfolding finish_push_def commitEmptyBody_def using clean_commit [OF assms(1)]
    by (auto intro!: clean_bind guard_stepped effective_stepped tips_stepped repack_stepped patcher_stepped assms(2-4))
qed

lemma BuildAndCommit_clean:
  assumes "NewRepo t i = Inr kr" "mirror_ok G" "patcher_ok patcher"
  shows "fails_clean (BuildAndCommit (Some E) G t i sched order us actor patcher)"
proof -
  have own: "own rs" if "refstore_New (Some (env_store E)) (Some kr) (Some cur) = Inr rs" for rs cur
    by (simp add: refstore_New_cases [OF that] own_def)
  have keys: "\<forall>x \<in> set (sg_NewShardObjects st). \<exists>h. sw_Key x = RefShardKey kr h"
    if "refstore_New (Some (env_store E)) (Some kr) (Some cur) = Inr rs" "rs_Stage rs sched us w = (Inr st, w1)" for rs cur st w w1
    using stage_keys [OF that(2)] refstore_New_cases [OF that(1)] by (metis (full_types))
  have r: "r = kr" if "repo_Open E t i w = (Inr r, w1)" for r w w1
    using that assms(1) by (auto simp: repo_Open_def split: prod.splits sum.splits)
  show ?thesis
    unfolding BuildAndCommit_def option.case
    by (auto simp: assms(1) run_err_Inr_iff run_op_Some run_sum_Some split: option.splits
        intro!: clean_bind clean_fail stepped_rules
          quiet_run [OF Open_quiet] quiet_run [OF ReadRoot_quiet] quiet_run [OF own_quiet(3)])
      (erule own, drule r, simp, rule finish_push_clean [OF _ assms(2,3)], erule (1) keys, erule own)
qed

end

section \<open>A push returns\<close>

definition run_total :: "('w, 'e, 'a) run \<Rightarrow> bool" where
  "run_total m \<longleftrightarrow> (\<forall>w. m w \<noteq> None)"

lemma run_total_basic: "run_total (run_return x)" "run_total (run_fail e)" "run_total (run_op f)" "run_total (run_sum s)"
  by (simp_all add: run_total_def run_return_def run_fail_def run_op_def run_sum_def)

lemma run_total_bind: "run_total m \<Longrightarrow> (\<And>x. run_total (f x)) \<Longrightarrow> run_total (run_bind m f)"
  by (auto simp: run_total_def run_bind_eval split: option.splits sum.splits)

lemma run_total_try: "run_total m \<Longrightarrow> (\<And>x. run_total (f x)) \<Longrightarrow> run_total (run_try m f)"
  by (auto simp: run_total_def run_try_def split: option.splits)

lemma run_total_err: "run_total m \<Longrightarrow> run_total (run_err h m)"
  by (auto simp: run_total_def run_err_eval split: option.splits sum.splits)

lemma run_total_loop: "(\<And>x s. run_total (f x s)) \<Longrightarrow> run_total (run_loop f xs s)"
  by (induction xs arbitrary: s) (auto intro!: run_total_basic run_total_bind)

lemmas run_totals = run_total_basic run_total_bind run_total_try run_total_err run_total_loop

lemma upload_total: "run_total (uploadFileVerified S f k)" "run_total (uploadBytes S b k)"
  unfolding uploadFileVerified_def uploadBytes_def sha256OfStoredObject_def by (auto intro!: run_totals split: sum.splits)

lemma push_parts_total:
  "run_total (guard_default rs st br)" "run_total (buildEffectiveRefs rs st sched order us pre)" "run_total (check_tips G refs)"
  "run_total (repack S G k cur refs)" "run_total (run_patcher G rs sched order us pre cur patcher body)"
  "run_total (push_commit E r actor v st body)"
  unfolding guard_default_def buildEffectiveRefs_def check_tips_def repack_def upload_artifacts_def run_patcher_def push_commit_def
  by (auto intro!: run_totals upload_total split: option.splits prod.splits simp: Let_def)

lemma BuildAndCommit_total: "run_total (BuildAndCommit store G t i sched order us actor patcher)"
  unfolding BuildAndCommit_def finish_push_def commitEmptyBody_def
  by (auto intro!: run_totals push_parts_total split: option.splits)

end
