(* ===== verification/Push_Localfs.thy ===== *)
theory Push_Localfs
  imports Push_Safety
begin

text \<open>
  Pushes over the file-system store: several processes push to one repository, other clients follow the
  discipline of the root and leave the shard objects alone, and any file-system call may fail.
\<close>

section \<open>The shared bucket of a repository\<close>

definition push_rely :: "semver \<Rightarrow> keys_repo \<Rightarrow> bucket \<Rightarrow> bucket \<Rightarrow> bool" where
  "push_rely sv kr b b' \<longleftrightarrow> discipline sv (RootManifestKey kr) b b' \<and> keeps (shard_area kr) b b'"

definition push_good :: "semver \<Rightarrow> keys_repo \<Rightarrow> bench \<Rightarrow> bool" where
  "push_good sv kr W = busy_good lfs_view lfs_good (push_rely sv kr) (fst W)"

interpretation push_lfs: object_store "busy localfs" "lfs_view \<circ> fst"
  "busy_good lfs_view lfs_good (push_rely sv kr)" lfs_vers "push_rely sv kr" for sv kr
  by (rule lfs.busy_store) (auto simp: push_rely_def discipline_refl intro: keeps_trans discipline_trans)

interpretation pushing: pusher "bench_env sv isprint" bench_view "push_good sv kr" lfs_vers "push_rely sv kr" "shard_area kr" kr
  for sv isprint kr
proof -
  have "bench_view = lfs_view \<circ> fst \<circ> fst" "push_good sv kr = busy_good lfs_view lfs_good (push_rely sv kr) \<circ> fst"
    by (simp_all add: fun_eq_iff bench_view_def push_good_def)
  then have "repo_env (bench_env sv isprint) bench_view (push_good sv kr) lfs_vers (push_rely sv kr)"
    unfolding bench_env_def using push_lfs.process_repo_env [of sv isprint sv kr] by (simp add: o_assoc)
  then show "pusher (bench_env sv isprint) bench_view (push_good sv kr) lfs_vers (push_rely sv kr) (shard_area kr) kr"
    by (intro pusher.intro collected.intro) (auto simp: collected_axioms_def pusher_axioms_def push_rely_def)
qed

text \<open>What Git and the index builder may do to the bucket: what other clients may do. A patcher may also create
  objects other than the root, and it leaves the refs of the body it is given.\<close>

definition bench_quiet :: "semver \<Rightarrow> keys_repo \<Rightarrow> (bench \<Rightarrow> 'a \<times> bench) \<Rightarrow> bool" where
  "bench_quiet sv kr f \<longleftrightarrow> (\<forall>W r W'. push_good sv kr W \<longrightarrow> f W = (r, W') \<longrightarrow> push_good sv kr W' \<and> push_rely sv kr (bench_view W) (bench_view W'))"

definition bench_mirror :: "semver \<Rightarrow> keys_repo \<Rightarrow> bench Mirror \<Rightarrow> bool" where
  "bench_mirror sv kr G \<longleftrightarrow> (\<forall>oid. bench_quiet sv kr (mi_RevParseObjectKind G oid)) \<and> bench_quiet sv kr (mi_MkdirTemp G) \<and>
     bench_quiet sv kr (mi_removeKeepFiles G) \<and> bench_quiet sv kr (mi_PackObjectsAll G) \<and>
     (\<forall>p m. bench_quiet sv kr (mi_buildIndexes G p m)) \<and> (\<forall>p. bench_quiet sv kr (mi_read_pack G p)) \<and>
     (\<forall>p. bench_quiet sv kr (mi_read_idx G p)) \<and> (\<forall>a b. bench_quiet sv kr (mi_RevListCommitsOnly G a b))"

definition bench_patcher :: "semver \<Rightarrow> keys_repo \<Rightarrow> bench patcher option \<Rightarrow> bool" where
  "bench_patcher sv kr patcher \<longleftrightarrow> (\<forall>p a body c W r W'. patcher = Some p \<longrightarrow> p a body c W = (r, W') \<longrightarrow>
     (push_good sv kr W \<longrightarrow> push_good sv kr W' \<and> hist lfs_vers (push_rely sv kr) (RootManifestKey kr) (bench_view W) (bench_view W')) \<and>
     (\<forall>body'. r = Inr body' \<longrightarrow> same_refs body body'))"

lemma bench_mirror_ok: "bench_mirror sv kr G \<Longrightarrow> pushing.mirror_ok sv kr G"
  unfolding bench_mirror_def pushing.mirror_ok_def pushing.quiet_def bench_quiet_def by blast

lemma bench_patcher_ok: "bench_patcher sv kr patcher \<Longrightarrow> pushing.patcher_ok sv kr patcher"
  unfolding bench_patcher_def pushing.patcher_ok_def pushing.stepped_def run_rel_def run_op_Some by blast


section \<open>The default branch\<close>

text \<open>C9: the guard of the default branch, in both layouts. Over inline refs it refuses exactly the pushes that
  delete the branch. Over shards it lets one kind of deletion pass: where the branch leaves no other ref
  in its shard, the stage drops the shard, the look-up in the stage answers that it does not know, and the
  branch is taken to be unchanged.\<close>

theorem default_branch_guard:
  assumes "shared_good kr W" "shards_hold (shard_area kr) (lfs_view (fst W)) shards m" "wf_refs us"
    and "no_collision shards m (apply_updates us m)" "branch \<noteq> []"
  shows "(case rs_Stage (ShardedRefStore (busy localfs) kr shards) sched us W of
      (Inl e, _) \<Rightarrow> store_failure e
    | (Inr st, W1) \<Rightarrow> (\<exists>r W2. guard_default (ShardedRefStore (busy localfs) kr shards) st branch W1 = Some (r, W2) \<and>
        guard_result (mget m branch \<noteq> None \<and> mget (apply_updates us m) branch = None \<and> part (ShardKey branch) (apply_updates us m) \<noteq> [])
          branch r)) \<and>
   (case rs_Stage (InlineRefStore m) sched us W of
      (Inl e, _) \<Rightarrow> False
    | (Inr st, W1) \<Rightarrow> guard_default (InlineRefStore m) st branch W1 =
        Some (if mget m branch \<noteq> None \<and> mget (apply_updates us m) branch = None then Inl (PushDeletesDefault branch) else Inr (), W1))"
    (is "?sharded \<and> ?inline")
proof
  have h: "ref_lfs.holds kr shards W m" using assms by (simp add: ref_lfs.holds_def)
  have wf: "wf_refs m" using ref_lfs.sharded.shown_wf [OF h] .
  obtain r W1 where s: "rs_Stage (ShardedRefStore (busy localfs) kr shards) sched us W = (r, W1)" by (rule prod.exhaust)
  show ?sharded
  proof (cases r)
    case (Inl e)
    with ref_lfs.sharded.stage_shown [OF h assms(3) s] s show ?thesis by simp
  next
    case (Inr st)
    from ref_lfs.guard_sharded [OF h assms(3) refl assms(4) s [unfolded Inr] assms(5)] s Inr show ?thesis by simp
  qed
  show ?inline
    using wf assms(5) by (cases "mget m branch"; cases "mget (apply_updates us m) branch")
      (simp_all add: rs_Stage_def inline_Stage_def mput_all_self guard_default_def run_eval rs_Lookup_def inline_Lookup_def
        stage_Lookup_def default_after_def)
qed

section \<open>Concrete pushes\<close>

definition sample_mirror :: "bench Mirror" where
  "sample_mirror = \<lparr>mi_dir = ''/m'', mi_RevParseObjectKind = (\<lambda>oid W. (Inr ''commit'', W)), mi_MkdirTemp = (\<lambda>W. (Inr (), W)),
     mi_removeKeepFiles = (\<lambda>W. (Inr (), W)), mi_PackObjectsAll = (\<lambda>W. (Inr ''aa'', W)),
     mi_buildIndexes = (\<lambda>p m W. (Inl ''no index'', W)), mi_read_pack = (\<lambda>p W. (Inr ''PACK'', W)), mi_read_idx = (\<lambda>p W. (Inr ''idx'', W)),
     mi_RevListCommitsOnly = (\<lambda>a b W. (Inr [], W))\<rparr>"

lemma push_rely_refl: "push_rely sv kr b b"
  by (simp add: push_rely_def discipline_refl)

lemma sample_mirror_ok: "bench_mirror sv kr sample_mirror"
  by (simp add: bench_mirror_def sample_mirror_def bench_quiet_def push_rely_refl)

lemma sample_push_good: "push_good sv kr sample_bench"
  by (simp add: push_good_def sample_bench_def busy_good_def lfs_good_def lfs_ok_def coherent_def sample_lfs_def mok_def tearing_def)


text \<open>Deleting the only branch of a repository with one shard: the guard lets it pass.\<close>

definition drop_ref :: refmap where
  "drop_ref = [(''refs/heads/main'', NullOIDHex)]"

theorem default_branch_guard_witness:
  "mget one_ref ''refs/heads/main'' \<noteq> None \<and> apply_updates drop_ref one_ref = [] \<and>
   (case rs_Stage (ShardedRefStore (busy localfs) sample_repo [one_shard]) [] drop_ref (shard_lfs, []) of
      (Inl e, _) \<Rightarrow> store_failure e
    | (Inr st, W1) \<Rightarrow> (\<exists>r W2. guard_default (ShardedRefStore (busy localfs) sample_repo [one_shard]) st ''refs/heads/main'' W1 = Some (r, W2) \<and>
        guard_result False ''refs/heads/main'' r))"
proof -
  have 1: "shards_hold (shard_area sample_repo) (lfs_view (fst (shard_lfs, []))) [one_shard] one_ref"
    using shard_lfs_holds by simp
  have 2: "wf_refs drop_ref"
    by (simp add: wf_refs_def drop_ref_def ascii_valid NullOIDHex_def numeral_eq_Suc del: valid_utf8.simps(2))
  have 3: "apply_updates drop_ref one_ref = []"
    by (simp add: apply_updates_def apply_update_def one_ref_def drop_ref_def is_delete_def mdel_def)
  then have 4: "no_collision [one_shard] one_ref (apply_updates drop_ref one_ref)"
    by (simp add: no_collision_def part_empty)
  have 5: "mget one_ref ''refs/heads/main'' \<noteq> None" by (simp add: one_ref_def)
  have 6: "part (ShardKey ''refs/heads/main'') (apply_updates drop_ref one_ref) = []" by (simp add: 3 part_empty)
  note g = default_branch_guard [OF shard_lfs_good 1 2 4, of "''refs/heads/main''" "[]", unfolded 6 simp_thms]
  show ?thesis
    by (rule conjI [OF 5 conjI [OF 3 conjunct1 [OF g]]]) simp
qed

end
