(* ===== verification/Go_Bytes.thy ===== *)
theory Go_Bytes
  imports Bv_Prelude
begin

text \<open>
  What the readers of the binary formats use of the standard library: slices of byte strings,
  \<open>sort.Search\<close>, \<open>bytes.Reader\<close>, \<open>bytes.IndexByte\<close>, and tables of records of a fixed width.
\<close>

section \<open>Checks\<close>

text \<open>\<open>if !p { return err }\<close>.\<close>

definition require :: "bool \<Rightarrow> 'e \<Rightarrow> 'e + unit" where
  "require p e = (if p then Inr () else Inl e)"

lemma require_Inr [simp]: "require p e = Inr u \<longleftrightarrow> p"
  by (simp add: require_def)

lemma require_True [simp]: "require True e = Inr ()"
  by (simp add: require_def)

lemma require_False [simp]: "require False e = Inl e"
  by (simp add: require_def)

section \<open>Slices\<close>

text \<open>\<open>b[i:j]\<close> where \<open>i <= j <= len(b)\<close>.\<close>

definition bslice :: "nat \<Rightarrow> nat \<Rightarrow> 'a list \<Rightarrow> 'a list" where
  "bslice i j b = take (j - i) (drop i b)"

lemma length_bslice [simp]: "length (bslice i j b) = min (j - i) (length b - i)"
  by (simp add: bslice_def)

lemma bslice_full: "i \<le> j \<Longrightarrow> j \<le> length b \<Longrightarrow> length (bslice i j b) = j - i"
  by simp

lemma bslice_append [simp]: "length a = i \<Longrightarrow> length c = j - i \<Longrightarrow> bslice i j (a @ c @ d) = c"
  by (simp add: bslice_def)

lemma bslice_append_last [simp]: "length a = i \<Longrightarrow> length c = j - i \<Longrightarrow> bslice i j (a @ c) = c"
  by (simp add: bslice_def)

text \<open>\<open>bytes.Reader.ReadAt\<close> of \<open>n\<close> bytes at \<open>off\<close>: all of them or an error.\<close>

definition bytes_ReadAt :: "bytes \<Rightarrow> nat \<Rightarrow> nat \<Rightarrow> bytes option" where
  "bytes_ReadAt b off n = (if off < length b \<and> off + n \<le> length b then Some (bslice off (off + n) b) else None)"

text \<open>\<open>bytes.IndexByte\<close>.\<close>

fun index_byte :: "'a list \<Rightarrow> 'a \<Rightarrow> nat option" where
  "index_byte [] c = None"
| "index_byte (x # xs) c = (if x = c then Some 0 else map_option Suc (index_byte xs c))"

lemma index_byte_append: "c \<notin> set a \<Longrightarrow> index_byte (a @ c # d) c = Some (length a)"
  by (induction a) auto

lemma index_byte_None: "index_byte s c = None \<longleftrightarrow> c \<notin> set s"
  by (induction s) auto

lemma index_byte_Some: "index_byte s c = Some n \<Longrightarrow> n < length s \<and> s ! n = c \<and> c \<notin> set (take n s)"
  by (induction s arbitrary: n) (auto split: if_splits)

section \<open>Binary search\<close>

function search_loop :: "(nat \<Rightarrow> bool) \<Rightarrow> nat \<Rightarrow> nat \<Rightarrow> nat" where
  "search_loop f i j =
     (if i < j then (let h = (i + j) div 2 in if f h then search_loop f i h else search_loop f (h + 1) j) else i)"
  by pat_completeness auto
termination
  by (relation "measure (\<lambda>(f, i, j). j - i)") (auto simp: Let_def)

declare search_loop.simps [simp del]

definition sort_Search :: "nat \<Rightarrow> (nat \<Rightarrow> bool) \<Rightarrow> nat" where
  "sort_Search n f = search_loop f 0 n"

lemma search_loop_least:
  assumes mono: "\<And>a b. a \<le> b \<Longrightarrow> b < n \<Longrightarrow> f a \<Longrightarrow> f b"
  shows "i \<le> j \<Longrightarrow> j \<le> n \<Longrightarrow> (\<And>a. a < i \<Longrightarrow> \<not> f a) \<Longrightarrow> (\<And>a. j \<le> a \<Longrightarrow> a < n \<Longrightarrow> f a) \<Longrightarrow>
    search_loop f i j \<le> n \<and> (\<forall>a < search_loop f i j. \<not> f a) \<and> (\<forall>a. search_loop f i j \<le> a \<longrightarrow> a < n \<longrightarrow> f a)"
proof (induction "j - i" arbitrary: i j rule: less_induct)
  case less
  let ?h = "(i + j) div 2"
  show ?case
  proof (cases "i < j")
    case False
    then have "search_loop f i j = i" by (subst search_loop.simps) simp
    with False less.prems show ?thesis by simp
  next
    case True
    then have h: "i \<le> ?h" "?h < j" by auto
    show ?thesis
    proof (cases "f ?h")
      case fh: True
      have "search_loop f i j = search_loop f i ?h" using True fh by (subst search_loop.simps) (simp add: Let_def)
      moreover have "search_loop f i ?h \<le> n \<and> (\<forall>a < search_loop f i ?h. \<not> f a) \<and> (\<forall>a. search_loop f i ?h \<le> a \<longrightarrow> a < n \<longrightarrow> f a)"
      proof (rule less.hyps)
        show "?h - i < j - i" "i \<le> ?h" "?h \<le> n" using h less.prems(2) by linarith+
        show "f a" if "?h \<le> a" "a < n" for a using mono [OF that fh] .
      qed (rule less.prems(3))
      ultimately show ?thesis by simp
    next
      case fh: False
      have "search_loop f i j = search_loop f (?h + 1) j" using True fh by (subst search_loop.simps) (simp add: Let_def)
      moreover have "search_loop f (?h + 1) j \<le> n \<and> (\<forall>a < search_loop f (?h + 1) j. \<not> f a) \<and>
          (\<forall>a. search_loop f (?h + 1) j \<le> a \<longrightarrow> a < n \<longrightarrow> f a)"
      proof (rule less.hyps)
        show "j - (?h + 1) < j - i" "?h + 1 \<le> j" using h by linarith+
        show "\<not> f a" if "a < ?h + 1" for a using mono [of a ?h] that fh h less.prems(2) by linarith
      qed (rule less.prems)+
      ultimately show ?thesis by simp
    qed
  qed
qed

lemma sort_Search_least:
  assumes "\<And>a b. a \<le> b \<Longrightarrow> b < n \<Longrightarrow> f a \<Longrightarrow> f b"
  shows "sort_Search n f \<le> n" "a < sort_Search n f \<Longrightarrow> \<not> f a" "sort_Search n f \<le> a \<Longrightarrow> a < n \<Longrightarrow> f a"
  using search_loop_least [of n f 0 n, OF assms] by (auto simp: sort_Search_def)

lemma search_loop_le: "i \<le> j \<Longrightarrow> search_loop f i j \<le> j"
proof (induction f i j rule: search_loop.induct)
  case (1 f i j)
  show ?case
  proof (cases "i < j")
    case True
    then have "i \<le> (i + j) div 2" "(i + j) div 2 + 1 \<le> j" by linarith+
    with 1 True have "search_loop f i ((i + j) div 2) \<le> (i + j) div 2 \<or> \<not> f ((i + j) div 2)"
      "search_loop f ((i + j) div 2 + 1) j \<le> j \<or> f ((i + j) div 2)" by auto
    with True show ?thesis by (subst search_loop.simps) (auto simp: Let_def)
  next
    case False
    with 1 show ?thesis by (subst search_loop.simps) simp
  qed
qed

lemma sort_Search_le: "sort_Search n f \<le> n"
  by (simp add: sort_Search_def search_loop_le)

text \<open>On strictly ascending keys the search finds the place of a key that is there.\<close>

lemma sort_Search_key:
  assumes asc: "strictly_ascending ks" and f: "\<And>i. i < length ks \<Longrightarrow> f i \<longleftrightarrow> x \<le> ks ! i"
    and i: "i < length ks" "ks ! i = x"
  shows "sort_Search (length ks) f = i"
proof -
  let ?p = "sort_Search (length ks) f"
  have lt: "ks ! a < ks ! b" if "a < b" "b < length ks" for a b
    using asc that by (simp add: strictly_ascending_iff sorted_wrt_iff_nth_less)
  have mono: "f a \<Longrightarrow> f b" if "a \<le> b" "b < length ks" for a b
    using that lt [of a b] f by (cases "a = b") auto
  have below: "\<not> f a" if "a < ?p" for a using sort_Search_least(2) [of "length ks" f a] mono that by blast
  have above: "f a" if "?p \<le> a" "a < length ks" for a using sort_Search_least(3) [of "length ks" f a] mono that by blast
  have "\<not> ?p < i"
  proof
    assume "?p < i"
    then have "f ?p" using above [of ?p] i(1) by simp
    then have "x \<le> ks ! ?p" using f \<open>?p < i\<close> i(1) by simp
    with lt [OF \<open>?p < i\<close> i(1)] i(2) show False by simp
  qed
  moreover have "\<not> i < ?p" using below [of i] f i by auto
  ultimately show ?thesis by simp
qed

section \<open>Tables\<close>

text \<open>Row \<open>k\<close> of a table of records of \<open>w\<close> bytes.\<close>

definition row :: "nat \<Rightarrow> 'a list \<Rightarrow> nat \<Rightarrow> 'a list" where
  "row w b k = bslice (k * w) (k * w + w) b"

lemma length_row: "(k + 1) * w \<le> length b \<Longrightarrow> length (row w b k) = w"
  by (simp add: row_def bslice_def)

lemma row_concat: "\<forall>x \<in> set xs. length x = w \<Longrightarrow> k < length xs \<Longrightarrow> row w (concat xs @ r) k = xs ! k"
proof (induction xs arbitrary: k)
  case (Cons x xs)
  then show ?case
    by (cases k) (simp_all add: row_def bslice_def)
qed simp

lemma concat_row_prefix: "(\<forall>x \<in> set xs. length x = w) \<Longrightarrow> k < length xs \<Longrightarrow> drop (k * w) (concat xs) = xs ! k @ drop (Suc k * w) (concat xs)"
proof (induction xs arbitrary: k)
  case (Cons x xs)
  then show ?case by (cases k) (simp_all add: add.commute)
qed simp

lemma length_concat_rows: "\<forall>x \<in> set xs. length x = w \<Longrightarrow> length (concat xs) = w * length xs"
  by (induction xs) auto

text \<open>Keys that ascend from each row to the next.\<close>

lemma ascending_steps: "(\<And>k. Suc k < n \<Longrightarrow> f k < f (Suc k)) \<Longrightarrow> strictly_ascending (map f [0..<n])"
proof (induction n)
  case (Suc n)
  then have IH: "strictly_ascending (map f [0..<n])" by simp
  show ?case
  proof (cases n)
    case (Suc m)
    have "f m < f n" using Suc.prems [of m] Suc by simp
    moreover have "x \<le> f m" if "x \<in> f ` {0..<n}" for x
    proof -
      from that obtain i where i: "i < n" "x = f i" by auto
      have "map f [0..<n] ! i \<le> map f [0..<n] ! m"
        using strictly_ascending_sorted [OF IH] i(1) Suc by (intro sorted_nth_mono) auto
      with i Suc show ?thesis by (simp del: upt_Suc)
    qed
    ultimately show ?thesis
      using IH by (auto simp: strictly_ascending_iff sorted_wrt_append intro: le_less_trans)
  qed simp
qed simp

end
