(* ===== verification/Sha1.thy ===== *)
theory Sha1
  imports Bv_Prelude
begin

text \<open>
  SHA-1 as \<open>crypto/sha1\<close> computes it. Git names objects, packs and their indexes by it. Nothing in the
  development relies on its being injective.
\<close>

unbundle bit_operations_syntax

definition sha1_init :: "32 word list" where
  "sha1_init = [0x67452301, 0xEFCDAB89, 0x98BADCFE, 0x10325476, 0xC3D2E1F0]"

definition sha1_pad :: "bytes \<Rightarrow> bytes" where
  "sha1_pad m = m @ [0x80] @ replicate ((119 - length m mod 64) mod 64) 0 @ put_be_u64 (of_nat (8 * length m))"

text \<open>The message schedule, kept with the newest word first.\<close>

fun sha1_schedule :: "nat \<Rightarrow> 32 word list \<Rightarrow> 32 word list" where
  "sha1_schedule 0 ws = ws"
| "sha1_schedule (Suc n) ws =
     sha1_schedule n (word_rotl 1 ((ws ! 2 XOR ws ! 7) XOR (ws ! 13 XOR ws ! 15)) # ws)"

definition sha1_f :: "nat \<Rightarrow> 32 word \<Rightarrow> 32 word \<Rightarrow> 32 word \<Rightarrow> 32 word" where
  "sha1_f t b c d =
     (if t < 20 then (b AND c) OR (NOT b AND d)
      else if t < 40 then (b XOR c) XOR d
      else if t < 60 then ((b AND c) OR (b AND d)) OR (c AND d)
      else (b XOR c) XOR d)"

definition sha1_k :: "nat \<Rightarrow> 32 word" where
  "sha1_k t = (if t < 20 then 0x5A827999 else if t < 40 then 0x6ED9EBA1 else if t < 60 then 0x8F1BBCDC else 0xCA62C1D6)"

fun sha1_round :: "nat \<times> 32 word \<Rightarrow> 32 word list \<Rightarrow> 32 word list" where
  "sha1_round (t, w) [a, b, c, d, e] =
     [word_rotl 5 a + sha1_f t b c d + e + w + sha1_k t, a, word_rotl 30 b, c, d]"
| "sha1_round _ st = st"

definition sha1_block :: "bytes \<Rightarrow> 32 word list \<Rightarrow> 32 word list" where
  "sha1_block block st =
     map2 (+) st (fold sha1_round (zip [0..<80] (rev (sha1_schedule 64 (rev (map (\<lambda>i. be_u32 (drop (4 * i) block)) [0..<16]))))) st)"

function sha1_blocks :: "bytes \<Rightarrow> 32 word list \<Rightarrow> 32 word list" where
  "sha1_blocks m st = (if length m < 64 then st else sha1_blocks (drop 64 m) (sha1_block (take 64 m) st))"
  by pat_completeness auto
termination
  by (relation "measure (\<lambda>(m, st). length m)") auto

declare sha1_blocks.simps [simp del]

definition sha1 :: "bytes \<Rightarrow> bytes" where
  "sha1 m = concat (map put_be_u32 (sha1_blocks (sha1_pad m) sha1_init))"

lemma length_sha1_round [simp]: "length st = 5 \<Longrightarrow> length (sha1_round tw st) = 5"
  by (cases "(tw, st)" rule: sha1_round.cases) auto

lemma length_sha1_fold [simp]: "length st = 5 \<Longrightarrow> length (fold sha1_round tws st) = 5"
  by (induction tws arbitrary: st) auto

lemma length_sha1_blocks: "length st = 5 \<Longrightarrow> length (sha1_blocks m st) = 5"
proof (induction m st rule: sha1_blocks.induct)
  case (1 m st)
  then show ?case by (subst sha1_blocks.simps) (simp add: sha1_block_def)
qed

lemma length_concat_be32: "length (concat (map put_be_u32 ws)) = 4 * length ws"
  by (induction ws) auto

lemma length_sha1 [simp]: "length (sha1 m) = 20"
  by (simp add: sha1_def length_concat_be32 length_sha1_blocks sha1_init_def)

end
