(* ===== verification/Pack_Index.thy ===== *)
theory Pack_Index
  imports Go_Bytes Sha1 Go_Codec
begin

text \<open>
  Object ids and the index of a pack (\<open>internal/pack/types.go\<close>, \<open>internal/pack/index.go\<close>): the
  parser of version 2 \<open>.idx\<close> files with all its checks, and the look-up by fanout and binary search. An
  operation that Go would end in a panic gives \<open>Inl Panic\<close>.
\<close>

section \<open>Object ids\<close>

type_synonym OID = bytes

definition OID_String :: "OID \<Rightarrow> string" where
  "OID_String oid = hex_encode oid"

definition ParseOID :: "string \<Rightarrow> string + OID" where
  "ParseOID s =
     (if length s \<noteq> 40 then Inl ''bad length''
      else (case hex_decode s of None \<Rightarrow> Inl ''bad hex'' | Some b \<Rightarrow> Inr b))"

lemma length_hex_decode: "hex_decode s = Some b \<Longrightarrow> length s = 2 * length b"
  by (induction s arbitrary: b rule: hex_decode.induct) (auto split: option.splits)

lemma ParseOID_length: "ParseOID s = Inr oid \<Longrightarrow> length oid = 20"
  using length_hex_decode [of s] by (auto simp: ParseOID_def split: if_splits option.splits)

lemma ParseOID_String [simp]: "length oid = 20 \<Longrightarrow> ParseOID (OID_String oid) = Inr oid"
  by (simp add: ParseOID_def OID_String_def)

type_synonym ObjectType = byte

definition TypeCommit :: ObjectType where "TypeCommit = 1"
definition TypeTree :: ObjectType where "TypeTree = 2"
definition TypeBlob :: ObjectType where "TypeBlob = 3"
definition TypeTag :: ObjectType where "TypeTag = 4"
definition typeOFSDelta :: ObjectType where "typeOFSDelta = 6"
definition typeREFDelta :: ObjectType where "typeREFDelta = 7"

lemmas type_defs = TypeCommit_def TypeTree_def TypeBlob_def TypeTag_def typeOFSDelta_def typeREFDelta_def

definition type_String :: "ObjectType \<Rightarrow> string" where
  "type_String t =
     (if t = TypeCommit then ''commit'' else if t = TypeTree then ''tree'' else if t = TypeBlob then ''blob''
      else if t = TypeTag then ''tag'' else if t = typeOFSDelta then ''ofs_delta''
      else if t = typeREFDelta then ''ref_delta'' else ''invalid('' @ nat_str (unat t) @ '')'')"

section \<open>The index\<close>

datatype pack_error = IdxCorrupt string

datatype panic = Panic

definition idxMagic :: bytes where "idxMagic = [0xff, 0x74, 0x4f, 0x63]"

lemma length_idxMagic [simp]: "length idxMagic = 4"
  by (simp add: idxMagic_def)

definition idxOffsetMSB :: "32 word" where "idxOffsetMSB = push_bit 31 1"

record Idx =
  ix_count :: nat
  ix_fanout :: "32 word list"
  ix_oids :: bytes
  ix_crcs :: bytes
  ix_offsets :: bytes
  ix_largeOffs :: "64 word list"
  ix_packTrailer :: bytes
  ix_idxSelfSHA :: bytes

definition read_idx :: "bytes \<Rightarrow> nat \<Rightarrow> nat \<Rightarrow> string \<Rightarrow> pack_error + bytes" where
  "read_idx b off n what = (case bytes_ReadAt b off n of None \<Rightarrow> Inl (IdxCorrupt what) | Some p \<Rightarrow> Inr p)"

unbundle bit_operations_syntax

text \<open>The 4-byte offset of entry \<open>k\<close>, and the row of the large-offset table it names when its top bit is set.\<close>

definition raw_offset :: "bytes \<Rightarrow> nat \<Rightarrow> 32 word" where
  "raw_offset offs k = be_u32 (drop (k * 4) offs)"

definition is_large :: "32 word \<Rightarrow> bool" where
  "is_large raw \<longleftrightarrow> raw AND idxOffsetMSB \<noteq> 0"

definition large_index :: "32 word \<Rightarrow> nat" where
  "large_index raw = unat (raw AND NOT idxOffsetMSB)"

definition required_large :: "bytes \<Rightarrow> nat \<Rightarrow> nat" where
  "required_large offs count =
     fold (\<lambda>k n. let raw = raw_offset offs k in
             if is_large raw \<and> large_index raw + 1 > n then large_index raw + 1 else n) [0..<count] 0"

abbreviation oid_row :: "Idx \<Rightarrow> nat \<Rightarrow> OID" where
  "oid_row idx n \<equiv> row 20 (ix_oids idx) n"

definition OIDAt :: "Idx \<Rightarrow> nat \<Rightarrow> panic + OID" where
  "OIDAt idx n = (if length (ix_oids idx) < (n + 1) * 20 then Inl Panic else Inr (oid_row idx n))"

definition OffsetAt :: "Idx \<Rightarrow> nat \<Rightarrow> panic + 64 word" where
  "OffsetAt idx n =
     (if length (ix_offsets idx) < n * 4 + 4 then Inl Panic
      else (let raw = raw_offset (ix_offsets idx) n in
        if \<not> is_large raw then Inr (ucast raw)
        else if large_index raw < length (ix_largeOffs idx) then Inr (ix_largeOffs idx ! large_index raw)
        else Inl Panic))"

fun has_offset :: "Idx \<Rightarrow> 64 word \<Rightarrow> nat list \<Rightarrow> panic + bool" where
  "has_offset idx off [] = Inr False"
| "has_offset idx off (k # ks) = res_bind (OffsetAt idx k) (\<lambda>x. if x = off then Inr True else has_offset idx off ks)"

definition HasOffset :: "Idx \<Rightarrow> 64 word \<Rightarrow> panic + bool" where
  "HasOffset idx off = has_offset idx off [0..<ix_count idx]"

definition read_fanout :: "bytes \<Rightarrow> 32 word list" where
  "read_fanout b = map (\<lambda>i. be_u32 (drop (i * 4) b)) [0..<256]"

text \<open>The fanout the first bytes of the ids ask for: counted, then summed up.\<close>

definition first_bytes :: "bytes \<Rightarrow> nat \<Rightarrow> 32 word list" where
  "first_bytes oids count =
     fold (\<lambda>k fb. let b = unat (oids ! (k * 20)) in fb[b := fb ! b + 1]) [0..<count] (replicate 256 0)"

fun cumulate :: "32 word \<Rightarrow> 32 word list \<Rightarrow> 32 word list" where
  "cumulate cum [] = []"
| "cumulate cum (x # xs) = (cum + x) # cumulate (cum + x) xs"

definition ParseIdx :: "bytes \<Rightarrow> pack_error + Idx" where
  "ParseIdx b = (let size = length b in
     res_bind (require (8 + 1024 + 40 \<le> size) (IdxCorrupt ''too small'')) (\<lambda>_.
     res_bind (read_idx b 0 8 ''read header'') (\<lambda>buf.
     res_bind (require (take 4 buf = idxMagic) (IdxCorrupt ''bad magic'')) (\<lambda>_.
     res_bind (require (be_u32 (drop 4 buf) = 2) (IdxCorrupt ''unsupported version'')) (\<lambda>_.
     res_bind (read_idx b 8 1024 ''read fanout'') (\<lambda>fanoutBuf.
     (let fanout = read_fanout fanoutBuf; count = unat (fanout ! 255) in
     res_bind (require (list_all (\<lambda>i. \<not> fanout ! i < fanout ! (i - 1)) [1..<256]) (IdxCorrupt ''fanout non-monotonic'')) (\<lambda>_.
     res_bind (require (8 + 1024 + count * (20 + 4 + 4) + 40 \<le> size) (IdxCorrupt ''count exceeds file size'')) (\<lambda>_.
     res_bind (read_idx b 1032 (count * 20) ''read oid table'') (\<lambda>oids.
     res_bind (require (list_all (\<lambda>k. row 20 oids (k - 1) < row 20 oids k) [1..<count]) (IdxCorrupt ''OIDs not strictly ascending'')) (\<lambda>_.
     res_bind (require (count = 0 \<or> cumulate 0 (first_bytes oids count) = fanout) (IdxCorrupt ''fanout/oid-table mismatch'')) (\<lambda>_.
     res_bind (read_idx b (1032 + count * 20) (count * 4) ''read crc table'') (\<lambda>crcs.
     res_bind (read_idx b (1032 + count * 24) (count * 4) ''read offset table'') (\<lambda>offsets.
     (let requiredLargeCount = required_large offsets count; off = 1032 + count * 28; largeBytes = size - off - 40 in
     res_bind (require (largeBytes = requiredLargeCount * 8) (IdxCorrupt ''large-offset section'')) (\<lambda>_.
     res_bind (if largeBytes > 0 then read_idx b off largeBytes ''read large offsets'' else Inr []) (\<lambda>raw.
     (let largeOffs = (if largeBytes > 0 then map (\<lambda>i. be_u64 (drop (i * 8) raw)) [0..<requiredLargeCount] else []);
          idx = \<lparr>ix_count = count, ix_fanout = fanout, ix_oids = oids, ix_crcs = crcs, ix_offsets = offsets,
                 ix_largeOffs = largeOffs, ix_packTrailer = [], ix_idxSelfSHA = []\<rparr> in
     res_bind (require (list_all (\<lambda>k. \<not> is_large (raw_offset offsets k) \<or> large_index (raw_offset offsets k) < length largeOffs) [0..<count])
                 (IdxCorrupt ''offset points outside the large offsets'')) (\<lambda>_.
     res_bind (require (distinct (map (OffsetAt idx) [0..<count])) (IdxCorrupt ''duplicate pack offset'')) (\<lambda>_.
     res_bind (read_idx b (off + largeBytes) 40 ''read trailer'') (\<lambda>trailer.
     res_bind (require (sha1 (take (size - 20) b) = drop 20 trailer) (IdxCorrupt ''idx trailer SHA-1 mismatch'')) (\<lambda>_.
     Inr (idx\<lparr>ix_packTrailer := take 20 trailer, ix_idxSelfSHA := drop 20 trailer\<rparr>)))))))))))))))))))))))"

text \<open>The comparison \<open>Lookup\<close> writes out byte by byte.\<close>

fun oid_ge :: "OID \<Rightarrow> OID \<Rightarrow> bool" where
  "oid_ge (g # gs) (x # xs) = (if g \<noteq> x then g \<ge> x else oid_ge gs xs)"
| "oid_ge _ _ = True"

text \<open>The id \<open>Lookup\<close> copies out of the table itself: a slice from a position past the end panics, and a
  short rest leaves zeros behind it.\<close>

definition lookup_oid :: "Idx \<Rightarrow> nat \<Rightarrow> panic + OID" where
  "lookup_oid idx n =
     (if length (ix_oids idx) < n * 20 then Inl Panic
      else (let p = take 20 (drop (n * 20) (ix_oids idx)) in Inr (p @ replicate (20 - length p) 0)))"

text \<open>The loop of \<open>sort.Search\<close> around a predicate that may panic.\<close>

function search_panic :: "(nat \<Rightarrow> panic + bool) \<Rightarrow> nat \<Rightarrow> nat \<Rightarrow> panic + nat" where
  "search_panic f i j =
     (if i < j then (let h = (i + j) div 2 in
        res_bind (f h) (\<lambda>ge. if ge then search_panic f i h else search_panic f (h + 1) j)) else Inr i)"
  by pat_completeness auto
termination
  by (relation "measure (\<lambda>(f, i, j). j - i)") (auto simp: Let_def)

declare search_panic.simps [simp del]

lemma search_panic_total:
  "j \<le> n \<Longrightarrow> (\<And>k. k < n \<Longrightarrow> f k = Inr (g k)) \<Longrightarrow> search_panic f i j = Inr (search_loop g i j)"
proof (induction g i j rule: search_loop.induct)
  case (1 g i j)
  then show ?case
    by (subst search_panic.simps, subst search_loop.simps) (auto simp: Let_def)
qed

definition idx_Lookup :: "Idx \<Rightarrow> OID \<Rightarrow> panic + 64 word option" where
  "idx_Lookup idx oid =
     (let first = unat (oid ! 0);
          lo = (if first > 0 then unat (ix_fanout idx ! (first - 1)) else 0);
          hi = unat (ix_fanout idx ! first) in
      if lo = hi then Inr None
      else
        res_bind (search_panic (\<lambda>k. res_bind (lookup_oid idx (lo + k)) (\<lambda>got. Inr (oid_ge got oid))) 0 (hi - lo)) (\<lambda>pos.
        if lo \<le> hi \<and> pos = hi - lo then Inr None
        else res_bind (lookup_oid idx (lo + pos)) (\<lambda>got.
          if got \<noteq> oid then Inr None
          else res_bind (OffsetAt idx (lo + pos)) (\<lambda>off. Inr (Some off)))))"

section \<open>A parsed index\<close>

definition wf_idx :: "Idx \<Rightarrow> bool" where
  "wf_idx idx \<longleftrightarrow> length (ix_fanout idx) = 256 \<and> length (ix_oids idx) = 20 * ix_count idx \<and>
     strictly_ascending (map (oid_row idx) [0..<ix_count idx]) \<and>
     (\<forall>b < 256. unat (ix_fanout idx ! b) \<le> ix_count idx \<and>
        (\<forall>k < ix_count idx. k < unat (ix_fanout idx ! b) \<longleftrightarrow> unat (oid_row idx k ! 0) \<le> b)) \<and>
     (\<forall>k < ix_count idx. \<exists>off. OffsetAt idx k = Inr off) \<and> distinct (map (OffsetAt idx) [0..<ix_count idx])"

lemma length_first_bytes [simp]: "length (first_bytes oids n) = 256"
  by (induction n) (simp_all add: first_bytes_def Let_def)

lemma first_bytes_nth: "b < 256 \<Longrightarrow> first_bytes oids n ! b = of_nat (card {k. k < n \<and> unat (oids ! (k * 20)) = b})"
proof (induction n)
  case (Suc n)
  let ?A = "{k. k < n \<and> unat (oids ! (k * 20)) = b}"
  have "{k. k < Suc n \<and> unat (oids ! (k * 20)) = b} = (if unat (oids ! (n * 20)) = b then insert n ?A else ?A)"
    by (auto simp: less_Suc_eq)
  moreover have "first_bytes oids (Suc n) = (first_bytes oids n)[unat (oids ! (n * 20)) := first_bytes oids n ! unat (oids ! (n * 20)) + 1]"
    by (simp add: first_bytes_def Let_def)
  ultimately show ?case using Suc by (auto simp: nth_list_update)
qed (simp add: first_bytes_def)

lemma cumulate_nth: "j < length xs \<Longrightarrow> cumulate c xs ! j = c + sum_list (take (Suc j) xs)"
proof (induction xs arbitrary: c j)
  case (Cons x xs)
  then show ?case by (cases j) simp_all
qed simp

lemma length_cumulate [simp]: "length (cumulate c xs) = length xs"
  by (induction xs arbitrary: c) simp_all

text \<open>The recomputed fanout counts the ids whose first byte is at most \<open>b\<close>.\<close>

lemma fanout_counts:
  assumes "b < 256"
  shows "cumulate 0 (first_bytes oids n) ! b = of_nat (card {k. k < n \<and> unat (oids ! (k * 20)) \<le> b})"
proof -
  let ?c = "\<lambda>b. {k. k < n \<and> unat (oids ! (k * 20)) = b}"
  have "sum_list (take (Suc b) (first_bytes oids n)) = (\<Sum>i\<in>{..b}. of_nat (card (?c i)) :: 32 word)" if "b < 256" for b
    using that
  proof (induction b)
    case 0
    then show ?case by (simp add: take_Suc_conv_app_nth first_bytes_nth)
  next
    case (Suc b)
    then show ?case by (subst take_Suc_conv_app_nth) (simp_all add: first_bytes_nth)
  qed
  moreover have "{k. k < n \<and> unat (oids ! (k * 20)) \<le> b} = (\<Union>i\<in>{..b}. ?c i)" by auto
  then have "card {k. k < n \<and> unat (oids ! (k * 20)) \<le> b} = (\<Sum>i\<in>{..b}. card (?c i))"
    by (simp only:) (rule card_UN_disjoint; auto)
  ultimately show ?thesis using assms by (simp add: cumulate_nth)
qed

lemma initial_segment:
  fixes A :: "nat set"
  assumes "A \<subseteq> {..<n}" "\<And>i j. j \<in> A \<Longrightarrow> i \<le> j \<Longrightarrow> i \<in> A"
  shows "k \<in> A \<longleftrightarrow> k < card A"
proof -
  have fin: "finite A" using assms(1) finite_subset by blast
  show ?thesis
  proof
    assume "k \<in> A"
    then have "{..k} \<subseteq> A" using assms(2) by auto
    from card_mono [OF fin this] show "k < card A" by simp
  next
    assume k: "k < card A"
    show "k \<in> A"
    proof (rule ccontr)
      assume "k \<notin> A"
      then have "A \<subseteq> {..<k}" using assms(2) by (meson lessThan_iff not_le subsetI)
      from card_mono [OF _ this] k show False by simp
    qed
  qed
qed

lemma row_head: "(k + 1) * 20 \<le> length b \<Longrightarrow> row 20 b k ! 0 = b ! (k * 20)"
  by (simp add: row_def bslice_def)

lemma hd_le:
  fixes a b :: bytes
  assumes "a < b" "length a = length b" "0 < length a"
  shows "a ! 0 \<le> b ! 0"
  using assms by (cases a; cases b) auto

lemma fanout_wf:
  assumes len: "length oids = 20 * n" and asc: "strictly_ascending (map (row 20 oids) [0..<n])"
    and n: "n < 2 ^ 32" and b: "b < 256"
  shows "unat (cumulate 0 (first_bytes oids n) ! b) \<le> n"
    "k < n \<Longrightarrow> k < unat (cumulate 0 (first_bytes oids n) ! b) \<longleftrightarrow> unat (row 20 oids k ! 0) \<le> b"
proof -
  let ?A = "{k. k < n \<and> unat (oids ! (k * 20)) \<le> b}"
  have "card ?A \<le> card {..<n}" by (rule card_mono) auto
  then have c: "card ?A \<le> n" by simp
  then have u: "unat (cumulate 0 (first_bytes oids n) ! b) = card ?A"
    using n by (simp add: fanout_counts [OF b] unat_of_nat)
  with c show "unat (cumulate 0 (first_bytes oids n) ! b) \<le> n" by simp
  have head: "row 20 oids k ! 0 = oids ! (k * 20)" if "k < n" for k
    using that len by (intro row_head) simp
  have mono: "oids ! (i * 20) \<le> oids ! (j * 20)" if "i \<le> j" "j < n" for i j
  proof (cases "i = j")
    case False
    with that asc have "row 20 oids i < row 20 oids j"
      by (simp add: strictly_ascending_iff sorted_wrt_iff_nth_less)
    then show ?thesis
      using hd_le [of "row 20 oids i" "row 20 oids j"] that len by (simp add: length_row head)
  qed simp
  have closed: "i \<in> ?A" if "j \<in> ?A" "i \<le> j" for i j
    using mono [of i j, unfolded word_le_nat_alt] that by simp
  have seg: "k \<in> ?A \<longleftrightarrow> k < card ?A" for k
  proof (rule initial_segment)
    show "?A \<subseteq> {..<n}" by auto
  qed (rule closed)
  show "k < unat (cumulate 0 (first_bytes oids n) ! b) \<longleftrightarrow> unat (row 20 oids k ! 0) \<le> b" if "k < n"
    unfolding u head [OF that] using seg [of k, unfolded mem_Collect_eq] that by blast
qed

lemma list_all_upt: "list_all P [i..<j] \<longleftrightarrow> (\<forall>k. i \<le> k \<longrightarrow> k < j \<longrightarrow> P k)"
  by (auto simp: list_all_iff)

lemma read_idx_ok: "read_idx b off n what = Inr p \<Longrightarrow> length p = n \<and> p = bslice off (off + n) b"
  by (auto simp: read_idx_def bytes_ReadAt_def bslice_def split: option.splits if_splits)

lemma ascending_rows:
  assumes "list_all (\<lambda>k. row 20 b (k - 1) < row 20 b k) [1..<n]"
  shows "strictly_ascending (map (row 20 b) [0..<n])"
proof (rule ascending_steps)
  fix k assume "Suc k < n"
  then show "row 20 b k < row 20 b (Suc k)"
    using assms [unfolded list_all_upt, rule_format, of "Suc k"] by simp
qed

lemma fanout_zero:
  assumes mono: "list_all (\<lambda>i. \<not> fan ! i < fan ! (i - 1)) [1..<256]" and z: "fan ! 255 = (0 :: 32 word)" "b < 256"
  shows "fan ! b = 0"
proof -
  have "fan ! (255 - i) = 0" if "i < 256" for i
    using that
  proof (induction i)
    case (Suc i)
    have "\<not> fan ! (255 - i) < fan ! (255 - i - 1)"
      by (rule mono [unfolded list_all_upt, rule_format]) (use Suc.prems in auto)
    with Suc show ?case by (simp add: not_less)
  qed (simp add: z)
  from this [of "255 - b"] z(2) show ?thesis by simp
qed

lemma OffsetAt_parsed:
  assumes "length (ix_offsets idx) = n * 4" "k < n"
    and "list_all (\<lambda>k. \<not> is_large (raw_offset (ix_offsets idx) k) \<or> large_index (raw_offset (ix_offsets idx) k) < length (ix_largeOffs idx)) [0..<n]"
  shows "\<exists>off. OffsetAt idx k = Inr off"
  using assms(1,2) assms(3) [unfolded list_all_upt, rule_format, of k] by (auto simp: OffsetAt_def Let_def)

lemma OffsetAt_trailer [simp]: "OffsetAt (idx\<lparr>ix_packTrailer := a, ix_idxSelfSHA := c\<rparr>) = OffsetAt idx"
  by (simp add: fun_eq_iff OffsetAt_def Let_def)

lemma ParseIdx_wf:
  assumes "ParseIdx b = Inr idx"
  shows "wf_idx idx"
proof -
  obtain fanoutBuf fan n oids crcs offs large tr where
    fan: "fan = read_fanout fanoutBuf" "n = unat (fan ! 255)" "list_all (\<lambda>i. \<not> fan ! i < fan ! (i - 1)) [1..<256]"
    and oids: "read_idx b 1032 (n * 20) ''read oid table'' = Inr oids"
      "list_all (\<lambda>k. row 20 oids (k - 1) < row 20 oids k) [1..<n]" "n = 0 \<or> cumulate 0 (first_bytes oids n) = fan"
    and offs: "read_idx b (1032 + n * 24) (n * 4) ''read offset table'' = Inr offs"
      "list_all (\<lambda>k. \<not> is_large (raw_offset offs k) \<or> large_index (raw_offset offs k) < length large) [0..<n]"
    and idx: "idx = \<lparr>ix_count = n, ix_fanout = fan, ix_oids = oids, ix_crcs = crcs, ix_offsets = offs, ix_largeOffs = large,
         ix_packTrailer = [], ix_idxSelfSHA = []\<rparr>\<lparr>ix_packTrailer := take 20 tr, ix_idxSelfSHA := drop 20 tr\<rparr>"
      "distinct (map (OffsetAt \<lparr>ix_count = n, ix_fanout = fan, ix_oids = oids, ix_crcs = crcs, ix_offsets = offs, ix_largeOffs = large,
         ix_packTrailer = [], ix_idxSelfSHA = []\<rparr>) [0..<n])"
    using assms unfolding ParseIdx_def Let_def res_bind_Inr require_Inr sum.inject
    by (elim exE conjE) (rule that [OF refl refl _ _ _ _ _ _ sym])
  have len: "length oids = 20 * n" "length offs = n * 4" using read_idx_ok [OF oids(1)] read_idx_ok [OF offs(1)] by auto
  have asc: "strictly_ascending (map (row 20 oids) [0..<n])" using ascending_rows [OF oids(2)] .
  have n: "n < 2 ^ 32" using unat_lt_pow [of "fan ! 255"] fan(2) by simp
  have f: "unat (fan ! c) \<le> n \<and> (\<forall>k < n. k < unat (fan ! c) \<longleftrightarrow> unat (row 20 oids k ! 0) \<le> c)" if c: "c < 256" for c
  proof (cases "n = 0")
    case True
    then have "fan ! 255 = 0" using fan(2) by (simp add: unat_eq_0)
    from fanout_zero [OF fan(3) this c] True show ?thesis by simp
  next
    case False
    then have "cumulate 0 (first_bytes oids n) = fan" using oids(3) by blast
    with fanout_wf [OF len(1) asc n c] show ?thesis by auto
  qed
  have o: "oid_row idx = row 20 oids" by (simp add: idx(1))
  have d: "distinct (map (OffsetAt idx) [0..<n])" using idx(2) unfolding idx(1) OffsetAt_trailer .
  have "\<exists>off. OffsetAt idx k = Inr off" if "k < n" for k
    by (rule OffsetAt_parsed [of idx n]) (use len that offs(2) in \<open>simp_all add: idx(1)\<close>)
  with f asc len d o show ?thesis
    unfolding wf_idx_def by (simp add: idx(1) fan(1) read_fanout_def del: upt_Suc)
qed

section \<open>Look-ups\<close>

lemma oid_ge_iff: "length a = length b \<Longrightarrow> oid_ge a b \<longleftrightarrow> b \<le> a"
  by (induction a b rule: oid_ge.induct) (auto simp: not_le not_less)

lemma length_oid_row: "wf_idx idx \<Longrightarrow> k < ix_count idx \<Longrightarrow> length (oid_row idx k) = 20"
  by (auto simp: wf_idx_def intro!: length_row)

lemma OIDAt_row: "wf_idx idx \<Longrightarrow> k < ix_count idx \<Longrightarrow> OIDAt idx k = Inr (oid_row idx k)"
  by (auto simp: wf_idx_def OIDAt_def)

lemma lookup_oid_row: "wf_idx idx \<Longrightarrow> k < ix_count idx \<Longrightarrow> lookup_oid idx k = Inr (oid_row idx k)"
  using length_oid_row [of idx k] by (auto simp: wf_idx_def lookup_oid_def row_def bslice_def Let_def)

lemma idx_Lookup_wf:
  assumes wf: "wf_idx idx" and oid: "length oid = 20"
  shows "(\<exists>k off. k < ix_count idx \<and> OIDAt idx k = Inr oid \<and> OffsetAt idx k = Inr off \<and> idx_Lookup idx oid = Inr (Some off)) \<or>
    ((\<forall>k < ix_count idx. \<exists>x. OIDAt idx k = Inr x \<and> x \<noteq> oid) \<and> idx_Lookup idx oid = Inr None)"
proof -
  let ?n = "ix_count idx" and ?f = "unat (oid ! 0)"
  define lo where "lo = (if ?f > 0 then unat (ix_fanout idx ! (?f - 1)) else 0)"
  define hi where "hi = unat (ix_fanout idx ! ?f)"
  define g where "g = (\<lambda>k. oid_ge (oid_row idx (lo + k)) oid)"
  have fan: "unat (ix_fanout idx ! b) \<le> ?n" "k < ?n \<Longrightarrow> k < unat (ix_fanout idx ! b) \<longleftrightarrow> unat (oid_row idx k ! 0) \<le> b"
    if "b < 256" for b k using wf that unfolding wf_idx_def by blast+
  have hi: "hi \<le> ?n" "k < ?n \<Longrightarrow> k < hi \<longleftrightarrow> unat (oid_row idx k ! 0) \<le> ?f" for k
    using fan [of ?f] by (simp_all add: hi_def)
  have lo: "k < ?n \<Longrightarrow> lo \<le> k \<longleftrightarrow> ?f \<le> unat (oid_row idx k ! 0)" for k
    using fan(2) [of "?f - 1" k] unat_byte_less [of "oid ! 0"] by (auto simp: lo_def not_less [symmetric] simp del: unat_byte_less)
  have asc: "strictly_ascending (map (oid_row idx) [lo..<hi])"
  proof -
    have "sorted_wrt (<) (map (oid_row idx) [0..<?n])" using wf by (simp add: wf_idx_def strictly_ascending_iff)
    then show ?thesis using hi(1) by (auto simp: strictly_ascending_iff sorted_wrt_iff_nth_less)
  qed
  have g: "g i \<longleftrightarrow> oid \<le> map (oid_row idx) [lo..<hi] ! i" if "i < length (map (oid_row idx) [lo..<hi])" for i
    using that hi(1) length_oid_row [OF wf, of "lo + i"] oid by (simp add: g_def oid_ge_iff)
  have look: "idx_Lookup idx oid = (if lo = hi then Inr None else if sort_Search (hi - lo) g = hi - lo then Inr None
      else if oid_row idx (lo + sort_Search (hi - lo) g) \<noteq> oid then Inr None
      else res_bind (OffsetAt idx (lo + sort_Search (hi - lo) g)) (\<lambda>off. Inr (Some off)))"
  proof -
    have "lo \<le> ?n" using fan(1) [of "?f - 1"] unat_byte_less [of "oid ! 0"]
      by (auto simp: lo_def simp del: unat_byte_less)
    then have "lo \<le> hi" using lo [of hi] hi(2) [of hi] by (cases "hi < ?n") auto
    let ?f = "\<lambda>k. res_bind (lookup_oid idx (lo + k)) (\<lambda>got. Inr (oid_ge got oid))" and ?p = "sort_Search (hi - lo) g"
    have l: "lookup_oid idx (lo + k) = Inr (oid_row idx (lo + k))" if "k < hi - lo" for k
      by (rule lookup_oid_row [OF wf]) (use that hi(1) in linarith)
    have "search_panic ?f 0 (hi - lo) = Inr ?p"
      unfolding sort_Search_def by (rule search_panic_total [OF order_refl]) (simp add: l g_def)
    moreover have "lookup_oid idx (lo + ?p) = Inr (oid_row idx (lo + ?p))" if "?p \<noteq> hi - lo"
      by (rule l) (use that sort_Search_le [of "hi - lo" g] in linarith)
    ultimately show ?thesis
      using \<open>lo \<le> hi\<close> unfolding idx_Lookup_def lo_def [symmetric] hi_def [symmetric] Let_def by auto
  qed
  show ?thesis
  proof (cases "\<exists>k < ?n. oid_row idx k = oid")
    case True
    then obtain k where k: "k < ?n" "oid_row idx k = oid" by blast
    then have r: "lo \<le> k" "k < hi" using lo [of k] hi(2) [of k] by simp_all
    have "sort_Search (hi - lo) g = k - lo"
      using sort_Search_key [OF asc g, of "k - lo"] r k(2) by simp
    moreover obtain off where "OffsetAt idx k = Inr off" using wf k(1) unfolding wf_idx_def by blast
    ultimately have "idx_Lookup idx oid = Inr (Some off)" using look r k(2) by simp
    with k OIDAt_row [OF wf k(1)] \<open>OffsetAt idx k = Inr off\<close> show ?thesis by auto
  next
    case False
    let ?p = "sort_Search (hi - lo) g"
    have "oid_row idx (lo + ?p) \<noteq> oid" if "?p \<noteq> hi - lo" "lo \<noteq> hi"
    proof -
      have "?p \<le> hi - lo" by (rule sort_Search_le)
      with that hi(1) have "lo + ?p < ?n" by linarith
      with False show ?thesis by blast
    qed
    with look have "idx_Lookup idx oid = Inr None" by auto
    with False OIDAt_row [OF wf] show ?thesis by auto
  qed
qed

section \<open>Files the parser accepts\<close>

text \<open>The version 2 file of sorted ids with offsets below 2 GiB, and that it is accepted.\<close>

definition idx_fan :: "(OID \<times> 32 word) list \<Rightarrow> 32 word list" where
  "idx_fan es = cumulate 0 (first_bytes (concat (map fst es)) (length es))"

definition idx_body :: "(OID \<times> 32 word) list \<Rightarrow> bytes \<Rightarrow> bytes" where
  "idx_body es tr = idxMagic @ put_be_u32 2 @ concat (map put_be_u32 (idx_fan es)) @ concat (map fst es) @
     replicate (length es * 4) 0 @ concat (map (put_be_u32 \<circ> snd) es) @ tr"

definition idx_file :: "(OID \<times> 32 word) list \<Rightarrow> bytes \<Rightarrow> bytes" where
  "idx_file es tr = idx_body es tr @ sha1 (idx_body es tr)"

definition idx_entries :: "(OID \<times> 32 word) list \<Rightarrow> bool" where
  "idx_entries es \<longleftrightarrow> (\<forall>e \<in> set es. length (fst e) = 20 \<and> \<not> is_large (snd e)) \<and> strictly_ascending (map fst es) \<and>
     distinct (map snd es) \<and> length es < 2 ^ 32"

lemma read_idx_mid:
  "length a = off \<Longrightarrow> length c = n \<Longrightarrow> 0 < length d \<Longrightarrow> read_idx (a @ c @ d) off n what = Inr c"
  by (simp add: read_idx_def bytes_ReadAt_def)

lemma fan_read:
  assumes "length ws = 256"
  shows "read_fanout (concat (map put_be_u32 ws)) = ws"
proof (rule nth_equalityI)
  fix i assume "i < length (read_fanout (concat (map put_be_u32 ws)))"
  then have i: "i < 256" by (simp add: read_fanout_def)
  have "drop (i * 4) (concat (map put_be_u32 ws)) = map put_be_u32 ws ! i @ drop (Suc i * 4) (concat (map put_be_u32 ws))"
    by (rule concat_row_prefix) (use assms i in auto)
  then show "read_fanout (concat (map put_be_u32 ws)) ! i = ws ! i" using i assms by (simp add: read_fanout_def del: upt_Suc)
qed (simp add: read_fanout_def assms del: upt_Suc)

lemma concat_oids_row: "idx_entries es \<Longrightarrow> k < length es \<Longrightarrow> row 20 (concat (map fst es)) k = fst (es ! k)"
  using row_concat [of "map fst es" 20 k "[]"] by (simp add: idx_entries_def)

lemma concat_offs: "k < length es \<Longrightarrow> raw_offset (concat (map (put_be_u32 \<circ> snd) es)) k = snd (es ! k)"
proof -
  assume k: "k < length es"
  have "drop (k * 4) (concat (map (put_be_u32 \<circ> snd) es)) = map (put_be_u32 \<circ> snd) es ! k @ drop (Suc k * 4) (concat (map (put_be_u32 \<circ> snd) es))"
    by (rule concat_row_prefix) (use k in auto)
  with k show ?thesis by (simp add: raw_offset_def)
qed

lemma no_large: "(\<And>k. k < n \<Longrightarrow> \<not> is_large (raw_offset offs k)) \<Longrightarrow> required_large offs n = 0"
  by (induction n) (simp_all add: required_large_def Let_def)

lemma fan_wf:
  assumes "idx_entries es"
  shows "length (idx_fan es) = 256" "unat (idx_fan es ! 255) = length es"
    "list_all (\<lambda>i. \<not> idx_fan es ! i < idx_fan es ! (i - 1)) [1..<256]"
proof -
  let ?o = "concat (map fst es)" and ?n = "length es"
  let ?A = "\<lambda>b. {k. k < ?n \<and> unat (?o ! (k * 20)) \<le> b}"
  show "length (idx_fan es) = 256" by (simp add: idx_fan_def)
  have c: "card (?A b) \<le> ?n" for b
    using card_mono [of "{..<?n}" "?A b"] by auto
  then have u: "unat (idx_fan es ! b) = card (?A b)" if "b < 256" for b
    using assms that le_less_trans [OF c [of b], of "2 ^ 32"] by (simp add: idx_fan_def fanout_counts unat_of_nat idx_entries_def)
  have "?A 255 = {..<?n}" by (auto intro: less_imp_le simp: less_Suc_eq_le [symmetric])
  then show "unat (idx_fan es ! 255) = length es" by (simp add: u)
  have "idx_fan es ! (i - 1) \<le> idx_fan es ! i" if "i < 256" for i
  proof -
    have "card (?A (i - 1)) \<le> card (?A i)" by (rule card_mono) auto
    with that show ?thesis by (simp add: word_le_nat_alt u)
  qed
  then show "list_all (\<lambda>i. \<not> idx_fan es ! i < idx_fan es ! (i - 1)) [1..<256]"
    unfolding list_all_upt by (auto simp: not_less)
qed

lemma concat_put_length: "length (concat (map (put_be_u32 \<circ> g) es)) = length es * 4"
  by (induction es) auto

lemma unat_ucast_u32 [simp]: "unat (ucast (x :: 32 word) :: 64 word) = unat x"
  using unat_lt_pow [of x] by (simp add: unsigned_ucast_eq take_bit_nat_eq_self)

lemma ucast_u32_inject: "(ucast (x :: 32 word) :: 64 word) = ucast y \<Longrightarrow> x = y"
  by (metis unat_ucast_u32 word_unat_eq_iff)

lemma idx_file_parses:
  assumes es: "idx_entries es" and tr: "length tr = 20"
  shows "\<exists>idx. ParseIdx (idx_file es tr) = Inr idx \<and> ix_count idx = length es \<and>
    (\<forall>k < length es. OIDAt idx k = Inr (fst (es ! k)) \<and> OffsetAt idx k = Inr (ucast (snd (es ! k))))"
proof -
  let ?n = "length es" and ?b = "idx_file es tr" and ?sum = "sha1 (idx_body es tr)"
  let ?hd = "idxMagic @ put_be_u32 2" and ?fan = "concat (map put_be_u32 (idx_fan es))" and ?oids = "concat (map fst es)"
  let ?crc = "replicate (?n * 4) 0 :: bytes" and ?offs = "concat (map (put_be_u32 \<circ> snd) es)"
  have len: "length ?hd = 8" "length ?fan = 1024" "length ?oids = ?n * 20"
    using length_concat_rows [of "map fst es" 20] es fan_wf(1) [OF es] concat_put_length [of id "idx_fan es"]
    by (auto simp: idx_entries_def)
  note len = len concat_put_length [of snd es]
  have b: "?b = ?hd @ ?fan @ ?oids @ ?crc @ ?offs @ tr @ ?sum" by (simp add: idx_file_def idx_body_def)
  have size: "length ?b = 8 + 1024 + ?n * 28 + 40" unfolding b length_append len by (simp add: tr)
  have r: "read_idx ?b 0 8 ''read header'' = Inr ?hd" "read_idx ?b 8 1024 ''read fanout'' = Inr ?fan"
    "read_idx ?b 1032 (?n * 20) ''read oid table'' = Inr ?oids"
    "read_idx ?b (1032 + ?n * 20) (?n * 4) ''read crc table'' = Inr ?crc"
    "read_idx ?b (1032 + ?n * 24) (?n * 4) ''read offset table'' = Inr ?offs"
    "read_idx ?b (1032 + ?n * 28) 40 ''read trailer'' = Inr (tr @ ?sum)"
  proof -
    show "read_idx ?b 0 8 ''read header'' = Inr ?hd"
      unfolding b using read_idx_mid [of "[]" 0 ?hd 8 "?fan @ ?oids @ ?crc @ ?offs @ tr @ ?sum"] len tr by simp
    show "read_idx ?b 8 1024 ''read fanout'' = Inr ?fan"
      unfolding b by (rule read_idx_mid) (use len tr in auto)
    show "read_idx ?b 1032 (?n * 20) ''read oid table'' = Inr ?oids"
      unfolding b using read_idx_mid [of "?hd @ ?fan" 1032 ?oids "?n * 20" "?crc @ ?offs @ tr @ ?sum"] len tr by simp
    show "read_idx ?b (1032 + ?n * 20) (?n * 4) ''read crc table'' = Inr ?crc"
      unfolding b using read_idx_mid [of "?hd @ ?fan @ ?oids" "1032 + ?n * 20" ?crc "?n * 4" "?offs @ tr @ ?sum"] len tr by simp
    show "read_idx ?b (1032 + ?n * 24) (?n * 4) ''read offset table'' = Inr ?offs"
      unfolding b using read_idx_mid [of "?hd @ ?fan @ ?oids @ ?crc" "1032 + ?n * 24" ?offs "?n * 4" "tr @ ?sum"] len tr by simp
    have "bslice (1032 + ?n * 28) (1072 + ?n * 28) ((?hd @ ?fan @ ?oids @ ?crc @ ?offs) @ tr @ ?sum) = tr @ ?sum"
      by (rule bslice_append_last) (simp_all add: len tr)
    then show "read_idx ?b (1032 + ?n * 28) 40 ''read trailer'' = Inr (tr @ ?sum)"
      using size by (simp add: read_idx_def bytes_ReadAt_def b)
  qed
  have small: "\<not> is_large (raw_offset ?offs k)" if "k < ?n" for k
    using es that nth_mem [OF that] by (simp add: concat_offs idx_entries_def)
  have large: "required_large ?offs ?n = 0" by (rule no_large) (rule small)
  have asc: "list_all (\<lambda>k. row 20 ?oids (k - 1) < row 20 ?oids k) [1..<?n]"
    unfolding list_all_upt using es by (auto simp: concat_oids_row idx_entries_def strictly_ascending_iff sorted_wrt_iff_nth_less)
  define idx0 where "idx0 = \<lparr>ix_count = ?n, ix_fanout = idx_fan es, ix_oids = ?oids, ix_crcs = ?crc, ix_offsets = ?offs,
    ix_largeOffs = [] :: 64 word list, ix_packTrailer = [] :: bytes, ix_idxSelfSHA = [] :: bytes\<rparr>"
  have off: "OffsetAt idx0 k = Inr (ucast (snd (es ! k)))" if "k < ?n" for k
    using that small [OF that] len(4) by (simp add: OffsetAt_def idx0_def Let_def concat_offs)
  have dist: "distinct (map (OffsetAt idx0) [0..<?n])"
    unfolding distinct_map
  proof (intro conjI inj_onI)
    fix i j assume ij: "i \<in> set [0..<?n]" "j \<in> set [0..<?n]" "OffsetAt idx0 i = OffsetAt idx0 j"
    then have "snd (es ! i) = snd (es ! j)" using off [of i] off [of j] by (auto dest: ucast_u32_inject)
    with ij es show "i = j" by (auto simp: idx_entries_def distinct_conv_nth)
  qed simp
  have "ParseIdx ?b = Inr (idx0\<lparr>ix_packTrailer := take 20 (tr @ ?sum), ix_idxSelfSHA := drop 20 (tr @ ?sum)\<rparr>)"
  proof -
    have cond: "8 + 1024 + 40 \<le> 8 + 1024 + ?n * 28 + (40::nat)" "take 4 ?hd = idxMagic" "be_u32 (drop 4 ?hd) = 2"
      "8 + 1024 + ?n * (20 + 4 + 4) + 40 \<le> 8 + 1024 + ?n * 28 + (40::nat)"
      "?n = 0 \<or> cumulate 0 (first_bytes ?oids ?n) = idx_fan es"
      "8 + 1024 + ?n * 28 + 40 - (1032 + ?n * 28) - 40 = (0::nat) * 8"
      "list_all (\<lambda>k. \<not> is_large (raw_offset ?offs k) \<or> large_index (raw_offset ?offs k) < length ([] :: 64 word list)) [0..<?n]"
      "sha1 (take (8 + 1024 + ?n * 28 + 40 - 20) ?b) = drop 20 (tr @ ?sum)"
    proof -
      have "length (idx_body es tr) = 8 + 1024 + ?n * 28 + 20" using size by (simp add: idx_file_def)
      then show "sha1 (take (8 + 1024 + ?n * 28 + 40 - 20) ?b) = drop 20 (tr @ ?sum)" by (simp add: idx_file_def tr)
      show "list_all (\<lambda>k. \<not> is_large (raw_offset ?offs k) \<or> large_index (raw_offset ?offs k) < length ([] :: 64 word list)) [0..<?n]"
        using small by (simp add: list_all_upt)
    qed (simp_all add: idx_fan_def)
    show ?thesis
      unfolding ParseIdx_def Let_def size r fan_read [OF fan_wf(1) [OF es]] fan_wf(2) [OF es] res_bind.simps large
      using fan_wf(3) [OF es] asc dist cond unfolding idx0_def
      by (simp only: require_True res_bind.simps simp_thms if_False mult_0 less_irrefl add_0_right r)
  qed
  moreover have "ix_count idx0 = ?n" "ix_oids idx0 = ?oids" by (simp_all add: idx0_def)
  ultimately show ?thesis
    using es off len(3) by (auto simp: OIDAt_def concat_oids_row)
qed

text \<open>C11: an index the parser accepts answers every look-up as a scan of its table does: the offset of the
  entry with that id if there is one, and absence otherwise; it never panics. So the checks the parser
  makes are all that the fanout and the binary search rely on.\<close>

theorem idx_lookup_scan:
  assumes "ParseIdx b = Inr idx" "length oid = 20"
  shows "(\<exists>k off. k < ix_count idx \<and> OIDAt idx k = Inr oid \<and> OffsetAt idx k = Inr off \<and> idx_Lookup idx oid = Inr (Some off)) \<or>
    ((\<forall>k < ix_count idx. \<exists>x. OIDAt idx k = Inr x \<and> x \<noteq> oid) \<and> idx_Lookup idx oid = Inr None)"
  by (rule idx_Lookup_wf [OF ParseIdx_wf [OF assms(1)] assms(2)])

definition sample_oids :: "(OID \<times> 32 word) list" where
  "sample_oids = [(1 # replicate 19 0, 12), (7 # replicate 19 0, 300)]"

theorem idx_lookup_scan_witness:
  "\<exists>idx. ParseIdx (idx_file sample_oids (replicate 20 0)) = Inr idx \<and> idx_Lookup idx (7 # replicate 19 0) = Inr (Some 300) \<and>
     idx_Lookup idx (3 # replicate 19 0) = Inr None"
proof -
  have es: "idx_entries sample_oids"
    by (simp add: idx_entries_def sample_oids_def is_large_def idxOffsetMSB_def)
  obtain idx where idx: "ParseIdx (idx_file sample_oids (replicate 20 0)) = Inr idx" "ix_count idx = 2"
      "\<And>k. k < 2 \<Longrightarrow> OIDAt idx k = Inr (fst (sample_oids ! k)) \<and> OffsetAt idx k = Inr (ucast (snd (sample_oids ! k)))"
    using idx_file_parses [OF es, of "replicate 20 0"] by (auto simp: sample_oids_def)
  have "OIDAt idx 0 = Inr (1 # replicate 19 0)" "OIDAt idx 1 = Inr (7 # replicate 19 0)" "OffsetAt idx 1 = Inr 300"
    using idx(3) [of 0] idx(3) [of 1] by (simp_all add: sample_oids_def)
  with idx_lookup_scan [OF idx(1), of "7 # replicate 19 0"] idx_lookup_scan [OF idx(1), of "3 # replicate 19 0"] idx(1,2)
  show ?thesis by (auto simp: less_2_cases_iff)
qed

end
