(* ===== verification/Obj_Index.thy ===== *)
theory Obj_Index
  imports Pack_Index Object_Store Sha256
begin

text \<open>
  The object map of a repository (\<open>internal/objindex\<close>): the \<open>.bvom\<close> file that says for every object in
  which pack and at which offset it is, its builder, its reader with all its checks, and the look-up.
\<close>

section \<open>Files closed by their hash\<close>

text \<open>The last 32 bytes are the SHA-256 of what comes before.\<close>

definition sealed :: "bytes \<Rightarrow> bool" where
  "sealed all \<longleftrightarrow> sha256 (take (length all - 32) all) = drop (length all - 32) all"

definition seal :: "bytes \<Rightarrow> bytes" where
  "seal body = body @ sha256 body"

lemma sealed_seal [simp]: "sealed (seal body)"
  by (simp add: sealed_def seal_def)

lemma length_seal [simp]: "length (seal body) = length body + 32"
  by (simp add: seal_def)

text \<open>\<open>io.ReadAll(io.LimitReader(body, max + 1))\<close>: \<open>None\<close> when the read fails within the limit.\<close>

definition read_limited :: "nat \<Rightarrow> Object \<Rightarrow> bytes option" where
  "read_limited lim obj =
     (if obj_ReadErr obj \<and> length (obj_Body obj) < lim + 1 then None
      else Some (bytes_of_str (take (lim + 1) (obj_Body obj))))"

section \<open>The format\<close>

datatype objindex_error =
    ObjCorrupt string | ObjInvalid string | ObjGet storage_error | ObjRead | ObjPanic

record om_Entry =
  en_OID :: OID
  en_PackID :: string
  en_Offset :: "64 word"

definition validPackID :: "string \<Rightarrow> bool" where
  "validPackID s \<longleftrightarrow> length s = 40 \<and> list_all is_lower_hex s"

definition om_magic :: bytes where "om_magic = bytes_of_str ''BVOM''"

lemma length_om_magic [simp]: "length om_magic = 4"
  by (simp add: om_magic_def)

section \<open>Building\<close>

text \<open>The position of a pack id in the sorted table.\<close>

definition id_of :: "string list \<Rightarrow> string \<Rightarrow> 16 word" where
  "id_of table pid = (case index_byte table pid of None \<Rightarrow> 0 | Some i \<Rightarrow> of_nat i)"

definition om_record :: "string list \<Rightarrow> om_Entry \<Rightarrow> bytes" where
  "om_record table e = en_OID e @ put_be_u16 (id_of table (en_PackID e)) @ [0, 0] @ put_be_u64 (en_Offset e)"

definition om_body :: "string list \<Rightarrow> om_Entry list \<Rightarrow> bytes" where
  "om_body packTable entries =
     om_magic @ put_be_u32 1 @ put_be_u64 (of_nat (length entries)) @ put_be_u64 (of_nat (32 + length entries * 32)) @ replicate 8 0 @
     concat (map (om_record packTable) entries) @
     put_be_u16 (of_nat (length packTable)) @ concat (map bytes_of_str packTable)"

definition om_build :: "om_Entry list \<Rightarrow> objindex_error + bytes" where
  "om_build entries =
     res_bind (require (list_all (\<lambda>e. validPackID (en_PackID e)) entries) (ObjInvalid ''invalid pack_id'')) (\<lambda>_.
     (let packTable = sort (remdups (map en_PackID entries)) in
      res_bind (require (length packTable \<le> 0xffff) (ObjInvalid ''too many distinct packs'')) (\<lambda>_.
      (let entries = sort_by en_OID entries in
       res_bind (require (list_all (\<lambda>i. en_OID (entries ! i) \<noteq> en_OID (entries ! (i - 1))) [1..<length entries])
                  (ObjInvalid ''duplicate OID'')) (\<lambda>_.
       Inr (seal (om_body packTable entries)))))))"

fun om_pack_entries :: "Idx \<Rightarrow> string \<Rightarrow> nat list \<Rightarrow> objindex_error + om_Entry list" where
  "om_pack_entries idx packID [] = Inr []"
| "om_pack_entries idx packID (i # is) =
     (case (OIDAt idx i, OffsetAt idx i) of
        (Inr oid, Inr off) \<Rightarrow>
          res_bind (om_pack_entries idx packID is) (\<lambda>es. Inr (\<lparr>en_OID = oid, en_PackID = packID, en_Offset = off\<rparr> # es))
      | _ \<Rightarrow> Inl ObjPanic)"

definition om_Build :: "Idx \<Rightarrow> string \<Rightarrow> objindex_error + bytes" where
  "om_Build idx packID =
     res_bind (require (validPackID packID) (ObjInvalid ''packID must be 40-char lowercase hex'')) (\<lambda>_.
     res_bind (om_pack_entries idx packID [0..<ix_count idx]) om_build)"

section \<open>Reading\<close>

record om_Map =
  om_count :: nat
  om_records :: bytes
  om_packTable :: "string list"

definition om_key :: "bytes \<Rightarrow> nat \<Rightarrow> OID" where
  "om_key records i = take 20 (row 32 records i)"

definition om_pack_idx :: "bytes \<Rightarrow> nat \<Rightarrow> nat" where
  "om_pack_idx records i = unat (be_u16 (drop 20 (row 32 records i)))"

text \<open>The sizes are read as 64-bit numbers; past the first two checks none of the sums can wrap.\<close>

definition openFromBytes :: "bytes \<Rightarrow> objindex_error + om_Map" where
  "openFromBytes all =
     res_bind (require (32 + 32 \<le> length all) (ObjCorrupt ''file too small'')) (\<lambda>_.
     res_bind (require (sealed all) (ObjCorrupt ''trailer hash mismatch'')) (\<lambda>_.
     res_bind (require (take 4 all = om_magic) (ObjCorrupt ''bad magic'')) (\<lambda>_.
     res_bind (require (be_u32 (drop 4 all) = 1) (ObjCorrupt ''version'')) (\<lambda>_.
     (let count = unat (be_u64 (drop 8 all)); maxRecords = (length all - 32 - 32) div 32 in
     res_bind (require (count \<le> maxRecords) (ObjCorrupt ''count exceeds file capacity'')) (\<lambda>_.
     res_bind (require (count \<le> 2 ^ 31 - 1) (ObjCorrupt ''count exceeds MaxInt32'')) (\<lambda>_.
     (let packTblOff = unat (be_u64 (drop 16 all)) in
     res_bind (require (packTblOff = 32 + count * 32) (ObjCorrupt ''pack_tbl offset mismatch'')) (\<lambda>_.
     res_bind (require (packTblOff + 2 \<le> length all - 32) (ObjCorrupt ''pack-table header would overlap trailer'')) (\<lambda>_.
     (let nPacks = unat (be_u16 (drop packTblOff all)) in
     res_bind (require (length all = packTblOff + 2 + nPacks * 40 + 32) (ObjCorrupt ''file size'')) (\<lambda>_.
     (let packs = map (\<lambda>i. str_of_bytes (bslice (packTblOff + 2 + i * 40) (packTblOff + 2 + i * 40 + 40) all)) [0..<nPacks];
          records = bslice 32 (32 + count * 32) all in
     res_bind (require (list_all validPackID packs) (ObjCorrupt ''pack table entry'')) (\<lambda>_.
     res_bind (require (list_all (\<lambda>i. om_key records (i - 1) < om_key records i) [1..<count]) (ObjCorrupt ''records not sorted'')) (\<lambda>_.
     res_bind (require (list_all (\<lambda>i. om_pack_idx records i < nPacks) [0..<count]) (ObjCorrupt ''pack_idx'')) (\<lambda>_.
     Inr \<lparr>om_count = count, om_records = records, om_packTable = packs\<rparr>))))))))))))))))"

definition om_Lookup :: "om_Map \<Rightarrow> OID \<Rightarrow> (string \<times> 64 word) option" where
  "om_Lookup m oid =
     (let pos = sort_Search (om_count m) (\<lambda>i. oid \<le> om_key (om_records m) i) in
      if pos = om_count m then None
      else if om_key (om_records m) pos \<noteq> oid then None
      else
        (let rec = row 32 (om_records m) pos; idx = unat (be_u16 (drop 20 rec)); off = be_u64 (drop 24 rec) in
         if length (om_packTable m) \<le> idx then None else Some (om_packTable m ! idx, off)))"

section \<open>Reading from the store\<close>

definition maxIndexSize :: nat where "maxIndexSize = 2 ^ 30"

definition om_readBounded :: "'w ObjectStore \<Rightarrow> string \<Rightarrow> 'w \<Rightarrow> (objindex_error + bytes) \<times> 'w" where
  "om_readBounded S key w = (case os_Get S key None w of
     (Inl e, w1) \<Rightarrow> (Inl (ObjGet e), w1)
   | (Inr obj, w1) \<Rightarrow> (case read_limited maxIndexSize obj of
        None \<Rightarrow> (Inl ObjRead, w1)
      | Some all \<Rightarrow> (if length all > maxIndexSize then Inl (ObjCorrupt ''index size'') else Inr all, w1)))"

definition om_Open :: "'w ObjectStore \<Rightarrow> string \<Rightarrow> 'w \<Rightarrow> (objindex_error + om_Map) \<times> 'w" where
  "om_Open S key w = (case om_readBounded S key w of (r, w1) \<Rightarrow> (res_bind r openFromBytes, w1))"

definition OpenWithExpectedHash :: "'w ObjectStore \<Rightarrow> string \<Rightarrow> string \<Rightarrow> 'w \<Rightarrow> (objindex_error + om_Map) \<times> 'w" where
  "OpenWithExpectedHash S key expectedHashHex w = (case om_readBounded S key w of (r, w1) \<Rightarrow>
     (res_bind r (\<lambda>all.
        res_bind (require (hex_encode (sha256 all) = expectedHashHex) (ObjCorrupt ''object_map hash mismatch'')) (\<lambda>_.
        openFromBytes all)), w1))"

section \<open>Round trip\<close>

text \<open>Entries a map can be built of.\<close>

definition om_entries :: "om_Entry list \<Rightarrow> bool" where
  "om_entries es \<longleftrightarrow> (\<forall>e \<in> set es. length (en_OID e) = 20 \<and> validPackID (en_PackID e)) \<and> distinct (map en_OID es) \<and>
     card (en_PackID ` set es) \<le> 0xffff \<and> length es \<le> 2 ^ 31 - 1"

lemma length_om_record [simp]: "length (en_OID e) = 20 \<Longrightarrow> length (om_record table e) = 32"
  by (simp add: om_record_def)

lemma adjacent_distinct: "distinct xs \<Longrightarrow> list_all (\<lambda>i. xs ! i \<noteq> xs ! (i - 1)) [1..<length xs]"
  by (auto simp: list_all_upt distinct_conv_nth)

lemma om_build_ok:
  assumes "om_entries es"
  shows "om_build es = Inr (seal (om_body (sort (remdups (map en_PackID es))) (sort_by en_OID es)))"
proof -
  have "distinct (map en_OID (sort_by en_OID es))" using assms by (simp add: om_entries_def distinct_map)
  from adjacent_distinct [OF this]
  have "list_all (\<lambda>i. en_OID (sort_by en_OID es ! i) \<noteq> en_OID (sort_by en_OID es ! (i - 1))) [1..<length es]"
    by (auto simp: list_all_upt)
  moreover have "length (remdups (map en_PackID es)) \<le> 0xffff"
    using assms by (simp add: om_entries_def length_remdups_card_conv)
  moreover have "list_all (\<lambda>e. validPackID (en_PackID e)) es" using assms by (simp add: om_entries_def list_all_iff)
  ultimately show ?thesis by (simp add: om_build_def Let_def)
qed

lemma id_of_nth:
  assumes "pid \<in> set tbl" "length tbl \<le> 0xffff"
  shows "unat (id_of tbl pid) < length tbl" "tbl ! unat (id_of tbl pid) = pid"
proof -
  obtain j where j: "index_byte tbl pid = Some j" using assms(1) index_byte_None [of tbl pid] by auto
  from index_byte_Some [OF this] have "j < length tbl" "tbl ! j = pid" by auto
  moreover have "unat (id_of tbl pid) = j" using \<open>j < length tbl\<close> assms(2) j by (simp add: id_of_def unat_of_nat)
  ultimately show "unat (id_of tbl pid) < length tbl" "tbl ! unat (id_of tbl pid) = pid" by simp_all
qed

text \<open>What the reader makes of a body.\<close>

lemma om_open_body:
  assumes es: "\<forall>e \<in> set es. length (en_OID e) = 20 \<and> en_PackID e \<in> set tbl" "strictly_ascending (map en_OID es)" "length es \<le> 2 ^ 31 - 1"
    and tbl: "list_all validPackID tbl" "distinct tbl" "length tbl \<le> 0xffff"
  shows "openFromBytes (seal (om_body tbl es)) =
    Inr \<lparr>om_count = length es, om_records = concat (map (om_record tbl) es), om_packTable = tbl\<rparr>"
proof -
  let ?n = "length es" and ?R = "concat (map (om_record tbl) es)" and ?P = "concat (map bytes_of_str tbl)"
  let ?all = "seal (om_body tbl es)"
  let ?c = "put_be_u64 (of_nat ?n)" and ?o = "put_be_u64 (of_nat (32 + ?n * 32))" and ?k = "put_be_u16 (of_nat (length tbl))"
  have len: "length ?R = 32 * ?n" "length ?P = 40 * length tbl"
    using length_concat_rows [of "map (om_record tbl) es" 32] length_concat_rows [of "map bytes_of_str tbl" 40] es(1) tbl(1)
    by (auto simp: list_all_iff validPackID_def)
  define Z where "Z = sha256 (om_body tbl es)"
  have Z: "length Z = 32" by (simp add: Z_def)
  have all: "?all = om_magic @ put_be_u32 1 @ ?c @ ?o @ replicate 8 0 @ ?R @ ?k @ ?P @ Z" by (simp add: seal_def om_body_def Z_def)
  have size: "length ?all = 32 + ?n * 32 + 2 + length tbl * 40 + 32" unfolding all by (simp add: len Z)
  have h: "take 4 ?all = om_magic" "be_u32 (drop 4 ?all) = 1" "be_u64 (drop 8 ?all) = of_nat ?n" "be_u64 (drop 16 ?all) = of_nat (32 + ?n * 32)"
    "be_u16 (drop (32 + ?n * 32) ?all) = of_nat (length tbl)" "bslice 32 (32 + ?n * 32) ?all = ?R"
  proof -
    let ?H = "om_magic @ put_be_u32 1 @ ?c @ ?o @ replicate 8 0"
    have a1: "?all = ?H @ ?R @ (?k @ ?P @ Z)" and a2: "?all = (?H @ ?R) @ (?k @ ?P @ Z)" unfolding all by simp_all
    show "take 4 ?all = om_magic" "be_u32 (drop 4 ?all) = 1" unfolding all by simp_all
    show "be_u64 (drop 8 ?all) = of_nat ?n" unfolding all by simp
    show "be_u64 (drop 16 ?all) = of_nat (32 + ?n * 32)" unfolding all by (simp del: of_nat_add of_nat_mult)
    show "be_u16 (drop (32 + ?n * 32) ?all) = of_nat (length tbl)" unfolding a2 by (subst drop_append_exact) (simp_all add: len)
    show "bslice 32 (32 + ?n * 32) ?all = ?R" unfolding a1 by (rule bslice_append) (simp_all add: len)
  qed
  have packs: "map (\<lambda>i. str_of_bytes (bslice (32 + ?n * 32 + 2 + i * 40) (32 + ?n * 32 + 2 + i * 40 + 40) ?all)) [0..<length tbl] = tbl"
  proof (rule nth_equalityI)
    fix i assume "i < length (map (\<lambda>i. str_of_bytes (bslice (32 + ?n * 32 + 2 + i * 40) (32 + ?n * 32 + 2 + i * 40 + 40) ?all)) [0..<length tbl])"
    then have i: "i < length tbl" by simp
    let ?H = "om_magic @ put_be_u32 1 @ ?c @ ?o @ replicate 8 0 @ ?R @ ?k"
    have "?all = ?H @ (?P @ Z)" unfolding all by simp
    then have "bslice (32 + ?n * 32 + 2 + i * 40) (32 + ?n * 32 + 2 + i * 40 + 40) ?all = row 40 (?P @ Z) i"
      by (simp add: bslice_def row_def len add.assoc)
    also have "\<dots> = bytes_of_str (tbl ! i)"
      using row_concat [of "map bytes_of_str tbl" 40 i Z] i tbl(1) by (simp add: list_all_iff validPackID_def)
    finally show "map (\<lambda>i. str_of_bytes (bslice (32 + ?n * 32 + 2 + i * 40) (32 + ?n * 32 + 2 + i * 40 + 40) ?all)) [0..<length tbl] ! i = tbl ! i"
      using i by simp
  qed simp
  have rows: "row 32 ?R i = om_record tbl (es ! i)" if "i < ?n" for i
    using row_concat [of "map (om_record tbl) es" 32 i "[]"] that es(1) by simp
  have key: "om_key ?R i = en_OID (es ! i)" if "i < ?n" for i
    using that es(1) by (simp add: om_key_def rows) (simp add: om_record_def)
  have idx: "om_pack_idx ?R i < length tbl" if "i < ?n" for i
    using that es(1) id_of_nth(1) [OF _ tbl(3)] by (simp add: om_pack_idx_def rows) (simp add: om_record_def)
  have n: "unat (of_nat ?n :: 64 word) = ?n" "unat (of_nat (32 + ?n * 32) :: 64 word) = 32 + ?n * 32"
    "unat (of_nat (length tbl) :: 16 word) = length tbl"
    using es(3) tbl(3) by (simp_all add: unat_of_nat del: of_nat_add of_nat_mult)
  have sorted: "list_all (\<lambda>i. om_key ?R (i - 1) < om_key ?R i) [1..<?n]"
    using es(2) by (auto simp: list_all_upt key strictly_ascending_iff sorted_wrt_iff_nth_less)
  have ids: "list_all (\<lambda>i. om_pack_idx ?R i < length tbl) [0..<?n]" using idx by (simp add: list_all_upt)
  show ?thesis
    unfolding openFromBytes_def Let_def h n size packs
    using sorted ids tbl(1) es(3) by simp
qed

lemma om_lookup_body:
  assumes es: "\<forall>e \<in> set es. length (en_OID e) = 20 \<and> en_PackID e \<in> set tbl" "strictly_ascending (map en_OID es)"
    and tbl: "length tbl \<le> 0xffff" and m: "m = \<lparr>om_count = length es, om_records = concat (map (om_record tbl) es), om_packTable = tbl\<rparr>"
  shows "e \<in> set es \<Longrightarrow> om_Lookup m (en_OID e) = Some (en_PackID e, en_Offset e)"
    "oid \<notin> en_OID ` set es \<Longrightarrow> om_Lookup m oid = None"
proof -
  let ?R = "concat (map (om_record tbl) es)" and ?n = "length es"
  have rows: "row 32 ?R i = om_record tbl (es ! i)" if "i < ?n" for i
    using row_concat [of "map (om_record tbl) es" 32 i "[]"] that es(1) by simp
  have key: "om_key ?R i = en_OID (es ! i)" if "i < ?n" for i
    using that es(1) by (simp add: om_key_def rows) (simp add: om_record_def)
  show "om_Lookup m (en_OID e) = Some (en_PackID e, en_Offset e)" if e: "e \<in> set es"
  proof -
    obtain i where i: "i < ?n" "es ! i = e" using e by (auto simp: in_set_conv_nth)
    have "sort_Search (length (map en_OID es)) (\<lambda>i. en_OID e \<le> om_key ?R i) = i"
      by (rule sort_Search_key [OF es(2)]) (use i key in auto)
    then have pos: "sort_Search ?n (\<lambda>i. en_OID e \<le> om_key ?R i) = i" by simp
    have "length (en_OID e) = 20" "en_PackID e \<in> set tbl" using es(1) e by auto
    with id_of_nth [OF this(2) tbl] i show ?thesis
      by (simp add: om_Lookup_def m pos key rows Let_def) (simp add: om_record_def not_le)
  qed
  show "om_Lookup m oid = None" if "oid \<notin> en_OID ` set es"
  proof -
    let ?p = "sort_Search ?n (\<lambda>i. oid \<le> om_key ?R i)"
    have "om_key ?R ?p \<noteq> oid" if "?p \<noteq> ?n"
    proof -
      have "?p < ?n" using sort_Search_le [of ?n "\<lambda>i. oid \<le> om_key ?R i"] that by linarith
      with key [OF this] nth_mem [OF this] \<open>oid \<notin> en_OID ` set es\<close> show ?thesis by (metis image_eqI)
    qed
    then show ?thesis by (simp add: om_Lookup_def m Let_def)
  qed
qed

text \<open>C10: a map that is built is read back: the builder accepts every list of entries with distinct ids, at most
  65535 packs and at most 2147483647 entries, the reader accepts what it writes, and then each id is found
  with its pack and offset and no other id is found.\<close>

theorem objindex_roundtrip:
  assumes "om_entries es"
  shows "\<exists>b m. om_build es = Inr b \<and> openFromBytes b = Inr m \<and> om_count m = length es \<and>
    (\<forall>e \<in> set es. om_Lookup m (en_OID e) = Some (en_PackID e, en_Offset e)) \<and>
    (\<forall>oid. oid \<notin> en_OID ` set es \<longrightarrow> om_Lookup m oid = None)"
proof -
  let ?es = "sort_by en_OID es" and ?tbl = "sort (remdups (map en_PackID es))"
  have e: "\<forall>e \<in> set ?es. length (en_OID e) = 20 \<and> en_PackID e \<in> set ?tbl" using assms by (auto simp: om_entries_def)
  have "distinct (map en_OID ?es)" using assms by (simp add: om_entries_def distinct_map)
  then have asc: "strictly_ascending (map en_OID ?es)" by (intro sorted_distinct_strictly_ascending) auto
  have n: "length ?es \<le> 2 ^ 31 - 1" using assms by (simp add: om_entries_def)
  have t: "list_all validPackID ?tbl" "distinct ?tbl" "length ?tbl \<le> 0xffff"
    using assms by (auto simp: om_entries_def list_all_iff length_remdups_card_conv)
  show ?thesis
    using om_build_ok [OF assms] om_open_body [OF e asc n t] om_lookup_body [OF e asc t(3) refl] by auto
qed

definition sample_entries :: "om_Entry list" where
  "sample_entries = [\<lparr>en_OID = 9 # replicate 19 0, en_PackID = replicate 40 (CHR ''b''), en_Offset = 77\<rparr>,
                     \<lparr>en_OID = 2 # replicate 19 0, en_PackID = replicate 40 (CHR ''a''), en_Offset = 12\<rparr>]"

theorem objindex_roundtrip_witness:
  "\<exists>b m. om_build sample_entries = Inr b \<and> openFromBytes b = Inr m \<and>
     om_Lookup m (9 # replicate 19 0) = Some (replicate 40 (CHR ''b''), 77) \<and> om_Lookup m (4 # replicate 19 0) = None"
proof -
  have "om_entries sample_entries"
    by (simp add: om_entries_def sample_entries_def validPackID_def is_lower_hex_def list_all_iff card_insert_if)
  from objindex_roundtrip [OF this] show ?thesis by (auto simp: sample_entries_def)
qed

end
