(* ===== verification/Commit_Graph.thy ===== *)
theory Commit_Graph
  imports Obj_Index Go_Map "HOL-Library.Product_Lexorder"
begin

text \<open>
  The commit graph of a repository (\<open>internal/commitgraph\<close>): the \<open>.bvcg\<close> file with every commit, its
  generation number and its parents, and the tips of the refs. Its builder, the computation of the
  generation numbers, and both readers of the package.
\<close>

section \<open>Records\<close>

record cg_Tip =
  tp_Ref :: string
  tp_OID :: OID

record cg_Record =
  re_OID :: OID
  re_Generation :: "32 word"
  re_Parents :: "OID list"

datatype cg_error =
    CgCorrupt string | CgInvalid string | CgGet storage_error | CgRead

section \<open>Parents of a commit\<close>

function parse_parents :: "bytes \<Rightarrow> OID list \<Rightarrow> cg_error + OID list" where
  "parse_parents body parents =
     (case index_byte body 10 of
        None \<Rightarrow> Inr parents
      | Some nl \<Rightarrow>
          (let line = take nl body; rest = drop (nl + 1) body in
           if has_prefix line (bytes_of_str ''tree '') then parse_parents rest parents
           else if has_prefix line (bytes_of_str ''parent '') then
             (case ParseOID (str_of_bytes (drop 7 line)) of
                Inl _ \<Rightarrow> Inl (CgInvalid ''parse parent'')
              | Inr oid \<Rightarrow> parse_parents rest (parents @ [oid]))
           else Inr parents))"
  by pat_completeness auto
termination
  by (relation "measure (\<lambda>(body, parents). length body)") (auto dest: index_byte_Some)

declare parse_parents.simps [simp del]

definition parseParents :: "bytes \<Rightarrow> cg_error + OID list" where
  "parseParents body = parse_parents body []"

section \<open>Generation numbers\<close>

text \<open>The record an id stands for: the index of the slice keeps the last one.\<close>

definition cg_record :: "cg_Record list \<Rightarrow> OID \<Rightarrow> cg_Record option" where
  "cg_record commits oid = List.find (\<lambda>c. re_OID c = oid) (rev commits)"

type_synonym gens = "(OID, 32 word) gomap"

text \<open>\<open>compute\<close> and its loop over the parents. A nested call has one id more in \<open>visiting\<close>, so as many
  nested calls as there are records, and one more, are enough fuel.\<close>

fun compute :: "nat \<Rightarrow> cg_Record list \<Rightarrow> OID list \<Rightarrow> OID \<Rightarrow> gens \<Rightarrow> (32 word \<times> gens) option"
  and max_parent :: "nat \<Rightarrow> cg_Record list \<Rightarrow> OID list \<Rightarrow> OID list \<Rightarrow> 32 word \<Rightarrow> gens \<Rightarrow> (32 word \<times> gens) option" where
  "compute 0 commits visiting oid gens = None"
| "compute (Suc n) commits visiting oid gens =
     (case mget gens oid of
        Some g \<Rightarrow> Some (g, gens)
      | None \<Rightarrow>
          if oid \<in> set visiting then Some (0, gens)
          else (case cg_record commits oid of
                  None \<Rightarrow> Some (0, mput oid 0 gens)
                | Some c \<Rightarrow>
                    (case max_parent n commits (oid # visiting) (re_Parents c) 0 gens of
                       None \<Rightarrow> None
                     | Some (maxParent, gens') \<Rightarrow> Some (maxParent + 1, mput oid (maxParent + 1) gens'))))"
| "max_parent n commits visiting [] maxParent gens = Some (maxParent, gens)"
| "max_parent n commits visiting (p # ps) maxParent gens =
     (case compute n commits visiting p gens of
        None \<Rightarrow> None
      | Some (g, gens') \<Rightarrow> max_parent n commits visiting ps (if g > maxParent then g else maxParent) gens')"

fun compute_all :: "cg_Record list \<Rightarrow> OID list \<Rightarrow> gens \<Rightarrow> gens option" where
  "compute_all commits [] gens = Some gens"
| "compute_all commits (oid # oids) gens =
     (case compute (length commits + 1) commits [] oid gens of
        None \<Rightarrow> None
      | Some (_, gens') \<Rightarrow> compute_all commits oids gens')"

definition computeGenerations :: "cg_Record list \<Rightarrow> gens option" where
  "computeGenerations commits = compute_all commits (map re_OID commits) []"

section \<open>Building\<close>

definition cg_magic :: bytes where "cg_magic = bytes_of_str ''BVCG''"

lemma length_cg_magic [simp]: "length cg_magic = 4"
  by (simp add: cg_magic_def)

text \<open>The table of ref names, each once, ended by a zero byte, and where each begins.\<close>

fun string_table :: "string list \<Rightarrow> (string \<times> 32 word) list \<Rightarrow> bytes \<Rightarrow> (string \<times> 32 word) list \<times> bytes" where
  "string_table [] offs tbl = (offs, tbl)"
| "string_table (r # rs) offs tbl =
     (if map_of offs r \<noteq> None then string_table rs offs tbl
      else string_table rs (offs @ [(r, of_nat (length tbl))]) (tbl @ bytes_of_str r @ [0]))"

definition cg_tip :: "(string \<times> 32 word) list \<Rightarrow> cg_Tip \<Rightarrow> bytes" where
  "cg_tip offs t = put_be_u32 (the (map_of offs (tp_Ref t))) @ tp_OID t"

definition cg_encode :: "cg_Record \<Rightarrow> bytes" where
  "cg_encode c = re_OID c @ put_le_u32 (re_Generation c) @ [of_nat (length (re_Parents c))] @ concat (re_Parents c)"

definition sort_tips :: "cg_Tip list \<Rightarrow> cg_Tip list" where
  "sort_tips tips = sort_by (\<lambda>t. (tp_Ref t, tp_OID t)) tips"

definition cg_body :: "cg_Record list \<Rightarrow> cg_Tip list \<Rightarrow> bytes" where
  "cg_body commits sortedTips =
     (let (offs, tbl) = string_table (map tp_Ref sortedTips) [] [] in
      cg_magic @ put_be_u32 2 @ put_be_u64 (of_nat (length commits)) @ put_be_u32 (of_nat (length sortedTips)) @ replicate 12 0 @
      concat (map (cg_tip offs) sortedTips) @ concat (map cg_encode commits) @ tbl)"

definition cg_build :: "cg_Record list \<Rightarrow> cg_Tip list \<Rightarrow> cg_error + bytes" where
  "cg_build commits tips =
     (let commits = sort_by re_OID commits; commitSet = map re_OID commits in
      res_bind (require (list_all (\<lambda>i. re_OID (commits ! i) \<noteq> re_OID (commits ! (i - 1))) [1..<length commits]) (CgInvalid ''duplicate commit'')) (\<lambda>_.
      res_bind (require (list_all (\<lambda>c. length (re_Parents c) \<le> 255) commits) (CgInvalid ''too many parents'')) (\<lambda>_.
      res_bind (require (list_all (\<lambda>t. tp_OID t \<in> set commitSet) tips) (CgInvalid ''tip not in commit set'')) (\<lambda>_.
      res_bind (require (list_all (\<lambda>c. list_all (\<lambda>p. p \<in> set commitSet) (re_Parents c)) commits) (CgInvalid ''dangling parent'')) (\<lambda>_.
      Inr (seal (cg_body commits (sort_tips tips))))))))"

section \<open>Reading into a map\<close>

text \<open>The fixed part of a record: the id, in version 2 the generation number, and the number of parents.\<close>

definition rec_head :: "32 word \<Rightarrow> nat" where
  "rec_head ver = (if ver = 2 then 25 else 21)"

fun parse_records :: "bytes \<Rightarrow> 32 word \<Rightarrow> nat \<Rightarrow> nat \<Rightarrow> (OID, cg_Record) gomap \<Rightarrow> cg_error + (OID, cg_Record) gomap" where
  "parse_records buf ver 0 pos records = Inr records"
| "parse_records buf ver (Suc n) pos records =
     (let hl = rec_head ver in
      res_bind (require (pos + hl \<le> length buf) (CgCorrupt ''commit record truncated'')) (\<lambda>_.
      (let oid = bslice pos (pos + 20) buf;
           gen = (if ver = 2 then le_u32 (drop (pos + 20) buf) else 0);
           nParents = unat (buf ! (pos + hl - 1));
           recLen = hl + nParents * 20 in
      res_bind (require (pos + recLen \<le> length buf) (CgCorrupt ''commit record parents truncated'')) (\<lambda>_.
      (let parents = map (\<lambda>j. bslice (pos + hl + j * 20) (pos + hl + (j + 1) * 20) buf) [0..<nParents] in
      res_bind (require (mget records oid = None) (CgCorrupt ''duplicate commit'')) (\<lambda>_.
      parse_records buf ver n (pos + recLen)
        (mput oid \<lparr>re_OID = oid, re_Generation = gen, re_Parents = parents\<rparr> records)))))))"

type_synonym cg_Reader = "(OID, cg_Record) gomap"

definition cg_Open :: "bytes \<Rightarrow> cg_error + cg_Reader" where
  "cg_Open bts =
     res_bind (require (32 + 32 \<le> length bts) (CgCorrupt ''too small'')) (\<lambda>_.
     res_bind (require (sealed bts) (CgCorrupt ''trailer hash mismatch'')) (\<lambda>_.
     res_bind (require (take 4 bts = cg_magic) (CgCorrupt ''magic'')) (\<lambda>_.
     (let ver = be_u32 (drop 4 bts); nCommits = unat (be_u64 (drop 8 bts)); nTips = unat (be_u32 (drop 16 bts)) in
     res_bind (require (ver = 1 \<or> ver = 2) (CgCorrupt ''unsupported version'')) (\<lambda>_.
     res_bind (require (nCommits \<le> 2 ^ 31 - 1) (CgCorrupt ''n_commits exceeds MaxInt32'')) (\<lambda>_.
     (let tipsEnd = 32 + nTips * 24 in
     res_bind (require (tipsEnd \<le> length bts - 32) (CgCorrupt ''tips overflow'')) (\<lambda>_.
     res_bind (parse_records (bslice tipsEnd (length bts - 32) bts) ver nCommits 0 []) (\<lambda>records.
     res_bind (require (list_all (\<lambda>(_, rec). list_all (\<lambda>p. mget records p \<noteq> None) (re_Parents rec)) records) (CgCorrupt ''dangling parent'')) (\<lambda>_.
     Inr records))))))))))"

definition GenerationOf :: "cg_Reader \<Rightarrow> OID \<Rightarrow> 32 word option" where
  "GenerationOf r oid = map_option re_Generation (mget r oid)"

definition RecordOf :: "cg_Reader \<Rightarrow> OID \<Rightarrow> cg_Record option" where
  "RecordOf r oid = mget r oid"

section \<open>Reading in place\<close>

record cg_Graph =
  gr_commits :: bytes
  gr_commitOffsets :: "nat list"
  gr_tips :: "cg_Tip list"
  gr_version :: "32 word"

fun scan_commits :: "bytes \<Rightarrow> 32 word \<Rightarrow> nat \<Rightarrow> nat \<Rightarrow> nat list \<Rightarrow> cg_error + nat list \<times> nat" where
  "scan_commits buf ver 0 pos offsets = Inr (offsets, pos)"
| "scan_commits buf ver (Suc n) pos offsets =
     (let hl = rec_head ver in
      res_bind (require (pos + hl \<le> length buf) (CgCorrupt ''commit record truncated'')) (\<lambda>_.
      (let nParents = unat (buf ! (pos + hl - 1)); recLen = hl + nParents * 20 in
      res_bind (require (pos + recLen \<le> length buf) (CgCorrupt ''commit record parents truncated'')) (\<lambda>_.
      res_bind (require (offsets = [] \<or> bslice (last offsets) (last offsets + 20) buf < bslice pos (pos + 20) buf)
                 (CgCorrupt ''commits not sorted'')) (\<lambda>_.
      scan_commits buf ver n (pos + recLen) (offsets @ [pos]))))))"

definition readCString :: "bytes \<Rightarrow> nat \<Rightarrow> string option" where
  "readCString buf off =
     (if length buf \<le> off then None
      else map_option (\<lambda>end. str_of_bytes (bslice off (off + end) buf)) (index_byte (drop off buf) 0))"

fun read_tips :: "bytes \<Rightarrow> bytes \<Rightarrow> nat list \<Rightarrow> cg_error + cg_Tip list" where
  "read_tips tipsBuf stringTable [] = Inr []"
| "read_tips tipsBuf stringTable (i # is) =
     (case readCString stringTable (unat (be_u32 (drop (i * 24) tipsBuf))) of
        None \<Rightarrow> Inl (CgCorrupt ''tip ref'')
      | Some ref \<Rightarrow> res_bind (read_tips tipsBuf stringTable is) (\<lambda>ts.
          Inr (\<lparr>tp_Ref = ref, tp_OID = bslice (i * 24 + 4) (i * 24 + 24) tipsBuf\<rparr> # ts)))"

definition graph_parents :: "bytes \<Rightarrow> 32 word \<Rightarrow> nat \<Rightarrow> OID list" where
  "graph_parents commits ver off =
     (let hl = (if ver = 1 then 21 else 25); n = unat (commits ! (off + hl - 1)) in
      map (\<lambda>i. bslice (off + hl + i * 20) (off + hl + (i + 1) * 20) commits) [0..<n])"

definition graph_open :: "bytes \<Rightarrow> cg_error + cg_Graph" where
  "graph_open all =
     res_bind (require (32 + 32 \<le> length all) (CgCorrupt ''too small'')) (\<lambda>_.
     res_bind (require (sealed all) (CgCorrupt ''trailer hash mismatch'')) (\<lambda>_.
     res_bind (require (take 4 all = cg_magic) (CgCorrupt ''magic'')) (\<lambda>_.
     (let ver = be_u32 (drop 4 all); nCommits = unat (be_u64 (drop 8 all)); nTips = unat (be_u32 (drop 16 all)) in
     res_bind (require (ver = 1 \<or> ver = 2) (CgCorrupt ''version'')) (\<lambda>_.
     res_bind (require (nCommits \<le> 2 ^ 31 - 1) (CgCorrupt ''n_commits exceeds MaxInt32'')) (\<lambda>_.
     (let commitsSection = int (length all) - 32 - int nTips * 24 - 32 in
     res_bind (require (0 \<le> commitsSection) (CgCorrupt ''tips overflow header+trailer space'')) (\<lambda>_.
     res_bind (require (nCommits \<le> nat commitsSection div (if ver = 1 then 21 else 25)) (CgCorrupt ''n_commits exceeds file capacity'')) (\<lambda>_.
     res_bind (require (int nTips * 24 \<le> int (length all) - 32 - 32) (CgCorrupt ''n_tips exceeds file capacity'')) (\<lambda>_.
     (let tipsEnd = 32 + nTips * 24 in
     res_bind (require (int tipsEnd \<le> int (length all) - 32) (CgCorrupt ''tips overflow'')) (\<lambda>_.
     (let tipsBuf = bslice 32 tipsEnd all; body = bslice tipsEnd (length all - 32) all in
     res_bind (scan_commits body ver nCommits 0 []) (\<lambda>(commitOffsets, commitsBytes).
     res_bind (read_tips tipsBuf (drop commitsBytes body) [0..<nTips]) (\<lambda>tips.
     (let commitSet = map (\<lambda>ofs. bslice ofs (ofs + 20) body) commitOffsets in
     res_bind (require (list_all (\<lambda>t. tp_OID t \<in> set commitSet) tips) (CgCorrupt ''tip not in commit set'')) (\<lambda>_.
     res_bind (require (list_all (\<lambda>ofs. list_all (\<lambda>p. p \<in> set commitSet) (graph_parents body ver ofs)) commitOffsets) (CgCorrupt ''dangling parent'')) (\<lambda>_.
     Inr \<lparr>gr_commits = take commitsBytes body, gr_commitOffsets = commitOffsets, gr_tips = tips, gr_version = ver\<rparr>))))))))))))))))))"

definition graph_Parents :: "cg_Graph \<Rightarrow> OID \<Rightarrow> OID list option" where
  "graph_Parents g oid =
     (let offs = gr_commitOffsets g; key = (\<lambda>i. bslice (offs ! i) (offs ! i + 20) (gr_commits g));
          pos = sort_Search (length offs) (\<lambda>i. oid \<le> key i) in
      if pos = length offs then None
      else if key pos \<noteq> oid then None
      else Some (graph_parents (gr_commits g) (gr_version g) (offs ! pos)))"

definition cg_readBounded :: "'w ObjectStore \<Rightarrow> string \<Rightarrow> 'w \<Rightarrow> (cg_error + bytes) \<times> 'w" where
  "cg_readBounded S key w = (case os_Get S key None w of
     (Inl e, w1) \<Rightarrow> (Inl (CgGet e), w1)
   | (Inr obj, w1) \<Rightarrow> (case read_limited maxIndexSize obj of
        None \<Rightarrow> (Inl CgRead, w1)
      | Some all \<Rightarrow> (if length all > maxIndexSize then Inl (CgCorrupt ''index size'') else Inr all, w1)))"

definition OpenFromStore :: "'w ObjectStore \<Rightarrow> string \<Rightarrow> 'w \<Rightarrow> (cg_error + cg_Graph) \<times> 'w" where
  "OpenFromStore S key w = (case cg_readBounded S key w of (r, w1) \<Rightarrow> (res_bind r graph_open, w1))"

section \<open>Records in a file\<close>

lemma bslice_drop: "bslice (p + i) (p + j) b = bslice i j (drop p b)"
  by (simp add: bslice_def add.commute)

definition wf_record :: "cg_Record \<Rightarrow> bool" where
  "wf_record c \<longleftrightarrow> length (re_OID c) = 20 \<and> length (re_Parents c) \<le> 255 \<and> (\<forall>p \<in> set (re_Parents c). length p = 20)"

lemma length_cg_encode: "wf_record c \<Longrightarrow> length (cg_encode c) = 25 + length (re_Parents c) * 20"
  using length_concat_rows [of "re_Parents c" 20] by (simp add: wf_record_def cg_encode_def)

lemma record_at:
  assumes c: "wf_record c" and buf: "buf = a @ cg_encode c @ b" and pos: "pos = length a"
  shows "bslice pos (pos + 20) buf = re_OID c" "le_u32 (drop (pos + 20) buf) = re_Generation c"
    "unat (buf ! (pos + 24)) = length (re_Parents c)"
    "map (\<lambda>j. bslice (pos + 25 + j * 20) (pos + 25 + (j + 1) * 20) buf) [0..<length (re_Parents c)] = re_Parents c"
    "pos + 25 + length (re_Parents c) * 20 \<le> length buf"
proof -
  let ?n = "of_nat (length (re_Parents c)) :: byte" and ?P = "concat (re_Parents c)"
  have o: "length (re_OID c) = 20" and n: "unat ?n = length (re_Parents c)" using c by (simp_all add: wf_record_def unat_of_nat)
  have e: "buf = a @ re_OID c @ put_le_u32 (re_Generation c) @ [?n] @ ?P @ b" by (simp add: buf cg_encode_def)
  show "bslice pos (pos + 20) buf = re_OID c" unfolding e by (rule bslice_append) (simp_all add: o pos)
  show "le_u32 (drop (pos + 20) buf) = re_Generation c" unfolding e pos by (simp add: o)
  have "buf = (a @ re_OID c @ put_le_u32 (re_Generation c)) @ ?n # ?P @ b" by (simp add: e)
  then have "buf ! (pos + 24) = ?n" by (simp only:) (rule nth_append_exact, simp add: o pos)
  with n show "unat (buf ! (pos + 24)) = length (re_Parents c)" by simp
  show "pos + 25 + length (re_Parents c) * 20 \<le> length buf" by (simp add: buf pos length_cg_encode [OF c])
  show "map (\<lambda>j. bslice (pos + 25 + j * 20) (pos + 25 + (j + 1) * 20) buf) [0..<length (re_Parents c)] = re_Parents c"
  proof (rule nth_equalityI)
    fix j assume "j < length (map (\<lambda>j. bslice (pos + 25 + j * 20) (pos + 25 + (j + 1) * 20) buf) [0..<length (re_Parents c)])"
    then have j: "j < length (re_Parents c)" by simp
    have "buf = (a @ re_OID c @ put_le_u32 (re_Generation c) @ [?n]) @ (?P @ b)" by (simp add: e)
    then have "drop (pos + 25) buf = ?P @ b" by (simp only:) (rule drop_append_exact, simp add: o pos)
    then have "bslice (pos + 25 + j * 20) (pos + 25 + (j + 1) * 20) buf = row 20 (?P @ b) j"
      unfolding bslice_drop row_def by (simp add: add.commute)
    also have "\<dots> = re_Parents c ! j" by (rule row_concat) (use c j in \<open>auto simp: wf_record_def\<close>)
    finally show "map (\<lambda>j. bslice (pos + 25 + j * 20) (pos + 25 + (j + 1) * 20) buf) [0..<length (re_Parents c)] ! j = re_Parents c ! j"
      using j by simp
  qed simp
qed

lemma parse_records_encoded:
  assumes "\<forall>c \<in> set cs. wf_record c" "distinct (map re_OID cs)" "mok records" "\<forall>c \<in> set cs. mget records (re_OID c) = None"
    and "buf = a @ concat (map cg_encode cs) @ b" "pos = length a"
  shows "parse_records buf 2 (length cs) pos records = Inr (fold (\<lambda>c. mput (re_OID c) c) cs records)"
  using assms
proof (induction cs arbitrary: a pos records)
  case (Cons c cs)
  have buf: "buf = a @ cg_encode c @ (concat (map cg_encode cs) @ b)" and c: "wf_record c" using Cons.prems by simp_all
  note at = record_at [OF c buf Cons.prems(6)]
  have np: "unat (buf ! (24 + pos)) = length (re_Parents c)" using at(3) by (simp add: add.commute)
  have "parse_records buf 2 (length cs) (pos + (25 + length (re_Parents c) * 20)) (mput (re_OID c) c records)
      = Inr (fold (\<lambda>c. mput (re_OID c) c) cs (mput (re_OID c) c records))"
    by (rule Cons.IH [of _ "a @ cg_encode c"]) (use Cons.prems length_cg_encode [OF c] in \<open>auto simp: image_iff\<close>)
  moreover have eta: "\<lparr>re_OID = re_OID c, re_Generation = re_Generation c, re_Parents = re_Parents c\<rparr> = c" by simp
  ultimately show ?case using at np Cons.prems(4) by (simp add: rec_head_def Let_def eta)
qed simp

lemma mget_fold_records:
  "mok records \<Longrightarrow> mok (fold (\<lambda>c. mput (re_OID c) c) cs records) \<and>
     mget (fold (\<lambda>c. mput (re_OID c) c) cs records) = mget records ++ map_of (rev (map (\<lambda>c. (re_OID c, c)) cs))"
  by (induction cs arbitrary: records) auto

lemma map_of_records: "distinct (map re_OID cs) \<Longrightarrow> c \<in> set cs \<Longrightarrow> map_of (rev (map (\<lambda>c. (re_OID c, c)) cs)) (re_OID c) = Some c"
  by (rule map_of_is_SomeI) (auto simp: comp_def rev_map [symmetric] distinct_rev)

text \<open>Where the records begin.\<close>

fun offsets_from :: "nat \<Rightarrow> cg_Record list \<Rightarrow> nat list" where
  "offsets_from pos [] = []"
| "offsets_from pos (c # cs) = pos # offsets_from (pos + length (cg_encode c)) cs"

lemma length_offsets_from [simp]: "length (offsets_from pos cs) = length cs"
  by (induction cs arbitrary: pos) auto

lemma split_at:
  assumes "i < length cs" "buf = a @ concat (map cg_encode cs) @ b"
  shows "\<exists>a' b'. buf = a' @ cg_encode (cs ! i) @ b' \<and> offsets_from (length a) cs ! i = length a'"
  using assms
proof (induction cs arbitrary: i a)
  case (Cons c cs)
  show ?case
  proof (cases i)
    case 0
    show ?thesis by (rule exI [of _ a], rule exI [of _ "concat (map cg_encode cs) @ b"]) (simp add: 0 Cons.prems(2))
  next
    case (Suc k)
    with Cons.prems Cons.IH [of k "a @ cg_encode c"] show ?thesis by auto
  qed
qed simp

lemma scan_commits_encoded:
  assumes "\<forall>c \<in> set cs. wf_record c" "strictly_ascending (map re_OID cs)" "buf = a @ concat (map cg_encode cs) @ b" "pos = length a"
    and "cs \<noteq> [] \<Longrightarrow> offs = [] \<or> bslice (last offs) (last offs + 20) buf < re_OID (hd cs)"
  shows "scan_commits buf 2 (length cs) pos offs = Inr (offs @ offsets_from pos cs, pos + length (concat (map cg_encode cs)))"
  using assms
proof (induction cs arbitrary: a pos offs)
  case (Cons c cs)
  have buf: "buf = a @ cg_encode c @ (concat (map cg_encode cs) @ b)" and c: "wf_record c" using Cons.prems by simp_all
  note at = record_at [OF c buf Cons.prems(4)] and len = length_cg_encode [OF c]
  have np: "unat (buf ! (24 + pos)) = length (re_Parents c)" using at(3) by (simp add: add.commute)
  have "scan_commits buf 2 (length cs) (pos + (25 + length (re_Parents c) * 20)) (offs @ [pos])
      = Inr ((offs @ [pos]) @ offsets_from (pos + (25 + length (re_Parents c) * 20)) cs,
             pos + (25 + length (re_Parents c) * 20) + length (concat (map cg_encode cs)))"
  proof (rule Cons.IH [of "a @ cg_encode c"])
    show "strictly_ascending (map re_OID cs)" using Cons.prems(2) by (simp add: strictly_ascending_iff)
    show "offs @ [pos] = [] \<or> bslice (last (offs @ [pos])) (last (offs @ [pos]) + 20) buf < re_OID (hd cs)" if "cs \<noteq> []"
      using that Cons.prems(2) at(1) by (cases cs) (auto simp: strictly_ascending_iff)
  qed (use Cons.prems len in auto)
  then show ?case using at np Cons.prems(5) by (simp add: rec_head_def Let_def len add.assoc)
qed simp

section \<open>Tips in a file\<close>

lemma string_table_keeps:
  "string_table rs offs tbl = (offs', tbl') \<Longrightarrow> (\<exists>x. tbl' = tbl @ x) \<and> (\<forall>r k. map_of offs r = Some k \<longrightarrow> map_of offs' r = Some k)"
proof (induction rs arbitrary: offs tbl)
  case (Cons r rs)
  show ?case
  proof (cases "map_of offs r = None")
    case True
    with Cons.prems have run: "string_table rs (offs @ [(r, of_nat (length tbl))]) (tbl @ bytes_of_str r @ [0]) = (offs', tbl')" by simp
    have "map_of (offs @ [(r, of_nat (length tbl))]) s = Some k" if "map_of offs s = Some k" for s k
      using that True by (auto simp: map_add_def split: option.splits)
    with Cons.IH [OF run] show ?thesis by auto
  next
    case False
    with Cons show ?thesis by auto
  qed
qed simp

lemma string_table_holds:
  assumes "string_table rs offs tbl = (offs', tbl')" "length tbl' < 2 ^ 32"
    and "\<forall>r k. map_of offs r = Some k \<longrightarrow> (\<exists>a b. tbl = a @ bytes_of_str r @ 0 # b \<and> unat k = length a)"
  shows "(\<forall>r k. map_of offs' r = Some k \<longrightarrow> (\<exists>a b. tbl' = a @ bytes_of_str r @ 0 # b \<and> unat k = length a)) \<and>
     (\<forall>r \<in> set rs. map_of offs' r \<noteq> None)"
  using assms
proof (induction rs arbitrary: offs tbl)
  case (Cons r rs)
  show ?case
  proof (cases "map_of offs r = None")
    case True
    let ?offs = "offs @ [(r, of_nat (length tbl))]" and ?tbl = "tbl @ bytes_of_str r @ [0]"
    from True Cons.prems have run: "string_table rs ?offs ?tbl = (offs', tbl')" by simp
    have keep: "(\<exists>x. tbl' = ?tbl @ x)" "map_of offs' r \<noteq> None"
      using string_table_keeps [OF run] True by (auto simp: map_add_def split: option.splits)
    then have l: "length tbl < 2 ^ 32" using Cons.prems(2) by auto
    have "\<forall>s k. map_of ?offs s = Some k \<longrightarrow> (\<exists>a b. ?tbl = a @ bytes_of_str s @ 0 # b \<and> unat k = length a)"
    proof (intro allI impI)
      fix s k assume so: "map_of ?offs s = Some k"
      show "\<exists>a b. ?tbl = a @ bytes_of_str s @ 0 # b \<and> unat k = length a"
      proof (cases "map_of offs s = Some k")
        case True
        with Cons.prems(3) obtain a b where ab: "tbl = a @ bytes_of_str s @ 0 # b" "unat k = length a" by blast
        show ?thesis by (rule exI [of _ a], rule exI [of _ "b @ bytes_of_str r @ [0]"]) (simp add: ab)
      next
        case False
        with so have sr: "s = r" "k = of_nat (length tbl)" by (auto simp: map_add_def split: option.splits if_splits)
        show ?thesis by (rule exI [of _ tbl], rule exI [of _ "[]"]) (use l in \<open>simp add: sr unat_of_nat\<close>)
      qed
    qed
    from Cons.IH [OF run Cons.prems(2) this] keep(2) show ?thesis by auto
  next
    case False
    with Cons.prems have run: "string_table rs offs tbl = (offs', tbl')" by simp
    with Cons.IH [OF run Cons.prems(2,3)] string_table_keeps [OF run] False show ?thesis by auto
  qed
qed simp

lemma readCString_at:
  assumes "tbl = a @ bytes_of_str r @ 0 # b" "CHR 0x00 \<notin> set r"
  shows "readCString tbl (length a) = Some r"
proof -
  have "c = CHR 0x00" if "(of_nat (of_char c) :: byte) = 0" for c :: char
  proof -
    have "unat (of_nat (of_char c) :: byte) = 0" using that by simp
    then have "(of_char c :: nat) = of_char (CHR 0x00)" by (simp only: unat_of_nat_of_char) simp
    then show ?thesis by (simp only: of_char_eq_iff)
  qed
  with assms(2) have "0 \<notin> set (bytes_of_str r)" by (auto simp: bytes_of_str_def)
  then show ?thesis using assms(1)
    by (simp add: readCString_def index_byte_append bslice_def) (simp add: str_of_bytes_def)
qed

lemma read_tips_map:
  assumes "\<And>i. i \<in> set is \<Longrightarrow> readCString st (unat (be_u32 (drop (i * 24) buf))) = Some (tp_Ref (t i)) \<and>
      bslice (i * 24 + 4) (i * 24 + 24) buf = tp_OID (t i)"
  shows "read_tips buf st is = Inr (map t is)"
  using assms by (induction "is") simp_all

lemma read_tips_encoded:
  assumes tab: "string_table (map tp_Ref ts) [] [] = (offs, tbl)" "length tbl < 2 ^ 32"
    and ts: "\<forall>t \<in> set ts. length (tp_OID t) = 20 \<and> CHR 0x00 \<notin> set (tp_Ref t)"
  shows "read_tips (concat (map (cg_tip offs) ts)) tbl [0..<length ts] = Inr ts"
proof -
  let ?buf = "concat (map (cg_tip offs) ts)"
  note holds = string_table_holds [OF tab, simplified]
  have "read_tips ?buf tbl [0..<length ts] = Inr (map (\<lambda>i. ts ! i) [0..<length ts])"
  proof (rule read_tips_map)
    fix i assume "i \<in> set [0..<length ts]"
    then have i: "i < length ts" by simp
    let ?t = "ts ! i"
    have t: "length (tp_OID ?t) = 20" "CHR 0x00 \<notin> set (tp_Ref ?t)" using ts i by auto
    have "drop (i * 24) ?buf = map (cg_tip offs) ts ! i @ drop (Suc i * 24) ?buf"
      by (rule concat_row_prefix) (use ts i in \<open>auto simp: cg_tip_def\<close>)
    then have d: "drop (i * 24) ?buf = put_be_u32 (the (map_of offs (tp_Ref ?t))) @ tp_OID ?t @ drop (Suc i * 24) ?buf"
      using i by (simp add: cg_tip_def)
    obtain k where k: "map_of offs (tp_Ref ?t) = Some k" using holds i by fastforce
    then obtain a b where ab: "tbl = a @ bytes_of_str (tp_Ref ?t) @ 0 # b" "unat k = length a" using holds by blast
    have "bslice (i * 24 + 4) (i * 24 + 24) ?buf = tp_OID ?t"
      unfolding bslice_drop d using t by simp
    moreover have "unat (be_u32 (drop (i * 24) ?buf)) = length a" unfolding d k using ab(2) by simp
    ultimately show "readCString tbl (unat (be_u32 (drop (i * 24) ?buf))) = Some (tp_Ref ?t) \<and>
        bslice (i * 24 + 4) (i * 24 + 24) ?buf = tp_OID ?t"
      using readCString_at [OF ab(1) t(2)] by simp
  qed
  then show ?thesis by (simp add: map_nth)
qed

section \<open>Round trip\<close>

lemma sorted_adjacent:
  assumes "list_all (\<lambda>i. re_OID (cs ! i) \<noteq> re_OID (cs ! (i - 1))) [1..<length cs]" "sorted (map re_OID cs)"
  shows "strictly_ascending (map re_OID cs)"
proof -
  have "strictly_ascending (map (\<lambda>i. re_OID (cs ! i)) [0..<length cs])"
  proof (rule ascending_steps)
    fix k assume k: "Suc k < length cs"
    then have "re_OID (cs ! k) \<le> re_OID (cs ! Suc k)" using sorted_nth_mono [OF assms(2), of k "Suc k"] by simp
    moreover have "re_OID (cs ! Suc k) \<noteq> re_OID (cs ! k)"
      using assms(1) [unfolded list_all_upt, rule_format, of "Suc k"] k by simp
    ultimately show "re_OID (cs ! k) < re_OID (cs ! Suc k)" by simp
  qed
  moreover have "map (\<lambda>i. re_OID (cs ! i)) [0..<length cs] = map re_OID cs" by (rule nth_equalityI) simp_all
  ultimately show ?thesis by simp
qed

text \<open>Contents a graph can be built of, within the widths of the format.\<close>

definition cg_input :: "cg_Record list \<Rightarrow> cg_Tip list \<Rightarrow> bool" where
  "cg_input cs ts \<longleftrightarrow> (\<forall>c \<in> set cs. wf_record c) \<and> (\<forall>t \<in> set ts. length (tp_OID t) = 20 \<and> CHR 0x00 \<notin> set (tp_Ref t)) \<and>
     length cs \<le> 2 ^ 31 - 1 \<and> length ts < 2 ^ 32 \<and> length (snd (string_table (map tp_Ref (sort_tips ts)) [] [])) < 2 ^ 32"

text \<open>The parts of a body.\<close>

lemma cg_body_parts:
  assumes "cs' = sort_by re_OID cs" "ts' = sort_tips ts" "string_table (map tp_Ref ts') [] [] = (offs, tbl)" "cg_input cs ts"
  defines "all \<equiv> seal (cg_body cs' ts')"
  shows "take 4 all = cg_magic" "be_u32 (drop 4 all) = 2" "unat (be_u64 (drop 8 all)) = length cs" "unat (be_u32 (drop 16 all)) = length ts"
    "length all = 32 + length ts * 24 + length (concat (map cg_encode cs') @ tbl) + 32"
    "bslice 32 (32 + length ts * 24) all = concat (map (cg_tip offs) ts')"
    "bslice (32 + length ts * 24) (length all - 32) all = concat (map cg_encode cs') @ tbl"
proof -
  let ?R = "concat (map cg_encode cs')" and ?T = "concat (map (cg_tip offs) ts')"
  let ?c = "put_be_u64 (of_nat (length cs))" and ?t = "put_be_u32 (of_nat (length ts))"
  have len: "length cs' = length cs" "length ts' = length ts" by (simp_all add: assms(1,2) sort_tips_def)
  have T: "length ?T = length ts * 24"
    using length_concat_rows [of "map (cg_tip offs) ts'" 24] assms(4) len by (simp add: cg_input_def cg_tip_def assms(2) sort_tips_def)
  define Z where "Z = sha256 (cg_body cs' ts')"
  have Z: "length Z = 32" by (simp add: Z_def)
  let ?H = "cg_magic @ put_be_u32 2 @ ?c @ ?t @ replicate 12 0"
  have all: "all = ?H @ ?T @ (?R @ tbl) @ Z" by (simp add: all_def seal_def cg_body_def assms(3) Z_def len)
  show "take 4 all = cg_magic" "be_u32 (drop 4 all) = 2" unfolding all by simp_all
  show "unat (be_u64 (drop 8 all)) = length cs" unfolding all using assms(4) by (simp add: cg_input_def unat_of_nat)
  show "unat (be_u32 (drop 16 all)) = length ts" unfolding all using assms(4) by (simp add: cg_input_def unat_of_nat)
  show size: "length all = 32 + length ts * 24 + length (?R @ tbl) + 32" unfolding all by (simp add: T Z)
  show "bslice 32 (32 + length ts * 24) all = ?T" unfolding all by (rule bslice_append) (simp_all add: T)
  have "bslice (32 + length ts * 24) (length all - 32) ((?H @ ?T) @ (?R @ tbl) @ Z) = ?R @ tbl"
    by (rule bslice_append) (simp_all add: T size)
  then show "bslice (32 + length ts * 24) (length all - 32) all = ?R @ tbl" by (simp add: all)
qed

lemma cg_build_checks:
  assumes "cg_build cs ts = Inr b"
  shows "b = seal (cg_body (sort_by re_OID cs) (sort_tips ts))" "strictly_ascending (map re_OID (sort_by re_OID cs))"
    "\<forall>t \<in> set ts. tp_OID t \<in> re_OID ` set cs" "\<forall>c \<in> set cs. \<forall>p \<in> set (re_Parents c). p \<in> re_OID ` set cs"
proof -
  let ?cs = "sort_by re_OID cs"
  have "list_all (\<lambda>i. re_OID (?cs ! i) \<noteq> re_OID (?cs ! (i - 1))) [1..<length ?cs]"
    using assms unfolding cg_build_def Let_def res_bind_Inr require_Inr by blast
  from sorted_adjacent [OF this] show "strictly_ascending (map re_OID ?cs)" by simp
  show "b = seal (cg_body ?cs (sort_tips ts))" "\<forall>t \<in> set ts. tp_OID t \<in> re_OID ` set cs"
    "\<forall>c \<in> set cs. \<forall>p \<in> set (re_Parents c). p \<in> re_OID ` set cs"
    using assms by (auto simp: cg_build_def Let_def list_all_iff)
qed

lemma cg_open_built:
  assumes inp: "cg_input cs ts" and b: "cg_build cs ts = Inr b"
  shows "\<exists>r. cg_Open b = Inr r \<and> mget r = map_of (rev (map (\<lambda>c. (re_OID c, c)) (sort_by re_OID cs)))"
proof -
  let ?cs = "sort_by re_OID cs" and ?r = "fold (\<lambda>c. mput (re_OID c) c) (sort_by re_OID cs) []"
  note chk = cg_build_checks [OF b]
  obtain offs tbl where st: "string_table (map tp_Ref (sort_tips ts)) [] [] = (offs, tbl)" by fastforce
  note parts = cg_body_parts [OF refl refl st inp, folded chk(1)]
  have d: "distinct (map re_OID ?cs)" using chk(2) by (rule strictly_ascending_distinct)
  have r: "mok ?r" "mget ?r = map_of (rev (map (\<lambda>c. (re_OID c, c)) ?cs))" using mget_fold_records [of "[]" ?cs] by simp_all
  have run: "parse_records (concat (map cg_encode ?cs) @ tbl) 2 (length cs) 0 [] = Inr ?r"
    using parse_records_encoded [of ?cs "[]" _ "[]" tbl 0] d inp by (simp add: cg_input_def)
  have key: "mget ?r (re_OID c) = Some c" if "c \<in> set cs" for c
    unfolding r(2) by (rule map_of_records [OF d]) (use that in simp)
  have inp_rec: "rec \<in> set cs" if "(oid, rec) \<in> set ?r" for oid rec
  proof -
    have "mget ?r oid = Some rec" by (rule map_of_is_SomeI [OF mok_distinct [OF r(1)] that])
    then have "(oid, rec) \<in> set (rev (map (\<lambda>c. (re_OID c, c)) ?cs))" unfolding r(2) by (rule map_of_SomeD)
    then show ?thesis by auto
  qed
  have "mget ?r p \<noteq> None" if rec: "(oid, rec) \<in> set ?r" "p \<in> set (re_Parents rec)" for oid rec p
  proof -
    obtain c where "c \<in> set cs" "p = re_OID c" using chk(4) inp_rec [OF rec(1)] rec(2) by blast
    with key show ?thesis by simp
  qed
  then have dangling: "list_all (\<lambda>(_, rec). list_all (\<lambda>p. mget ?r p \<noteq> None) (re_Parents rec)) ?r"
    unfolding list_all_iff by blast
  define r where "r = ?r"
  have "cg_Open b = Inr r"
    unfolding cg_Open_def Let_def parts(1-4,7) run [folded r_def]
    using parts(5) inp dangling [folded r_def] by (simp add: chk(1) cg_input_def del: sort_key_simps fold.simps)
  with r(2) [folded r_def] show ?thesis by blast
qed

lemma length_encodes: "\<forall>c \<in> set cs. wf_record c \<Longrightarrow> length cs * 25 \<le> length (concat (map cg_encode cs))"
  by (induction cs) (auto simp: length_cg_encode)

lemma graph_record:
  assumes wf: "\<forall>c \<in> set cs. wf_record c" and i: "i < length cs" and buf: "buf = concat (map cg_encode cs) @ b"
  shows "bslice (offsets_from 0 cs ! i) (offsets_from 0 cs ! i + 20) buf = re_OID (cs ! i)"
    "graph_parents buf 2 (offsets_from 0 cs ! i) = re_Parents (cs ! i)"
proof -
  obtain a' b' where a: "buf = a' @ cg_encode (cs ! i) @ b'" "offsets_from 0 cs ! i = length a'"
    using split_at [OF i, of buf "[]" b] buf by auto
  have c: "wf_record (cs ! i)" using wf i by simp
  note at = record_at [OF c a]
  show "bslice (offsets_from 0 cs ! i) (offsets_from 0 cs ! i + 20) buf = re_OID (cs ! i)" by (rule at(1))
  have "unat (buf ! (24 + length a')) = length (re_Parents (cs ! i))" using at(3) a(2) by (simp add: add.commute)
  then show "graph_parents buf 2 (offsets_from 0 cs ! i) = re_Parents (cs ! i)"
    using at(3,4) a(2) by (simp add: graph_parents_def Let_def)
qed

lemma graph_open_built:
  assumes inp: "cg_input cs ts" and b: "cg_build cs ts = Inr b"
  defines "cs' \<equiv> sort_by re_OID cs"
  shows "graph_open b = Inr \<lparr>gr_commits = concat (map cg_encode cs'), gr_commitOffsets = offsets_from 0 cs',
    gr_tips = sort_tips ts, gr_version = 2\<rparr>"
proof -
  note chk = cg_build_checks [OF b, folded cs'_def]
  obtain offs tbl where st: "string_table (map tp_Ref (sort_tips ts)) [] [] = (offs, tbl)" by fastforce
  have cs': "set cs' = set cs" "length cs' = length cs" by (simp_all add: cs'_def)
  note parts = cg_body_parts [OF cs'_def [THEN meta_eq_to_obj_eq] refl st inp, folded chk(1)]
  let ?E = "concat (map cg_encode cs')"
  have wf: "\<forall>c \<in> set cs'. wf_record c" using inp cs' by (simp add: cg_input_def)
  have scan: "scan_commits (?E @ tbl) 2 (length cs) 0 [] = Inr (offsets_from 0 cs', length ?E)"
    using scan_commits_encoded [OF wf chk(2), of "?E @ tbl" "[]" tbl 0 "[]"] cs'(2) by simp
  have tips: "read_tips (concat (map (cg_tip offs) (sort_tips ts))) tbl [0..<length ts] = Inr (sort_tips ts)"
    using read_tips_encoded [OF st] inp st by (simp add: cg_input_def sort_tips_def)
  have ids: "map (\<lambda>ofs. bslice ofs (ofs + 20) (?E @ tbl)) (offsets_from 0 cs') = map re_OID cs'"
    by (rule nth_equalityI) (simp_all add: graph_record [OF wf _ refl])
  have idset: "(\<lambda>ofs. bslice ofs (ofs + 20) (?E @ tbl)) ` set (offsets_from 0 cs') = re_OID ` set cs'"
    using arg_cong [OF ids, of set] by simp
  have tipsIn: "list_all (\<lambda>t. tp_OID t \<in> set (map re_OID cs')) (sort_tips ts)"
    using chk(3) cs' by (simp add: list_all_iff sort_tips_def)
  have "graph_parents (?E @ tbl) 2 ofs \<in> re_Parents ` set cs" if ofs: "ofs \<in> set (offsets_from 0 cs')" for ofs
  proof -
    obtain i where "i < length cs'" "ofs = offsets_from 0 cs' ! i" using ofs by (auto simp: in_set_conv_nth)
    then show ?thesis using graph_record(2) [OF wf _ refl] nth_mem [of i cs'] cs' by auto
  qed
  then have parentsIn: "list_all (\<lambda>ofs. list_all (\<lambda>p. p \<in> set (map re_OID cs')) (graph_parents (?E @ tbl) 2 ofs)) (offsets_from 0 cs')"
    using chk(4) cs' unfolding list_all_iff by fastforce
  have cap: "length cs \<le> length (?E @ tbl) div 25" using length_encodes [OF wf] cs'(2) by simp
  have sec: "int (length b) - 32 - int (length ts) * 24 - 32 = int (length (?E @ tbl))" by (simp add: parts(5))
  have sealed: "sealed b" by (simp add: chk(1))
  have "length cs \<le> 2 ^ 31 - 1" using inp by (simp add: cg_input_def)
  then show ?thesis
    unfolding graph_open_def Let_def parts(1-4) sec parts(6,7) scan
    using parts(5) cap sealed tips tipsIn parentsIn by (simp add: idset nat_int_add)
qed

lemma member_neq: "a \<in> A \<Longrightarrow> x \<notin> A \<Longrightarrow> a \<noteq> x"
  by blast

lemma graph_Parents_built:
  assumes wf: "\<forall>c \<in> set cs. wf_record c" and asc: "strictly_ascending (map re_OID cs)"
    and g: "g = \<lparr>gr_commits = concat (map cg_encode cs), gr_commitOffsets = offsets_from 0 cs, gr_tips = ts, gr_version = 2\<rparr>"
  shows "c \<in> set cs \<Longrightarrow> graph_Parents g (re_OID c) = Some (re_Parents c)"
    "oid \<notin> re_OID ` set cs \<Longrightarrow> graph_Parents g oid = None"
proof -
  let ?offs = "offsets_from 0 cs" and ?n = "length cs"
  let ?key = "\<lambda>i. bslice (?offs ! i) (?offs ! i + 20) (concat (map cg_encode cs))"
  have rec: "?key i = re_OID (cs ! i)" "graph_parents (concat (map cg_encode cs)) 2 (?offs ! i) = re_Parents (cs ! i)"
    if "i < ?n" for i
    using graph_record [OF wf that, of "concat (map cg_encode cs)" "[]"] by simp_all
  show "graph_Parents g (re_OID c) = Some (re_Parents c)" if c: "c \<in> set cs"
  proof -
    obtain i where i: "i < ?n" "cs ! i = c" using c by (auto simp: in_set_conv_nth)
    have "sort_Search (length (map re_OID cs)) (\<lambda>i. re_OID c \<le> ?key i) = i"
      by (rule sort_Search_key [OF asc]) (use i rec(1) in auto)
    then have "sort_Search ?n (\<lambda>i. re_OID c \<le> ?key i) = i" by simp
    with i rec [of i] show ?thesis by (simp add: graph_Parents_def g Let_def)
  qed
  show "graph_Parents g oid = None" if oid: "oid \<notin> re_OID ` set cs"
  proof -
    let ?p = "sort_Search ?n (\<lambda>i. oid \<le> ?key i)"
    have "?key ?p \<noteq> oid" if "?p \<noteq> ?n"
    proof -
      have p: "?p < ?n" by (rule le_neq_implies_less [OF sort_Search_le that])
      have "?key ?p \<in> re_OID ` set cs" by (subst rec(1) [OF p]) (rule imageI [OF nth_mem [OF p]])
      then show ?thesis using oid by (rule member_neq)
    qed
    then show ?thesis by (simp add: graph_Parents_def g Let_def)
  qed
qed

text \<open>What the builder demands: no id twice, and tips and parents among the commits.\<close>

definition cg_closed :: "cg_Record list \<Rightarrow> cg_Tip list \<Rightarrow> bool" where
  "cg_closed cs ts \<longleftrightarrow> distinct (map re_OID cs) \<and> (\<forall>t \<in> set ts. tp_OID t \<in> re_OID ` set cs) \<and>
     (\<forall>c \<in> set cs. set (re_Parents c) \<subseteq> re_OID ` set cs)"

lemma cg_build_accepts:
  assumes inp: "cg_input cs ts" and cl: "cg_closed cs ts"
  shows "cg_build cs ts = Inr (seal (cg_body (sort_by re_OID cs) (sort_tips ts)))"
proof -
  let ?cs = "sort_by re_OID cs"
  have d: "distinct (map re_OID ?cs)" using cl by (simp add: cg_closed_def distinct_map)
  have adj: "list_all (\<lambda>i. re_OID (?cs ! i) \<noteq> re_OID (?cs ! (i - 1))) [1..<length ?cs]"
    using adjacent_distinct [OF d] by (auto simp: list_all_upt)
  have "list_all (\<lambda>c. length (re_Parents c) \<le> 255) ?cs"
    using inp by (simp add: cg_input_def wf_record_def list_all_iff)
  moreover have "list_all (\<lambda>t. tp_OID t \<in> set (map re_OID ?cs)) ts"
    "list_all (\<lambda>c. list_all (\<lambda>p. p \<in> set (map re_OID ?cs)) (re_Parents c)) ?cs"
    using cl by (auto simp: cg_closed_def list_all_iff)
  ultimately show ?thesis using adj unfolding cg_build_def Let_def by simp
qed

lemma cg_build_closed: "cg_build cs ts = Inr b \<Longrightarrow> cg_closed cs ts"
  using cg_build_checks [of cs ts b] strictly_ascending_distinct [of "map re_OID (sort_by re_OID cs)"]
  by (auto simp: cg_closed_def distinct_map)

text \<open>C12: within the widths of the format the builder of the commit graph accepts exactly the contents with
  distinct ids whose tips and parents are among the commits. What it writes is read back by both readers of the
  package, which agree: the tips are those given, in order, every commit is found with its generation number and
  its parents, and no other id is found.\<close>

theorem commitgraph_roundtrip:
  assumes inp: "cg_input cs ts"
  shows "(\<not> cg_closed cs ts \<longrightarrow> (\<exists>e. cg_build cs ts = Inl e)) \<and>
    (cg_closed cs ts \<longrightarrow> (\<exists>b r g. cg_build cs ts = Inr b \<and> cg_Open b = Inr r \<and> graph_open b = Inr g \<and> gr_tips g = sort_tips ts \<and>
      (\<forall>c \<in> set cs. RecordOf r (re_OID c) = Some c \<and> graph_Parents g (re_OID c) = Some (re_Parents c)) \<and>
      (\<forall>oid. oid \<notin> re_OID ` set cs \<longrightarrow> RecordOf r oid = None \<and> graph_Parents g oid = None)))"
proof (intro conjI impI)
  show "\<exists>e. cg_build cs ts = Inl e" if "\<not> cg_closed cs ts"
    using that cg_build_closed by (cases "cg_build cs ts") auto
  assume "cg_closed cs ts"
  then obtain b where b: "cg_build cs ts = Inr b" using cg_build_accepts [OF inp] by blast
  let ?cs = "sort_by re_OID cs"
  note asc = cg_build_checks(2) [OF b]
  have wf: "\<forall>c \<in> set ?cs. wf_record c" using inp by (simp add: cg_input_def)
  obtain r where r: "cg_Open b = Inr r" "mget r = map_of (rev (map (\<lambda>c. (re_OID c, c)) ?cs))"
    using cg_open_built [OF inp b] by blast
  have "RecordOf r (re_OID c) = Some c" if "c \<in> set cs" for c
    unfolding RecordOf_def r(2) by (rule map_of_records [OF strictly_ascending_distinct [OF asc]]) (use that in simp)
  moreover have "RecordOf r oid = None" if "oid \<notin> re_OID ` set cs" for oid
    using that unfolding RecordOf_def r(2) by (auto simp: map_of_eq_None_iff image_image)
  ultimately show "\<exists>b r g. cg_build cs ts = Inr b \<and> cg_Open b = Inr r \<and> graph_open b = Inr g \<and> gr_tips g = sort_tips ts \<and>
      (\<forall>c \<in> set cs. RecordOf r (re_OID c) = Some c \<and> graph_Parents g (re_OID c) = Some (re_Parents c)) \<and>
      (\<forall>oid. oid \<notin> re_OID ` set cs \<longrightarrow> RecordOf r oid = None \<and> graph_Parents g oid = None)"
    using b r(1) graph_open_built [OF inp b] graph_Parents_built [OF wf asc refl, where ts = "sort_tips ts"] by auto
qed

definition root_commit :: cg_Record where
  "root_commit = \<lparr>re_OID = 1 # replicate 19 0, re_Generation = 1, re_Parents = []\<rparr>"

definition next_commit :: cg_Record where
  "next_commit = \<lparr>re_OID = 9 # replicate 19 0, re_Generation = 2, re_Parents = [1 # replicate 19 0]\<rparr>"

definition main_tip :: cg_Tip where
  "main_tip = \<lparr>tp_Ref = ''refs/heads/main'', tp_OID = 9 # replicate 19 0\<rparr>"

theorem commitgraph_roundtrip_witness:
  "\<exists>b r g. cg_build [next_commit, root_commit] [main_tip] = Inr b \<and> cg_Open b = Inr r \<and> graph_open b = Inr g \<and>
     gr_tips g = [main_tip] \<and> graph_Parents g (9 # replicate 19 0) = Some [1 # replicate 19 0]"
proof -
  have inp: "cg_input [next_commit, root_commit] [main_tip]"
    by (simp add: cg_input_def wf_record_def next_commit_def root_commit_def main_tip_def sort_tips_def)
  have cl: "cg_closed [next_commit, root_commit] [main_tip]"
    by (simp add: cg_closed_def next_commit_def root_commit_def main_tip_def)
  from commitgraph_roundtrip [OF inp] cl show ?thesis by (auto simp: sort_tips_def next_commit_def)
qed

end
