(* ===== verification/Commit_Gens.thy ===== *)
theory Commit_Gens
  imports Commit_Graph
begin

text \<open>
  The generation numbers of a commit graph: the recursion of \<open>computeGenerations\<close> ends on every list of
  records, cyclic ones included, and on an acyclic list each commit gets one more than the greatest number among its
  parents.
\<close>

section \<open>The recursion ends\<close>

lemma find_in: "find P xs = Some x \<Longrightarrow> x \<in> set xs \<and> P x"
  by (induction xs) (auto split: if_splits)

lemma cg_record_Some: "cg_record commits oid = Some c \<Longrightarrow> c \<in> set commits \<and> re_OID c = oid"
  unfolding cg_record_def by (drule find_in) simp

lemma cg_record_distinct:
  assumes "distinct (map re_OID commits)" "c \<in> set commits"
  shows "cg_record commits (re_OID c) = Some c"
proof -
  have "cg_record commits (re_OID c) \<noteq> None" using assms(2) by (auto simp: cg_record_def find_None_iff)
  then obtain d where d: "cg_record commits (re_OID c) = Some d" by blast
  from cg_record_Some [OF this] have "d \<in> set commits" "re_OID d = re_OID c" by auto
  with assms have "d = c" by (auto simp: distinct_map inj_on_def)
  with d show ?thesis by simp
qed

lemma compute_ends:
  "distinct visiting \<Longrightarrow> set visiting \<subseteq> re_OID ` set commits \<Longrightarrow> card (re_OID ` set commits) < n + length visiting \<Longrightarrow>
     compute n commits visiting oid gens \<noteq> None"
  "distinct visiting \<Longrightarrow> set visiting \<subseteq> re_OID ` set commits \<Longrightarrow> card (re_OID ` set commits) < n + length visiting \<Longrightarrow>
     max_parent n commits visiting ps m gens \<noteq> None"
proof (induction n commits visiting oid gens and n commits visiting ps m gens rule: compute_max_parent.induct)
  case (1 commits visiting oid gens)
  then show ?case using card_mono [of "re_OID ` set commits" "set visiting"] by (simp add: distinct_card)
next
  case (2 n commits visiting oid gens)
  have step: "max_parent n commits (oid # visiting) (re_Parents c) 0 gens \<noteq> None"
    if new: "mget gens oid = None" "oid \<notin> set visiting" and rec: "cg_record commits oid = Some c" for c
  proof (rule 2(1) [OF new rec])
    show "distinct (oid # visiting)" using 2(2) new by simp
    show "set (oid # visiting) \<subseteq> re_OID ` set commits" using 2(3) cg_record_Some [OF rec] by auto
    show "card (re_OID ` set commits) < n + length (oid # visiting)" using 2(4) by simp
  qed
  show ?case
  proof (cases "mget gens oid = None \<and> oid \<notin> set visiting \<and> cg_record commits oid \<noteq> None")
    case True
    then obtain c where "cg_record commits oid = Some c" by blast
    with True step show ?thesis by (auto split: option.splits)
  next
    case False
    then show ?thesis by (auto split: option.splits)
  qed
next
  case (3 n commits visiting m gens)
  show ?case by simp
next
  case (4 n commits visiting p ps m gens)
  from 4(1) [OF 4(3-5)] obtain g gens' where g: "compute n commits visiting p gens = Some (g, gens')" by auto
  from 4(2) [OF g refl 4(3-5)] g show ?case by simp
qed

lemma compute_all_ends: "compute_all commits oids gens \<noteq> None"
proof (induction oids arbitrary: gens)
  case (Cons oid oids)
  have "compute (length commits + 1) commits [] oid gens \<noteq> None"
    by (rule compute_ends) (use card_image_le [of "set commits" re_OID] card_length [of commits] in auto)
  with Cons show ?case by (auto split: option.splits)
qed simp

section \<open>The numbers\<close>

definition gen_of :: "gens \<Rightarrow> OID \<Rightarrow> 32 word" where
  "gen_of gens oid = (case mget gens oid of None \<Rightarrow> 0 | Some g \<Rightarrow> g)"

text \<open>The greatest number among the parents.\<close>

definition parents_gen :: "gens \<Rightarrow> OID list \<Rightarrow> 32 word" where
  "parents_gen gens ps = fold max (map (gen_of gens) ps) 0"

text \<open>What is in the table is final: it has the parents, and the number is right for them.\<close>

definition gens_ok :: "cg_Record list \<Rightarrow> gens \<Rightarrow> bool" where
  "gens_ok commits gens \<longleftrightarrow> mok gens \<and> (\<forall>oid g. mget gens oid = Some g \<longrightarrow>
     (case cg_record commits oid of
        None \<Rightarrow> g = 0
      | Some c \<Rightarrow> set (re_Parents c) \<subseteq> dom (mget gens) \<and> g = parents_gen gens (re_Parents c) + 1))"

lemma parents_gen_ext: "set ps \<subseteq> dom (mget gens) \<Longrightarrow> mget gens \<subseteq>\<^sub>m mget gens' \<Longrightarrow> parents_gen gens' ps = parents_gen gens ps"
  unfolding parents_gen_def
  by (rule arg_cong [where f = "\<lambda>xs. fold max xs 0"], rule map_cong) (auto simp: gen_of_def map_le_def dom_def split: option.splits)

lemma gens_ok_put:
  assumes ok: "gens_ok commits gens" and new: "mget gens oid = None"
    and g: "case cg_record commits oid of None \<Rightarrow> g = 0
      | Some c \<Rightarrow> set (re_Parents c) \<subseteq> dom (mget gens) \<and> g = parents_gen gens (re_Parents c) + 1"
  shows "gens_ok commits (mput oid g gens)"
proof -
  have m: "mok gens" using ok by (simp add: gens_ok_def)
  have ext: "mget gens \<subseteq>\<^sub>m mget (mput oid g gens)" using m new by (auto simp: map_le_def)
  have sub: "dom (mget gens) \<subseteq> dom (mget (mput oid g gens))" using m by auto
  show ?thesis
    unfolding gens_ok_def
  proof (intro conjI allI impI)
    show "mok (mput oid g gens)" using m by simp
    fix x h assume x: "mget (mput oid g gens) x = Some h"
    have "case cg_record commits x of None \<Rightarrow> h = 0
        | Some c \<Rightarrow> set (re_Parents c) \<subseteq> dom (mget gens) \<and> h = parents_gen gens (re_Parents c) + 1"
    proof (cases "x = oid")
      case True
      with x m have h: "h = g" by simp
      show ?thesis unfolding h True by (rule g)
    next
      case False
      with x m have "mget gens x = Some h" by simp
      with ok show ?thesis unfolding gens_ok_def by blast
    qed
    then show "case cg_record commits x of None \<Rightarrow> h = 0
        | Some c \<Rightarrow> set (re_Parents c) \<subseteq> dom (mget (mput oid g gens)) \<and> h = parents_gen (mput oid g gens) (re_Parents c) + 1"
      using parents_gen_ext [OF _ ext] subset_trans [OF _ sub] by (cases "cg_record commits x") simp_all
  qed
qed

text \<open>Acyclic: ids can be ranked so that parents come below.\<close>

definition ranked :: "(OID \<Rightarrow> nat) \<Rightarrow> cg_Record list \<Rightarrow> bool" where
  "ranked rank commits \<longleftrightarrow> (\<forall>c \<in> set commits. \<forall>p \<in> set (re_Parents c). rank p < rank (re_OID c))"

definition below :: "(OID \<Rightarrow> nat) \<Rightarrow> OID list \<Rightarrow> OID set" where
  "below rank ps = {x. \<exists>p \<in> set ps. rank x \<le> rank p}"

definition extends :: "cg_Record list \<Rightarrow> OID set \<Rightarrow> gens \<Rightarrow> gens \<Rightarrow> bool" where
  "extends commits A gens gens' \<longleftrightarrow>
     gens_ok commits gens' \<and> mget gens \<subseteq>\<^sub>m mget gens' \<and> dom (mget gens') \<subseteq> dom (mget gens) \<union> A"

lemma extends_refl: "gens_ok commits gens \<Longrightarrow> extends commits A gens gens"
  by (simp add: extends_def)

lemma extends_trans:
  "extends commits A gens gens1 \<Longrightarrow> extends commits B gens1 gens2 \<Longrightarrow> A \<subseteq> C \<Longrightarrow> B \<subseteq> C \<Longrightarrow> extends commits C gens gens2"
  unfolding extends_def using map_le_trans by blast

lemma extends_put:
  assumes "gens_ok commits gens" "mget gens oid = None" "oid \<in> A"
    "case cg_record commits oid of None \<Rightarrow> g = 0
      | Some c \<Rightarrow> set (re_Parents c) \<subseteq> dom (mget gens) \<and> g = parents_gen gens (re_Parents c) + 1"
  shows "extends commits A gens (mput oid g gens)"
proof -
  have "mok gens" using assms(1) by (simp add: gens_ok_def)
  then show ?thesis
    using gens_ok_put [OF assms(1,2,4)] assms(2,3) by (auto simp: extends_def map_le_def)
qed

lemma extends_None: "extends commits A gens gens' \<Longrightarrow> mget gens x = None \<Longrightarrow> x \<notin> A \<Longrightarrow> mget gens' x = None"
  unfolding extends_def by blast

lemma compute_right:
  "ranked rank commits \<Longrightarrow> gens_ok commits gens \<Longrightarrow> \<forall>v \<in> set visiting. rank oid < rank v \<Longrightarrow>
     compute n commits visiting oid gens = Some (g, gens') \<Longrightarrow>
     extends commits (below rank [oid]) gens gens' \<and> mget gens' oid = Some g"
  "ranked rank commits \<Longrightarrow> gens_ok commits gens \<Longrightarrow> \<forall>p \<in> set ps. \<forall>v \<in> set visiting. rank p < rank v \<Longrightarrow>
     max_parent n commits visiting ps m gens = Some (g, gens') \<Longrightarrow>
     extends commits (below rank ps) gens gens' \<and> set ps \<subseteq> dom (mget gens') \<and> g = fold max (map (gen_of gens') ps) m"
proof (induction n commits visiting oid gens and n commits visiting ps m gens
    arbitrary: g gens' and g gens' rule: compute_max_parent.induct)
  case (1 commits visiting oid gens)
  then show ?case by simp
next
  case (2 n commits visiting oid gens)
  have nv: "oid \<notin> set visiting" using 2(4) by blast
  have self: "oid \<in> below rank [oid]" by (simp add: below_def)
  show ?case
  proof (cases "mget gens oid")
    case (Some h)
    with 2(3,5) show ?thesis by (simp add: extends_refl)
  next
    case None
    show ?thesis
    proof (cases "cg_record commits oid")
      case norec: None
      with 2(5) None nv have e: "g = 0" "gens' = mput oid 0 gens" by simp_all
      have "extends commits (below rank [oid]) gens gens'"
        unfolding e by (rule extends_put [OF 2(3) None self]) (simp add: norec)
      with e 2(3) show ?thesis by (simp add: gens_ok_def)
    next
      case rec: (Some c)
      with 2(5) None nv obtain mp gens1 where mp: "max_parent n commits (oid # visiting) (re_Parents c) 0 gens = Some (mp, gens1)"
        and e: "g = mp + 1" "gens' = mput oid (mp + 1) gens1" by (auto split: option.splits)
      have low: "\<forall>p \<in> set (re_Parents c). rank p < rank oid"
        using 2(2) cg_record_Some [OF rec] unfolding ranked_def by blast
      have lows: "\<forall>p \<in> set (re_Parents c). \<forall>v \<in> set (oid # visiting). rank p < rank v"
        using 2(4) low by (auto intro: less_trans)
      have IH: "extends commits (below rank (re_Parents c)) gens gens1 \<and> set (re_Parents c) \<subseteq> dom (mget gens1) \<and>
          mp = fold max (map (gen_of gens1) (re_Parents c)) 0"
        by (rule 2(1) [OF None nv rec 2(2,3) lows mp])
      have out: "oid \<notin> below rank (re_Parents c)" and sub: "below rank (re_Parents c) \<subseteq> below rank [oid]"
        using low by (auto simp: below_def not_le intro: less_imp_le order_trans)
      have ok1: "gens_ok commits gens1" using IH by (simp add: extends_def)
      have fresh: "mget gens1 oid = None" using IH None out by (blast intro: extends_None)
      have put: "extends commits (below rank [oid]) gens1 (mput oid (mp + 1) gens1)"
        by (rule extends_put [OF ok1 fresh self]) (use IH in \<open>simp add: rec parents_gen_def\<close>)
      have "extends commits (below rank [oid]) gens gens'"
        unfolding e by (rule extends_trans [OF conjunct1 [OF IH] put sub order_refl])
      with e ok1 show ?thesis by (simp add: gens_ok_def)
    qed
  qed
next
  case (3 n commits visiting m gens)
  then show ?case by (simp add: extends_refl)
next
  case (4 n commits visiting p ps m gens)
  from 4(6) obtain h gens1 where h: "compute n commits visiting p gens = Some (h, gens1)"
    and r: "max_parent n commits visiting ps (if h > m then h else m) gens1 = Some (g, gens')" by (auto split: option.splits)
  have A: "extends commits (below rank [p]) gens gens1 \<and> mget gens1 p = Some h"
    by (rule 4(1) [OF 4(3,4) _ h]) (use 4(5) in simp)
  then have ok1: "gens_ok commits gens1" by (simp add: extends_def)
  have B: "extends commits (below rank ps) gens1 gens' \<and> set ps \<subseteq> dom (mget gens') \<and>
      g = fold max (map (gen_of gens') ps) (if h > m then h else m)"
    by (rule 4(2) [OF h refl 4(3) ok1 _ r]) (use 4(5) in simp)
  have p: "mget gens' p = Some h" using A B by (auto simp: extends_def map_le_def dom_def)
  have "extends commits (below rank (p # ps)) gens gens'"
    by (rule extends_trans [OF conjunct1 [OF A] conjunct1 [OF B]]) (auto simp: below_def)
  moreover have "(if h > m then h else m) = max (gen_of gens' p) m" by (auto simp: gen_of_def p max_def)
  ultimately show ?case using B p by auto
qed

lemma compute_all_right:
  "ranked rank commits \<Longrightarrow> gens_ok commits gens \<Longrightarrow> compute_all commits oids gens = Some gens' \<Longrightarrow>
     gens_ok commits gens' \<and> mget gens \<subseteq>\<^sub>m mget gens' \<and> set oids \<subseteq> dom (mget gens')"
proof (induction oids arbitrary: gens)
  case Nil
  then show ?case by simp
next
  case (Cons oid oids)
  from Cons(4) obtain g gens1 where c: "compute (length commits + 1) commits [] oid gens = Some (g, gens1)"
    and r: "compute_all commits oids gens1 = Some gens'" by (auto split: option.splits)
  have A: "extends commits (below rank [oid]) gens gens1 \<and> mget gens1 oid = Some g"
    by (rule compute_right(1) [OF Cons(2,3) _ c]) simp
  then have B: "gens_ok commits gens' \<and> mget gens1 \<subseteq>\<^sub>m mget gens' \<and> set oids \<subseteq> dom (mget gens')"
    using Cons(1) [OF Cons(2) _ r] by (simp add: extends_def)
  have "mget gens \<subseteq>\<^sub>m mget gens'" using A B map_le_trans unfolding extends_def by blast
  moreover have "oid \<in> dom (mget gens')" using A B by (auto simp: map_le_def dom_def)
  ultimately show ?case using B by simp
qed

section \<open>No wrap-around\<close>

text \<open>The number of a commit counts commits of at most its rank, so with fewer than $2^{32}$ commits the addition of
  one does not wrap.\<close>

definition ids_upto :: "(OID \<Rightarrow> nat) \<Rightarrow> cg_Record list \<Rightarrow> OID \<Rightarrow> OID set" where
  "ids_upto rank commits oid = {x \<in> re_OID ` set commits. rank x \<le> rank oid}"

lemma finite_ids_upto: "finite (ids_upto rank commits oid)"
  by (simp add: ids_upto_def)

lemma card_ids_upto: "card (ids_upto rank commits oid) \<le> length commits"
  using card_mono [of "re_OID ` set commits" "ids_upto rank commits oid"] card_image_le [of "set commits" re_OID] card_length [of commits]
  by (auto simp: ids_upto_def)

lemma card_ids_upto_less:
  assumes "rank p < rank oid" "oid \<in> re_OID ` set commits"
  shows "card (ids_upto rank commits p) < card (ids_upto rank commits oid)"
proof (rule psubset_card_mono [OF finite_ids_upto])
  have "oid \<in> ids_upto rank commits oid" "oid \<notin> ids_upto rank commits p" using assms by (auto simp: ids_upto_def)
  moreover have "ids_upto rank commits p \<subseteq> ids_upto rank commits oid" using assms by (auto simp: ids_upto_def)
  ultimately show "ids_upto rank commits p \<subset> ids_upto rank commits oid" by blast
qed

lemma fold_max_in: "fold max xs (m::32 word) = m \<or> fold max xs m \<in> set xs"
  by (induction xs arbitrary: m) (simp, metis fold_simps(2) insert_iff list.set(2) max_def)

lemma fold_max_ge: "m \<le> fold max xs (m::32 word)" "x \<in> set xs \<Longrightarrow> x \<le> fold max xs (m::32 word)"
  by (induction xs arbitrary: m) (auto intro: order_trans [OF max.cobounded1] order_trans [OF max.cobounded2])

lemma gens_bound:
  assumes r: "ranked rank commits" and ok: "gens_ok commits gens" and len: "length commits < 2 ^ 32"
  shows "unat (gen_of gens oid) \<le> card (ids_upto rank commits oid)"
proof (induction "rank oid" arbitrary: oid rule: less_induct)
  case less
  show ?case
  proof (cases "mget gens oid")
    case None
    then show ?thesis by (simp add: gen_of_def)
  next
    case (Some g)
    then have g: "gen_of gens oid = g" by (simp add: gen_of_def)
    show ?thesis
    proof (cases "cg_record commits oid")
      case None
      then show ?thesis using ok Some g unfolding gens_ok_def by fastforce
    next
      case rec: (Some c)
      have eq: "g = parents_gen gens (re_Parents c) + 1" using ok Some rec unfolding gens_ok_def by fastforce
      have c: "oid \<in> re_OID ` set commits" "\<forall>p \<in> set (re_Parents c). rank p < rank oid"
        using cg_record_Some [OF rec] r unfolding ranked_def by auto
      have "unat (parents_gen gens (re_Parents c)) < card (ids_upto rank commits oid)"
      proof (cases "parents_gen gens (re_Parents c) = 0")
        case True
        have "oid \<in> ids_upto rank commits oid" using c(1) by (simp add: ids_upto_def)
        then show ?thesis using True finite_ids_upto by (auto simp: card_gt_0_iff)
      next
        case False
        then obtain p where p: "p \<in> set (re_Parents c)" "parents_gen gens (re_Parents c) = gen_of gens p"
          using fold_max_in [of "map (gen_of gens) (re_Parents c)" 0] by (auto simp: parents_gen_def)
        have "unat (gen_of gens p) \<le> card (ids_upto rank commits p)" using less c(2) p(1) by blast
        also have "\<dots> < card (ids_upto rank commits oid)" using card_ids_upto_less c p(1) by blast
        finally show ?thesis using p(2) by simp
      qed
      moreover have "unat g \<le> Suc (unat (parents_gen gens (re_Parents c)))"
        unfolding eq by (simp add: unat_word_ariths)
      ultimately show ?thesis using g by simp
    qed
  qed
qed

lemma gens_exact:
  assumes r: "ranked rank commits" and ok: "gens_ok commits gens" and len: "length commits < 2 ^ 32"
    and rec: "cg_record commits oid = Some c" and g: "mget gens oid = Some g"
  shows "unat g = Suc (unat (parents_gen gens (re_Parents c)))"
proof -
  have eq: "g = parents_gen gens (re_Parents c) + 1" using ok g rec unfolding gens_ok_def by fastforce
  have "unat (parents_gen gens (re_Parents c)) < 2 ^ 32 - 1"
  proof (cases "parents_gen gens (re_Parents c) = 0")
    case True
    then show ?thesis by simp
  next
    case False
    then obtain p where p: "p \<in> set (re_Parents c)" "parents_gen gens (re_Parents c) = gen_of gens p"
      using fold_max_in [of "map (gen_of gens) (re_Parents c)" 0] by (auto simp: parents_gen_def)
    have oid: "oid \<in> re_OID ` set commits" "rank p < rank oid"
      using cg_record_Some [OF rec] r p(1) unfolding ranked_def by auto
    have "unat (gen_of gens p) \<le> card (ids_upto rank commits p)" by (rule gens_bound [OF r ok len])
    also have "\<dots> < card (ids_upto rank commits oid)" by (rule card_ids_upto_less [OF oid(2,1)])
    also have "\<dots> \<le> length commits" by (rule card_ids_upto)
    finally show ?thesis using p(2) len by simp
  qed
  then show ?thesis unfolding eq by (simp add: unat_word_ariths)
qed

section \<open>Acyclic histories\<close>

text \<open>The edges from parents to the commits that name them.\<close>

definition parent_edges :: "cg_Record list \<Rightarrow> (OID \<times> OID) set" where
  "parent_edges commits = set (concat (map (\<lambda>c. map (\<lambda>p. (p, re_OID c)) (re_Parents c)) commits))"

lemma acyclic_ranked:
  assumes "acyclic (parent_edges commits)"
  shows "ranked (\<lambda>x. card {y. (y, x) \<in> (parent_edges commits)\<^sup>+}) commits"
  unfolding ranked_def
proof (intro ballI)
  fix c p assume "c \<in> set commits" "p \<in> set (re_Parents c)"
  then have e: "(p, re_OID c) \<in> parent_edges commits" by (auto simp: parent_edges_def)
  have "finite ((parent_edges commits)\<^sup>+)" by (simp add: parent_edges_def)
  then have "finite (fst ` ((parent_edges commits)\<^sup>+))" by simp
  then have fin: "finite {y. (y, re_OID c) \<in> (parent_edges commits)\<^sup>+}" by (rule rev_finite_subset) force
  show "card {y. (y, p) \<in> (parent_edges commits)\<^sup>+} < card {y. (y, re_OID c) \<in> (parent_edges commits)\<^sup>+}"
  proof (rule psubset_card_mono [OF fin])
    have "(p, p) \<notin> (parent_edges commits)\<^sup>+" using assms by (simp add: acyclic_def)
    moreover have "(p, re_OID c) \<in> (parent_edges commits)\<^sup>+" using e by blast
    moreover have "(y, re_OID c) \<in> (parent_edges commits)\<^sup>+" if "(y, p) \<in> (parent_edges commits)\<^sup>+" for y
      using that e by (rule trancl_into_trancl)
    ultimately show "{y. (y, p) \<in> (parent_edges commits)\<^sup>+} \<subset> {y. (y, re_OID c) \<in> (parent_edges commits)\<^sup>+}" by blast
  qed
qed

lemma parents_gen_ge: "p \<in> set ps \<Longrightarrow> gen_of gens p \<le> parents_gen gens ps"
  unfolding parents_gen_def by (rule fold_max_ge) simp

lemma unat_parents_gen: "unat (parents_gen gens ps) = Max (insert 0 ((\<lambda>p. unat (gen_of gens p)) ` set ps))"
proof (rule Max_eqI [symmetric])
  show "y \<le> unat (parents_gen gens ps)" if "y \<in> insert 0 ((\<lambda>p. unat (gen_of gens p)) ` set ps)" for y
    using that parents_gen_ge [of _ ps gens] by (auto simp: word_le_nat_alt)
  show "unat (parents_gen gens ps) \<in> insert 0 ((\<lambda>p. unat (gen_of gens p)) ` set ps)"
    using fold_max_in [of "map (gen_of gens) ps" 0] by (auto simp: parents_gen_def)
qed simp

lemma gens_ok_Nil: "gens_ok commits []"
  by (simp add: gens_ok_def)

text \<open>C13: The generation numbers. \<^const>\<open>computeGenerations\<close> returns on every list of records, cyclic ones included.
  On an acyclic list of fewer than $2^{32}$ records every record gets a number, which without wrap-around is one more
  than the greatest number among its parents (parents outside the list count as 0); in particular the number of a
  commit is greater than that of each of its parents.\<close>

theorem generations_exact:
  "\<exists>gens. computeGenerations commits = Some gens \<and>
     (acyclic (parent_edges commits) \<longrightarrow> length commits < 2 ^ 32 \<longrightarrow>
       (\<forall>oid. cg_record commits oid = None \<longrightarrow> gen_of gens oid = 0) \<and>
       (\<forall>oid c. cg_record commits oid = Some c \<longrightarrow>
          unat (gen_of gens oid) = Suc (Max (insert 0 ((\<lambda>p. unat (gen_of gens p)) ` set (re_Parents c)))) \<and>
          (\<forall>p \<in> set (re_Parents c). gen_of gens p < gen_of gens oid)))"
proof -
  obtain gens where gens: "computeGenerations commits = Some gens"
    using compute_all_ends [of commits "map re_OID commits" "[]"] unfolding computeGenerations_def by blast
  show ?thesis
  proof (intro exI conjI impI allI)
    show "computeGenerations commits = Some gens" by (rule gens)
    assume acyc: "acyclic (parent_edges commits)" and len: "length commits < 2 ^ 32"
    note r = acyclic_ranked [OF acyc]
    have all: "gens_ok commits gens" "set (map re_OID commits) \<subseteq> dom (mget gens)"
      using compute_all_right [OF r gens_ok_Nil gens [unfolded computeGenerations_def]] by blast+
    show "gen_of gens oid = 0" if "cg_record commits oid = None" for oid
      using that all(1) unfolding gens_ok_def gen_of_def by (fastforce split: option.splits)
    fix oid c assume rec: "cg_record commits oid = Some c"
    then obtain g where g: "mget gens oid = Some g" using all(2) cg_record_Some [OF rec] by auto
    have e: "unat (gen_of gens oid) = Suc (unat (parents_gen gens (re_Parents c)))"
      using gens_exact [OF r all(1) len rec g] g by (simp add: gen_of_def)
    show "unat (gen_of gens oid) = Suc (Max (insert 0 ((\<lambda>p. unat (gen_of gens p)) ` set (re_Parents c))))"
      unfolding e by (simp only: unat_parents_gen)
    show "\<forall>p \<in> set (re_Parents c). gen_of gens p < gen_of gens oid"
      using parents_gen_ge [of _ "re_Parents c" gens] e by (auto simp: word_less_nat_alt word_le_nat_alt less_Suc_eq_le)
  qed
qed

theorem generations_exact_witness:
  "acyclic (parent_edges [next_commit, root_commit]) \<and>
   (\<exists>gens. computeGenerations [next_commit, root_commit] = Some gens \<and>
      gen_of gens (re_OID root_commit) < gen_of gens (re_OID next_commit))"
proof
  have edges: "parent_edges [next_commit, root_commit] = {(re_OID root_commit, re_OID next_commit)}"
    by (simp add: parent_edges_def next_commit_def root_commit_def)
  have ne: "re_OID root_commit \<noteq> re_OID next_commit" by (simp add: next_commit_def root_commit_def)
  show acyc: "acyclic (parent_edges [next_commit, root_commit])"
    unfolding edges using ne by (auto simp: acyclic_insert acyclic_def [of "{}"])
  have rec: "cg_record [next_commit, root_commit] (re_OID next_commit) = Some next_commit"
    using ne by (simp add: cg_record_def)
  have par: "re_OID root_commit \<in> set (re_Parents next_commit)" by (simp add: next_commit_def root_commit_def)
  show "\<exists>gens. computeGenerations [next_commit, root_commit] = Some gens \<and>
      gen_of gens (re_OID root_commit) < gen_of gens (re_OID next_commit)"
    using generations_exact [of "[next_commit, root_commit]"] acyc rec par by fastforce
qed

end
