(* ===== verification/Path_Match.thy ===== *)
theory Path_Match
  imports Go_Json
begin

text \<open>
  The glob matcher of the standard library (\<open>path.Match\<close>), which the policy rules use for single
  path segments and for ref names. \<open>None\<close> is \<open>ErrBadPattern\<close>. The main fact is that a pattern is
  malformed for every subject or for none, which is why the rules can be checked once, against
  the empty subject, when they are created.
\<close>

section \<open>Character classes\<close>

definition getEsc :: "string \<Rightarrow> (nat \<times> string) option" where
  "getEsc chunk =
     (if chunk = [] \<or> hd chunk = CHR ''-'' \<or> hd chunk = CHR '']'' then None
      else
        (let body = (if hd chunk = bsl then tl chunk else chunk) in
         if body = [] then None
         else (case decode_rune body of (r, n) \<Rightarrow>
           if (r = 65533 \<and> n = 1) \<or> drop n body = [] then None else Some (r, drop n body))))"

lemma getEsc_Nil [simp]: "getEsc [] = None"
  by (simp add: getEsc_def)

lemma decode_rune_pos: "s \<noteq> [] \<Longrightarrow> decode_rune s = (r, n) \<Longrightarrow> 0 < n"
  by (auto simp: decode_rune_def split: if_splits)

lemma getEsc_length: "getEsc chunk = Some (r, rest) \<Longrightarrow> length rest < length chunk"
proof -
  assume g: "getEsc chunk = Some (r, rest)"
  define body where "body = (if hd chunk = bsl then tl chunk else chunk)"
  have b: "length body \<le> length chunk" "body \<noteq> []"
    using g by (auto simp: getEsc_def body_def Let_def split: if_splits)
  obtain r' n where d: "decode_rune body = (r', n)" by fastforce
  have "rest = drop n body" using g d by (auto simp: getEsc_def body_def [symmetric] Let_def split: if_splits)
  with b decode_rune_pos [OF b(2) d] show ?thesis by (cases body) auto
qed

text \<open>The ranges of a class: whether the rune is in one of them, and what follows the class.\<close>

function class_loop :: "nat \<Rightarrow> bool \<Rightarrow> nat \<Rightarrow> string \<Rightarrow> (bool \<times> string) option" where
  "class_loop r m nrange chunk =
     (if chunk \<noteq> [] \<and> hd chunk = CHR '']'' \<and> nrange > 0 then Some (m, tl chunk)
      else (case getEsc chunk of
        None \<Rightarrow> None
      | Some (lo, c1) \<Rightarrow>
          (case (if hd c1 = CHR ''-'' then getEsc (tl c1) else Some (lo, c1)) of
             None \<Rightarrow> None
           | Some (hi, c2) \<Rightarrow> class_loop r (m \<or> (lo \<le> r \<and> r \<le> hi)) (nrange + 1) c2)))"
  by pat_completeness auto

lemma getEsc_nonempty: "getEsc chunk = Some (r, rest) \<Longrightarrow> rest \<noteq> []"
  by (auto simp: getEsc_def Let_def split: if_splits prod.splits)

lemma range_length:
  assumes "getEsc chunk = Some (lo, c1)" "(if hd c1 = CHR ''-'' then getEsc (tl c1) else Some (lo, c1)) = Some (hi, c2)"
  shows "length c2 < length chunk"
proof (cases "hd c1 = CHR ''-''")
  case True
  with assms(2) have "getEsc (tl c1) = Some (hi, c2)" by simp
  from getEsc_length [OF this] getEsc_length [OF assms(1)] show ?thesis by simp
next
  case False
  with assms getEsc_length [OF assms(1)] show ?thesis by simp
qed

termination class_loop
  by (relation "measure (\<lambda>(r, m, n, chunk). length chunk)") (use range_length in \<open>auto split: if_splits\<close>)

declare class_loop.simps [simp del]

lemma class_loop_step:
  assumes "\<not> (chunk \<noteq> [] \<and> hd chunk = CHR '']'' \<and> n > 0)" "getEsc chunk = Some (lo, c1)"
    "(if hd c1 = CHR ''-'' then getEsc (tl c1) else Some (lo, c1)) = Some (hi, c2)"
  shows "class_loop r m n chunk = class_loop r (m \<or> (lo \<le> r \<and> r \<le> hi)) (n + 1) c2"
  unfolding class_loop.simps [of r m n chunk] assms(2) option.case prod.case assms(3) if_not_P [OF assms(1)] ..

lemma class_loop_length: "class_loop r m n chunk = Some (m', rest) \<Longrightarrow> length rest < length chunk"
proof (induction r m n chunk rule: class_loop.induct)
  case (1 r m n chunk)
  show ?case
  proof (cases "chunk \<noteq> [] \<and> hd chunk = CHR '']'' \<and> n > 0")
    case True
    with 1(2) have "rest = tl chunk" "chunk \<noteq> []" by (simp_all add: class_loop.simps [of r m n chunk])
    then show ?thesis by (cases chunk) auto
  next
    case False
    with 1(2) obtain lo c1 where g: "getEsc chunk = Some (lo, c1)"
      by (auto simp: class_loop.simps [of r m n chunk] split: option.splits)
    with 1(2) False obtain hi c2 where h: "(if hd c1 = CHR ''-'' then getEsc (tl c1) else Some (lo, c1)) = Some (hi, c2)"
      by (auto simp: class_loop.simps [of r m n chunk] simp del: if_split split: option.splits)
    have "class_loop r (m \<or> (lo \<le> r \<and> r \<le> hi)) (n + 1) c2 = Some (m', rest)"
      using 1(2) class_loop_step [OF False g h] by simp
    with 1(1) [OF False g refl h refl] range_length [OF g h] show ?thesis by simp
  qed
qed

lemma class_loop_indep:
  "map_option snd (class_loop r m n chunk) = map_option snd (class_loop r' m' n chunk)"
proof (induction r m n chunk arbitrary: m' rule: class_loop.induct)
  case (1 r m n chunk)
  show ?case
  proof (cases "chunk \<noteq> [] \<and> hd chunk = CHR '']'' \<and> n > 0")
    case True
    then show ?thesis by (simp add: class_loop.simps [of _ _ n chunk])
  next
    case False
    show ?thesis
    proof (cases "getEsc chunk")
      case None
      with False show ?thesis by (simp add: class_loop.simps [of _ _ n chunk])
    next
      case (Some p)
      then obtain lo c1 where g: "getEsc chunk = Some (lo, c1)" by (cases p) auto
      show ?thesis
      proof (cases "if hd c1 = CHR ''-'' then getEsc (tl c1) else Some (lo, c1)")
        case None
        with g False show ?thesis by (simp add: class_loop.simps [of _ _ n chunk])
      next
        case (Some q)
        then obtain hi c2 where h: "(if hd c1 = CHR ''-'' then getEsc (tl c1) else Some (lo, c1)) = Some (hi, c2)"
          by (cases q) auto
        show ?thesis
          unfolding class_loop_step [OF False g h] by (rule 1 [OF False g refl h refl])
      qed
    qed
  qed
qed

section \<open>Chunks\<close>

text \<open>Matching a chunk without stars at the start of a string: \<open>None\<close> for a malformed chunk,
  otherwise what is left of the string, if it matches. After a mismatch the rest of the chunk is
  still parsed.\<close>

function matchChunk :: "bool \<Rightarrow> string \<Rightarrow> string \<Rightarrow> string option option" where
  "matchChunk failed [] s = Some (if failed then None else Some s)"
| "matchChunk failed0 (c # chunk) s =
     (let failed = (failed0 \<or> s = []) in
      if c = CHR ''['' then
        (let r = (if failed then 0 else fst (decode_rune s));
             s1 = (if failed then s else drop (snd (decode_rune s)) s);
             negated = (chunk \<noteq> [] \<and> hd chunk = CHR ''^'') in
         case class_loop r False 0 (if negated then tl chunk else chunk) of
           None \<Rightarrow> None
         | Some (m, rest) \<Rightarrow> matchChunk (failed \<or> m = negated) rest s1)
      else if c = CHR ''?'' then
        (if failed then matchChunk True chunk s
         else matchChunk (hd s = CHR ''/'') chunk (drop (snd (decode_rune s)) s))
      else (case (if c = bsl then chunk else c # chunk) of
        [] \<Rightarrow> None
      | d # rest \<Rightarrow> if failed then matchChunk True rest s else matchChunk (d \<noteq> hd s) rest (tl s)))"
  by pat_completeness auto

termination matchChunk
  by (relation "measure (\<lambda>(f, chunk, s). length chunk)")
    (auto dest!: class_loop_length split: if_splits)

declare matchChunk.simps(2) [simp del]

text \<open>Whether a chunk is malformed does not depend on the string.\<close>

lemma matchChunk_indep: "matchChunk f chunk s = None \<longleftrightarrow> matchChunk f' chunk s' = None"
proof (induction chunk arbitrary: f s f' s' rule: measure_induct_rule [where f = length])
  case (less chunk)
  show ?case
  proof (cases chunk)
    case (Cons c cs)
    show ?thesis
    proof (cases "c = CHR ''[''")
      case True
      define body where "body = (if cs \<noteq> [] \<and> hd cs = CHR ''^'' then tl cs else cs)"
      have unf: "\<exists>r g t. matchChunk f chunk s =
          (case class_loop r False 0 body of None \<Rightarrow> None | Some (m, rest) \<Rightarrow> matchChunk (g m) rest t)" for f s
        unfolding Cons matchChunk.simps(2) Let_def body_def True simp_thms if_True
        by (intro exI [of _ "if f \<or> s = [] then 0 else fst (decode_rune s)"]
            exI [of _ "\<lambda>m. (f \<or> s = []) \<or> m = (cs \<noteq> [] \<and> hd cs = CHR ''^'')"]
            exI [of _ "if f \<or> s = [] then s else drop (snd (decode_rune s)) s"] refl)
      obtain r g t where 1: "matchChunk f chunk s =
          (case class_loop r False 0 body of None \<Rightarrow> None | Some (m, rest) \<Rightarrow> matchChunk (g m) rest t)"
        using unf by blast
      obtain r' g' t' where 2: "matchChunk f' chunk s' =
          (case class_loop r' False 0 body of None \<Rightarrow> None | Some (m, rest) \<Rightarrow> matchChunk (g' m) rest t')"
        using unf by blast
      have i: "map_option snd (class_loop r False 0 body) = map_option snd (class_loop r' False 0 body)"
        by (rule class_loop_indep)
      have sh: "length rest < length chunk" if "class_loop q False 0 body = Some (m, rest)" for q m rest
        using class_loop_length [OF that] by (auto simp: body_def Cons split: if_splits)
      show ?thesis
      proof (cases "class_loop r False 0 body")
        case None
        with i show ?thesis by (simp add: 1 2)
      next
        case (Some p)
        then obtain m rest where p: "class_loop r False 0 body = Some (m, rest)" by (cases p) simp
        with i have "map_option snd (class_loop r' False 0 body) = Some rest" by simp
        then obtain q where q: "class_loop r' False 0 body = Some q" "snd q = rest" by (auto simp del: split_paired_Ex)
        then have p': "class_loop r' False 0 body = Some (fst q, rest)" by auto
        show ?thesis
          unfolding 1 2 p p' option.case prod.case by (rule less [OF sh [OF p]])
      qed
    next
      case False
      show ?thesis
      proof (cases "c = CHR ''?''")
        case True
        have unf: "\<exists>g t. matchChunk f chunk s = matchChunk g cs t" for f s
          unfolding Cons matchChunk.simps(2) Let_def if_not_P [OF False] if_P [OF True] by (cases "f \<or> s = []") auto
        obtain g t g' t' where "matchChunk f chunk s = matchChunk g cs t" "matchChunk f' chunk s' = matchChunk g' cs t'"
          using unf by blast
        with less [of cs g t g' t'] Cons show ?thesis by simp
      next
        case c: False
        show ?thesis
        proof (cases "if c = bsl then cs else c # cs")
          case Nil
          with False c show ?thesis unfolding Cons matchChunk.simps(2) Let_def by simp
        next
          case (Cons d rest)
          then have "length rest < length chunk" using \<open>chunk = c # cs\<close> by (auto split: if_splits)
          moreover have unf: "\<exists>g t. matchChunk f chunk s = matchChunk g rest t" for f s
            unfolding \<open>chunk = c # cs\<close> matchChunk.simps(2) Let_def if_not_P [OF False] if_not_P [OF c] Cons list.case
            by (cases "f \<or> s = []") auto
          obtain g t g' t' where "matchChunk f chunk s = matchChunk g rest t" "matchChunk f' chunk s' = matchChunk g' rest t'"
            using unf by blast
          ultimately show ?thesis using less [of rest g t g' t'] by simp
        qed
      qed
    qed
  qed simp
qed

section \<open>Patterns\<close>

fun scan_rest :: "bool \<Rightarrow> string \<Rightarrow> string \<times> string" where
  "scan_rest inrange [] = ([], [])"
| "scan_rest inrange (c # cs) =
     (if c = bsl then
        (case cs of
           [] \<Rightarrow> ([c], [])
         | d # ds \<Rightarrow> (case scan_rest inrange ds of (a, b) \<Rightarrow> (c # d # a, b)))
      else if c = CHR ''*'' \<and> \<not> inrange then ([], c # cs)
      else (case scan_rest (if c = CHR ''['' then True else if c = CHR '']'' then False else inrange) cs of
        (a, b) \<Rightarrow> (c # a, b)))"

definition scanChunk :: "string \<Rightarrow> bool \<times> string \<times> string" where
  "scanChunk p =
     (case scan_rest False (dropWhile (\<lambda>c. c = CHR ''*'') p) of
        (a, b) \<Rightarrow> (p \<noteq> [] \<and> hd p = CHR ''*'', a, b))"

lemma scan_rest_append: "scan_rest i p = (a, b) \<Longrightarrow> p = a @ b"
proof (induction i p arbitrary: a b rule: scan_rest.induct)
  case (2 i c cs)
  then show ?case by (auto split: if_splits list.splits prod.splits)
qed simp

lemma scan_rest_nonempty: "p \<noteq> [] \<Longrightarrow> hd p \<noteq> CHR ''*'' \<Longrightarrow> fst (scan_rest False p) \<noteq> []"
proof (cases p)
  case (Cons c cs)
  moreover assume "hd p \<noteq> CHR ''*''"
  ultimately show ?thesis
    unfolding Cons scan_rest.simps(2) by (auto simp del: scan_rest.simps split: list.splits prod.splits)
qed simp

declare scan_rest.simps [simp del]

lemma scanChunk_length:
  assumes "scanChunk p = (star, chunk, rest)" "p \<noteq> []"
  shows "length rest < length p" "\<not> star \<Longrightarrow> chunk \<noteq> []" "chunk = [] \<Longrightarrow> rest = []"
proof -
  define q where "q = dropWhile (\<lambda>c. c = CHR ''*'') p"
  have sr: "scan_rest False q = (chunk, rest)" and st: "star = (hd p = CHR ''*'')"
    using assms by (auto simp: scanChunk_def q_def split: prod.splits)
  have q: "q = chunk @ rest" by (rule scan_rest_append [OF sr])
  have ne: "chunk \<noteq> []" if "q \<noteq> []"
    using scan_rest_nonempty [OF that] hd_dropWhile [OF that [unfolded q_def]] sr by (simp add: q_def [symmetric])
  have le: "length q \<le> length p" unfolding q_def by (rule length_dropWhile_le)
  show e: "chunk = [] \<Longrightarrow> rest = []" using ne q by blast
  show "\<not> star \<Longrightarrow> chunk \<noteq> []"
  proof -
    assume "\<not> star"
    then have "q = p" using st assms(2) by (cases p) (simp_all add: q_def)
    with ne assms(2) show ?thesis by simp
  qed
  show "length rest < length p"
  proof (cases "chunk = []")
    case True
    with e assms(2) show ?thesis by simp
  next
    case False
    then have "0 < length chunk" by simp
    with q le show ?thesis by (simp del: length_greater_0_conv)
  qed
qed

text \<open>The loop that lets a star skip bytes, and the check of what is left of the pattern before a
  mismatch is reported.\<close>

fun star_try :: "string \<Rightarrow> bool \<Rightarrow> string \<Rightarrow> string option option" where
  "star_try chunk final [] = Some None"
| "star_try chunk final (x # xs) =
     (if x = CHR ''/'' then Some None
      else (case matchChunk False chunk xs of
        None \<Rightarrow> None
      | Some None \<Rightarrow> star_try chunk final xs
      | Some (Some t) \<Rightarrow> if final \<and> t \<noteq> [] then star_try chunk final xs else Some (Some t)))"

function rest_ok :: "string \<Rightarrow> bool" where
  "rest_ok p =
     (if p = [] then True
      else (case scanChunk p of (_, chunk, rest) \<Rightarrow> if matchChunk False chunk [] = None then False else rest_ok rest))"
  by pat_completeness auto
termination rest_ok
  by (relation "measure length") (auto dest: scanChunk_length(1) [OF sym])

declare rest_ok.simps [simp del]

lemma rest_ok_Nil [simp]: "rest_ok []"
  by (simp add: rest_ok.simps)

function path_Match :: "string \<Rightarrow> string \<Rightarrow> bool option" where
  "path_Match pattern name =
     (if pattern = [] then Some (name = [])
      else (case scanChunk pattern of (star, chunk, rest) \<Rightarrow>
        if star \<and> chunk = [] then Some (CHR ''/'' \<notin> set name)
        else (case matchChunk False chunk name of
          None \<Rightarrow> None
        | Some m \<Rightarrow>
            if m \<noteq> None \<and> (the m = [] \<or> rest \<noteq> []) then path_Match rest (the m)
            else (case (if star then star_try chunk (rest = []) name else Some None) of
              None \<Rightarrow> None
            | Some (Some t) \<Rightarrow> path_Match rest t
            | Some None \<Rightarrow> if rest_ok rest then Some False else None))))"
  by pat_completeness auto
termination path_Match
  by (relation "measure (\<lambda>(p, n). length p)") (auto dest: scanChunk_length(1) [OF sym])

declare path_Match.simps [simp del]

lemma star_try_error: "matchChunk False chunk [] \<noteq> None \<Longrightarrow> star_try chunk final s \<noteq> None"
proof (induction s)
  case (Cons x xs)
  then have "matchChunk False chunk xs \<noteq> None"
    using matchChunk_indep [of False chunk xs False "[]"] by simp
  with Cons show ?case by (auto split: option.splits)
qed simp

theorem path_Match_error: "path_Match p s = None \<longleftrightarrow> \<not> rest_ok p"
proof (induction p s rule: path_Match.induct)
  case (1 p s)
  show ?case
  proof (cases "p = []")
    case True
    then show ?thesis by (simp add: path_Match.simps rest_ok.simps)
  next
    case False
    obtain star chunk rest where sc: "scanChunk p = (star, chunk, rest)" by (metis prod_cases3)
    note l = scanChunk_length [OF sc False]
    have rk: "rest_ok p \<longleftrightarrow> matchChunk False chunk [] \<noteq> None \<and> rest_ok rest"
      using sc False by (simp add: rest_ok.simps [of p])
    show ?thesis
    proof (cases "star \<and> chunk = []")
      case True
      then show ?thesis using rk l(3) sc False by (simp add: path_Match.simps [of p])
    next
      case ns: False
      show ?thesis
      proof (cases "matchChunk False chunk s")
        case None
        then show ?thesis
          using matchChunk_indep [of False chunk s False "[]"] rk sc False ns by (simp add: path_Match.simps [of p])
      next
        case (Some m)
        then have ok: "matchChunk False chunk [] \<noteq> None"
          using matchChunk_indep [of False chunk s False "[]"] by simp
        show ?thesis
        proof (cases "m \<noteq> None \<and> (the m = [] \<or> rest \<noteq> [])")
          case True
          have "path_Match p s = path_Match rest (the m)"
            unfolding path_Match.simps [of p] if_not_P [OF False] sc prod.case if_not_P [OF ns] Some option.case if_P [OF True] ..
          moreover have "path_Match rest (the m) = None \<longleftrightarrow> \<not> rest_ok rest"
            by (rule 1(1) [OF False sc [symmetric] refl ns Some True])
          ultimately show ?thesis using rk ok by simp
        next
          case nm: False
          let ?st = "if star then star_try chunk (rest = []) s else Some None"
          have "?st \<noteq> None" using star_try_error [OF ok] by simp
          then obtain q where q: "?st = Some q" by blast
          show ?thesis
          proof (cases q)
            case None
            have "path_Match p s = (if rest_ok rest then Some False else None)"
              unfolding path_Match.simps [of p] if_not_P [OF False] sc prod.case if_not_P [OF ns] Some option.case
                if_not_P [OF nm] q None ..
            then show ?thesis using rk ok by simp
          next
            case t: (Some t)
            have "path_Match p s = path_Match rest t"
              unfolding path_Match.simps [of p] if_not_P [OF False] sc prod.case if_not_P [OF ns] Some option.case
                if_not_P [OF nm] q t ..
            moreover have "path_Match rest t = None \<longleftrightarrow> \<not> rest_ok rest"
              using 1(2) [OF False sc [symmetric] refl ns Some nm] q t by simp
            ultimately show ?thesis using rk ok by simp
          qed
        qed
      qed
    qed
  qed
qed

lemma path_Match_valid: "path_Match p s \<noteq> None \<Longrightarrow> path_Match p s' \<noteq> None"
  by (simp add: path_Match_error)

end
