(* ===== verification/Policy.thy ===== *)
theory Policy
  imports Path_Match "HOL-Library.Product_Lexorder"
begin

text \<open>
  Protected refs and protected paths (\<open>internal/policy\<close>): the path matcher with \<open>**\<close>, memoised over
  (pattern index, path index) and bounded by a budget of states per match and per push, the two
  rule tables with their validated inserts, and the two checks of a push. The SQL tables are
  lists of rows in insertion order; a call's database error and the verdict of
  \<open>git merge-base\<close> are arguments.
\<close>

section \<open>The path matcher\<close>

definition maxPathPatternDblStars :: nat where "maxPathPatternDblStars = 2"
definition maxPathPatternSegments :: nat where "maxPathPatternSegments = 64"
definition maxPathMatchStates :: nat where "maxPathMatchStates = 64 * 1024"
definition maxCheckPathsMatchStates :: nat where "maxCheckPathsMatchStates = 256 * 1024"

record pathMatchBudget =
  used :: nat
  limit :: nat

datatype match_err = MBadPattern | MEmptyPath | MStates | MAggregate

type_synonym match_result = "match_err + bool"

record walk_state =
  ws_memo :: "((nat \<times> nat) \<times> match_result) list"
  ws_states :: nat
  ws_agg :: "pathMatchBudget option"

definition charge :: "pathMatchBudget option \<Rightarrow> pathMatchBudget option" where
  "charge agg = map_option (\<lambda>b. b\<lparr>used := used b + 1\<rparr>) agg"

definition over :: "pathMatchBudget option \<Rightarrow> bool" where
  "over agg = (case agg of None \<Rightarrow> False | Some b \<Rightarrow> used b > limit b)"

abbreviation dblStar :: string where "dblStar \<equiv> ''**''"

function walk :: "string list \<Rightarrow> string list \<Rightarrow> nat \<Rightarrow> nat \<Rightarrow> walk_state \<Rightarrow> match_result \<times> walk_state" where
  "walk pat path i j st =
     (case map_of (ws_memo st) (i, j) of
        Some v \<Rightarrow> (v, st)
      | None \<Rightarrow>
          if ws_states st + 1 > maxPathMatchStates then (Inl MStates, st\<lparr>ws_states := ws_states st + 1\<rparr>)
          else
            (let st2 = st\<lparr>ws_states := ws_states st + 1, ws_agg := charge (ws_agg st)\<rparr> in
             if over (ws_agg st2) then (Inl MAggregate, st2)
             else
               (case (if i \<ge> length pat then (Inr (j = length path), st2)
                      else if pat ! i = dblStar then
                        (if i + 1 = length pat then (Inr (j < length path), st2)
                         else (case walk pat path (i + 1) j st2 of
                           (Inl e, s) \<Rightarrow> (Inl e, s)
                         | (Inr b, s) \<Rightarrow>
                             if b then (Inr True, s)
                             else if j < length path then walk pat path i (j + 1) s
                             else (Inr False, s)))
                      else if j \<ge> length path then (Inr False, st2)
                      else (case path_Match (pat ! i) (path ! j) of
                        None \<Rightarrow> (Inl MBadPattern, st2)
                      | Some b \<Rightarrow> if b then walk pat path (i + 1) (j + 1) st2 else (Inr False, st2)))
                of (res, st3) \<Rightarrow> (res, st3\<lparr>ws_memo := ((i, j), res) # ws_memo st3\<rparr>))))"
  by pat_completeness auto
termination walk
  by (relation "measure (\<lambda>(pat, path, i, j, st). (length pat - i) + (length path - j))") auto

declare walk.simps [simp del]

definition matchSegments ::
  "string list \<Rightarrow> string list \<Rightarrow> pathMatchBudget option \<Rightarrow> match_result \<times> pathMatchBudget option" where
  "matchSegments pat path agg =
     (case walk pat path 0 0 \<lparr>ws_memo = [], ws_states = 0, ws_agg = agg\<rparr> of (r, st) \<Rightarrow> (r, ws_agg st))"

datatype pattern_err =
  PEmpty | PLeading | PTrailing | PDouble | PEmptySegment | PBadSegment string | PSegments nat | PStars nat

fun bad_segment_of :: "string list \<Rightarrow> pattern_err option" where
  "bad_segment_of [] = None"
| "bad_segment_of (seg # segs) =
     (if seg = [] then Some PEmptySegment
      else if seg = dblStar then bad_segment_of segs
      else if path_Match seg [] = None then Some (PBadSegment seg)
      else bad_segment_of segs)"

definition validatePathPatternSyntax :: "string \<Rightarrow> pattern_err option" where
  "validatePathPatternSyntax pattern =
     (if pattern = [] then Some PEmpty
      else if has_prefix pattern ''/'' then Some PLeading
      else if has_suffix pattern ''/'' then Some PTrailing
      else if str_contains pattern ''//'' then Some PDouble
      else bad_segment_of (str_split (CHR ''/'') pattern))"

fun count_stars :: "nat \<Rightarrow> string list \<Rightarrow> nat option" where
  "count_stars n [] = None"
| "count_stars n (seg # segs) =
     (if seg = dblStar then (if n + 1 > maxPathPatternDblStars then Some (n + 1) else count_stars (n + 1) segs)
      else count_stars n segs)"

definition ValidatePathPattern :: "string \<Rightarrow> pattern_err option" where
  "ValidatePathPattern pattern =
     (case validatePathPatternSyntax pattern of
        Some e \<Rightarrow> Some e
      | None \<Rightarrow>
          (let segs = str_split (CHR ''/'') pattern in
           if length segs > maxPathPatternSegments then Some (PSegments (length segs))
           else map_option PStars (count_stars 0 segs)))"

definition matchPathWithBudget ::
  "string \<Rightarrow> string \<Rightarrow> pathMatchBudget option \<Rightarrow> match_result \<times> pathMatchBudget option" where
  "matchPathWithBudget pattern p agg =
     (if validatePathPatternSyntax pattern \<noteq> None then (Inl MBadPattern, agg)
      else if p = [] then (Inl MEmptyPath, agg)
      else matchSegments (str_split (CHR ''/'') pattern) (str_split (CHR ''/'') p) agg)"

definition MatchPath :: "string \<Rightarrow> string \<Rightarrow> match_result" where
  "MatchPath pattern p = fst (matchPathWithBudget pattern p None)"

section \<open>Rules and checks\<close>

record ProtectedRef =
  pf_Tenant :: string
  pf_Repo :: string
  pf_RefnamePattern :: string
  pf_BlockDeletion :: bool
  pf_BlockForcePush :: bool
  pf_CreatedAt :: int

record ProtectedPath =
  pp_Tenant :: string
  pp_Repo :: string
  pp_RefnamePattern :: string
  pp_PathPattern :: string
  pp_CreatedAt :: int

text \<open>The two tables of the policy database.\<close>

record policy_db =
  pd_refs :: "ProtectedRef list"
  pd_paths :: "ProtectedPath list"

datatype policy_err =
  PolInvalidInput | PolNotFound | PolDB string | PolBadPattern string | PolMatch string match_err | PolMergeBase string

record PolicyError =
  pe_Refname :: string
  pe_MatchedPattern :: string
  pe_Reason :: string
  pe_OldOID :: string
  pe_NewOID :: string
  pe_MatchedPath :: string

datatype verdict = Accept | Reject PolicyError | Fail policy_err

definition pe_text :: "PolicyError \<Rightarrow> string" where
  "pe_text e = ''protected-branch: '' @ pe_Reason e @ '' by pattern '' @ pe_MatchedPattern e
     @ '' (refname='' @ pe_Refname e @ '')'' @ (if pe_MatchedPath e \<noteq> [] then '' path='' @ pe_MatchedPath e else [])"

definition MetricOutcome :: "PolicyError \<Rightarrow> string" where
  "MetricOutcome e =
     (if pe_Reason e = ''deletion blocked'' then ''blocked_deletion''
      else if pe_Reason e = ''non-fast-forward push blocked'' then ''blocked_force_push''
      else if pe_Reason e = ''blocked_path'' then ''blocked_path''
      else ''blocked_other'')"

type_synonym db_fault = "string option"

definition policy_Add :: "int \<Rightarrow> db_fault \<Rightarrow> ProtectedRef \<Rightarrow> policy_db \<Rightarrow> policy_err option \<times> policy_db" where
  "policy_Add now fault r db =
     (if pf_RefnamePattern r = [] then (Some PolInvalidInput, db)
      else if path_Match (pf_RefnamePattern r) [] = None then (Some PolInvalidInput, db)
      else (case fault of
        Some e \<Rightarrow> (Some (PolDB e), db)
      | None \<Rightarrow>
          (let same = (\<lambda>x. pf_Tenant x = pf_Tenant r \<and> pf_Repo x = pf_Repo r \<and> pf_RefnamePattern x = pf_RefnamePattern r) in
           if list_ex same (pd_refs db) then
             (None, db\<lparr>pd_refs := map (\<lambda>x. if same x
                then x\<lparr>pf_BlockDeletion := pf_BlockDeletion r, pf_BlockForcePush := pf_BlockForcePush r\<rparr> else x) (pd_refs db)\<rparr>)
           else (None, db\<lparr>pd_refs := pd_refs db @ [r\<lparr>pf_CreatedAt := now\<rparr>]\<rparr>))))"

definition policy_List :: "db_fault \<Rightarrow> policy_db \<Rightarrow> string \<Rightarrow> string \<Rightarrow> policy_err + ProtectedRef list" where
  "policy_List fault db tenant repo = (case fault of
     Some e \<Rightarrow> Inl (PolDB e)
   | None \<Rightarrow> Inr (sort_by pf_RefnamePattern (filter (\<lambda>x. pf_Tenant x = tenant \<and> pf_Repo x = repo) (pd_refs db))))"

definition policy_Remove :: "db_fault \<Rightarrow> string \<Rightarrow> string \<Rightarrow> string \<Rightarrow> policy_db \<Rightarrow> policy_err option \<times> policy_db" where
  "policy_Remove fault tenant repo pattern db = (case fault of
     Some e \<Rightarrow> (Some (PolDB e), db)
   | None \<Rightarrow> (None, db\<lparr>pd_refs := filter
        (\<lambda>x. \<not> (pf_Tenant x = tenant \<and> pf_Repo x = repo \<and> pf_RefnamePattern x = pattern)) (pd_refs db)\<rparr>))"

definition same_path_rule :: "string \<Rightarrow> string \<Rightarrow> string \<Rightarrow> string \<Rightarrow> ProtectedPath \<Rightarrow> bool" where
  "same_path_rule tenant repo refpat pathpat x \<longleftrightarrow>
     pp_Tenant x = tenant \<and> pp_Repo x = repo \<and> pp_RefnamePattern x = refpat \<and> pp_PathPattern x = pathpat"

definition AddPathRule :: "int \<Rightarrow> db_fault \<Rightarrow> ProtectedPath \<Rightarrow> policy_db \<Rightarrow> policy_err option \<times> policy_db" where
  "AddPathRule now fault r db =
     (if pp_Tenant r = [] \<or> pp_Repo r = [] \<or> pp_RefnamePattern r = [] \<or> pp_PathPattern r = [] then (Some PolInvalidInput, db)
      else if ValidatePathPattern (pp_PathPattern r) \<noteq> None then (Some PolInvalidInput, db)
      else if path_Match (pp_RefnamePattern r) [] = None then (Some PolInvalidInput, db)
      else (case fault of
        Some e \<Rightarrow> (Some (PolDB e), db)
      | None \<Rightarrow>
          if list_ex (same_path_rule (pp_Tenant r) (pp_Repo r) (pp_RefnamePattern r) (pp_PathPattern r)) (pd_paths db)
          then (None, db)
          else (None, db\<lparr>pd_paths := pd_paths db @ [r\<lparr>pp_CreatedAt := now\<rparr>]\<rparr>)))"

definition ListPathRules :: "db_fault \<Rightarrow> policy_db \<Rightarrow> string \<Rightarrow> string \<Rightarrow> policy_err + ProtectedPath list" where
  "ListPathRules fault db tenant repo = (case fault of
     Some e \<Rightarrow> Inl (PolDB e)
   | None \<Rightarrow> Inr (sort_by (\<lambda>x. (pp_RefnamePattern x, pp_PathPattern x))
       (filter (\<lambda>x. pp_Tenant x = tenant \<and> pp_Repo x = repo) (pd_paths db))))"

definition RemovePathRule ::
  "db_fault \<Rightarrow> string \<Rightarrow> string \<Rightarrow> string \<Rightarrow> string \<Rightarrow> policy_db \<Rightarrow> policy_err option \<times> policy_db" where
  "RemovePathRule fault tenant repo refpat pathpat db = (case fault of
     Some e \<Rightarrow> (Some (PolDB e), db)
   | None \<Rightarrow>
       (let kept = filter (\<lambda>x. \<not> same_path_rule tenant repo refpat pathpat x) (pd_paths db) in
        if length kept = length (pd_paths db) then (Some PolNotFound, db)
        else (None, db\<lparr>pd_paths := kept\<rparr>)))"

fun check_changed ::
  "string \<Rightarrow> string \<Rightarrow> string list \<Rightarrow> pathMatchBudget option \<Rightarrow> verdict \<times> pathMatchBudget option" where
  "check_changed refname pattern [] budget = (Accept, budget)"
| "check_changed refname pattern (changed # rest) budget =
     (case matchPathWithBudget pattern changed budget of
        (Inl e, budget1) \<Rightarrow> (Fail (PolMatch pattern e), budget1)
      | (Inr ok, budget1) \<Rightarrow>
          if ok then
            (Reject \<lparr>pe_Refname = refname, pe_MatchedPattern = pattern, pe_Reason = ''blocked_path'',
               pe_OldOID = [], pe_NewOID = [], pe_MatchedPath = changed\<rparr>, budget1)
          else check_changed refname pattern rest budget1)"

fun check_path_rules ::
  "string \<Rightarrow> string list \<Rightarrow> ProtectedPath list \<Rightarrow> pathMatchBudget option \<Rightarrow> verdict \<times> pathMatchBudget option" where
  "check_path_rules refname changedPaths [] budget = (Accept, budget)"
| "check_path_rules refname changedPaths (rule # rules) budget =
     (if path_Match (pp_RefnamePattern rule) refname \<noteq> Some True
      then check_path_rules refname changedPaths rules budget
      else (case check_changed refname (pp_PathPattern rule) changedPaths budget of
        (Accept, budget1) \<Rightarrow> check_path_rules refname changedPaths rules budget1
      | (v, budget1) \<Rightarrow> (v, budget1)))"

definition push_budget :: pathMatchBudget where
  "push_budget = \<lparr>used = 0, limit = maxCheckPathsMatchStates\<rparr>"

definition CheckPaths :: "db_fault \<Rightarrow> policy_db \<Rightarrow> string \<Rightarrow> string \<Rightarrow> string \<Rightarrow> string list \<Rightarrow> verdict" where
  "CheckPaths fault db tenant repo refname changedPaths =
     (if changedPaths = [] then Accept
      else (case ListPathRules fault db tenant repo of
        Inl e \<Rightarrow> Fail e
      | Inr rules \<Rightarrow> fst (check_path_rules refname changedPaths rules (Some push_budget))))"

text \<open>The verdict of \<open>git merge-base --is-ancestor\<close> by its exit status: \<open>None\<close> when the process could
  not be run.\<close>

definition isFastForward :: "(string \<Rightarrow> string \<Rightarrow> int option) \<Rightarrow> string \<Rightarrow> string \<Rightarrow> string + bool" where
  "isFastForward mergeBase oldOID newOID = (case mergeBase oldOID newOID of
     None \<Rightarrow> Inl ''run''
   | Some status \<Rightarrow> if status = 0 then Inr True else if status = 1 then Inr False else Inl ''exit'')"

fun check_ref_rules ::
  "(string \<Rightarrow> string \<Rightarrow> int option) \<Rightarrow> string \<Rightarrow> string \<Rightarrow> string \<Rightarrow> ProtectedRef list \<Rightarrow> verdict" where
  "check_ref_rules mb refname oldOID newOID [] = Accept"
| "check_ref_rules mb refname oldOID newOID (r # rules) =
     (let isDeletion = (newOID = NullOIDHex); isCreation = (oldOID = NullOIDHex);
          isUpdate = (\<not> isDeletion \<and> \<not> isCreation);
          reject = (\<lambda>reason. Reject \<lparr>pe_Refname = refname, pe_MatchedPattern = pf_RefnamePattern r, pe_Reason = reason,
             pe_OldOID = oldOID, pe_NewOID = newOID, pe_MatchedPath = []\<rparr>) in
      case path_Match (pf_RefnamePattern r) refname of
        None \<Rightarrow> Fail (PolBadPattern (pf_RefnamePattern r))
      | Some matched \<Rightarrow>
          if \<not> matched then check_ref_rules mb refname oldOID newOID rules
          else if isDeletion \<and> pf_BlockDeletion r then reject ''deletion blocked''
          else if isUpdate \<and> pf_BlockForcePush r then
            (case isFastForward mb oldOID newOID of
               Inl e \<Rightarrow> Fail (PolMergeBase e)
             | Inr isFF \<Rightarrow>
                 if \<not> isFF then reject ''non-fast-forward push blocked''
                 else check_ref_rules mb refname oldOID newOID rules)
          else check_ref_rules mb refname oldOID newOID rules)"

definition CheckUpdate ::
  "(string \<Rightarrow> string \<Rightarrow> int option) \<Rightarrow> db_fault \<Rightarrow> policy_db \<Rightarrow> string \<Rightarrow> string \<Rightarrow> string \<Rightarrow> string \<Rightarrow> string \<Rightarrow> verdict" where
  "CheckUpdate mb fault db tenant repo refname oldOID newOID =
     (case policy_List fault db tenant repo of
        Inl e \<Rightarrow> Fail e
      | Inr rules \<Rightarrow> if rules = [] then Accept else check_ref_rules mb refname oldOID newOID rules)"

section \<open>What a pattern means\<close>

text \<open>The reference semantics: a plain recursion over the two lists of segments.\<close>

fun seg_match :: "string list \<Rightarrow> string list \<Rightarrow> bool" where
  "seg_match [] ps = (ps = [])"
| "seg_match (q # qs) [] = (if q = dblStar then qs \<noteq> [] \<and> seg_match qs [] else False)"
| "seg_match (q # qs) (p # ps) =
     (if q = dblStar then (if qs = [] then True else seg_match qs (p # ps) \<or> seg_match (q # qs) ps)
      else path_Match q p = Some True \<and> seg_match qs ps)"

definition segs_valid :: "string list \<Rightarrow> bool" where
  "segs_valid pat \<longleftrightarrow> (\<forall>q \<in> set pat. q = dblStar \<or> path_Match q [] \<noteq> None)"

abbreviation keys_of :: "walk_state \<Rightarrow> (nat \<times> nat) set" where
  "keys_of st \<equiv> fst ` set (ws_memo st)"

abbreviation means :: "string list \<Rightarrow> string list \<Rightarrow> nat \<Rightarrow> nat \<Rightarrow> bool" where
  "means pat path i j \<equiv> seg_match (drop i pat) (drop j path)"

definition memo_ok :: "string list \<Rightarrow> string list \<Rightarrow> walk_state \<Rightarrow> bool" where
  "memo_ok pat path st \<longleftrightarrow> (\<forall>((a, b), v) \<in> set (ws_memo st). v = Inr (means pat path a b))"

text \<open>What a state of the matcher computes before it is memoised.\<close>

definition walk_body ::
  "string list \<Rightarrow> string list \<Rightarrow> nat \<Rightarrow> nat \<Rightarrow> walk_state \<Rightarrow> match_result \<times> walk_state" where
  "walk_body pat path i j st2 =
     (if i \<ge> length pat then (Inr (j = length path), st2)
      else if pat ! i = dblStar then
        (if i + 1 = length pat then (Inr (j < length path), st2)
         else (case walk pat path (i + 1) j st2 of
           (Inl e, s) \<Rightarrow> (Inl e, s)
         | (Inr b, s) \<Rightarrow>
             if b then (Inr True, s)
             else if j < length path then walk pat path i (j + 1) s
             else (Inr False, s)))
      else if j \<ge> length path then (Inr False, st2)
      else (case path_Match (pat ! i) (path ! j) of
        None \<Rightarrow> (Inl MBadPattern, st2)
      | Some b \<Rightarrow> if b then walk pat path (i + 1) (j + 1) st2 else (Inr False, st2)))"

abbreviation visit :: "walk_state \<Rightarrow> walk_state" where
  "visit st \<equiv> st\<lparr>ws_states := ws_states st + 1, ws_agg := charge (ws_agg st)\<rparr>"

lemma walk_cases:
  assumes "walk pat path i j st = (r, st')"
  obtains (memo) v where "map_of (ws_memo st) (i, j) = Some v" "r = v" "st' = st"
  | (states) "map_of (ws_memo st) (i, j) = None" "ws_states st \<ge> maxPathMatchStates" "r = Inl MStates"
      "st' = st\<lparr>ws_states := ws_states st + 1\<rparr>"
  | (agg) "map_of (ws_memo st) (i, j) = None" "ws_states st < maxPathMatchStates" "over (ws_agg (visit st))"
      "r = Inl MAggregate" "st' = visit st"
  | (body) st3 where "map_of (ws_memo st) (i, j) = None" "ws_states st < maxPathMatchStates"
      "\<not> over (ws_agg (visit st))" "walk_body pat path i j (visit st) = (r, st3)"
      "st' = st3\<lparr>ws_memo := ((i, j), r) # ws_memo st3\<rparr>"
proof -
  have eq: "walk pat path i j st = (case map_of (ws_memo st) (i, j) of
        Some v \<Rightarrow> (v, st)
      | None \<Rightarrow>
          if ws_states st + 1 > maxPathMatchStates then (Inl MStates, st\<lparr>ws_states := ws_states st + 1\<rparr>)
          else if over (ws_agg (visit st)) then (Inl MAggregate, visit st)
          else (case walk_body pat path i j (visit st) of (res, st3) \<Rightarrow> (res, st3\<lparr>ws_memo := ((i, j), res) # ws_memo st3\<rparr>)))"
    unfolding walk_body_def walk.simps [of pat path i j st] Let_def ..
  obtain r3 st3 where b: "walk_body pat path i j (visit st) = (r3, st3)" by fastforce
  show thesis
  proof (cases "map_of (ws_memo st) (i, j)")
    case (Some v)
    with eq assms memo show ?thesis by simp
  next
    case None
    consider "ws_states st \<ge> maxPathMatchStates" | "ws_states st < maxPathMatchStates" "over (ws_agg (visit st))"
      | "ws_states st < maxPathMatchStates" "\<not> over (ws_agg (visit st))" by linarith
    then show ?thesis
    proof cases
      case 1
      with eq assms None have "r = Inl MStates" "st' = st\<lparr>ws_states := ws_states st + 1\<rparr>" by simp_all
      with states None 1 show ?thesis by blast
    next
      case 2
      with eq assms None have "r = Inl MAggregate" "st' = visit st" by simp_all
      with agg None 2 show ?thesis by blast
    next
      case 3
      with eq assms None b have "r3 = r" "st' = st3\<lparr>ws_memo := ((i, j), r) # ws_memo st3\<rparr>" by simp_all
      with body None 3 b show ?thesis by blast
    qed
  qed
qed

lemma means_end: "length pat \<le> i \<Longrightarrow> j \<le> length path \<Longrightarrow> means pat path i j = (j = length path)"
  by auto

lemma means_last:
  "i < length pat \<Longrightarrow> pat ! i = dblStar \<Longrightarrow> i + 1 = length pat \<Longrightarrow> j \<le> length path \<Longrightarrow>
   means pat path i j = (j < length path)"
  by (cases "j < length path") (simp_all add: Cons_nth_drop_Suc [symmetric])

lemma means_star:
  assumes "i < length pat" "pat ! i = dblStar" "i + 1 \<noteq> length pat"
  shows "means pat path i j = (means pat path (i + 1) j \<or> (j < length path \<and> means pat path i (j + 1)))"
proof -
  have d: "drop i pat = dblStar # drop (i + 1) pat" "drop (i + 1) pat \<noteq> []"
    using assms by (simp_all add: Cons_nth_drop_Suc [symmetric])
  show ?thesis
  proof (cases "j < length path")
    case True
    then have "drop j path = path ! j # drop (j + 1) path" by (simp add: Cons_nth_drop_Suc)
    with d True show ?thesis by simp
  next
    case False
    with d show ?thesis by simp
  qed
qed

lemma means_one:
  assumes "i < length pat" "pat ! i \<noteq> dblStar"
  shows "means pat path i j = (j < length path \<and> path_Match (pat ! i) (path ! j) = Some True \<and> means pat path (i + 1) (j + 1))"
proof -
  have d: "drop i pat = pat ! i # drop (i + 1) pat" using assms by (simp add: Cons_nth_drop_Suc)
  show ?thesis
  proof (cases "j < length path")
    case True
    then have "drop j path = path ! j # drop (j + 1) path" by (simp add: Cons_nth_drop_Suc)
    with d True assms(2) show ?thesis by simp
  next
    case False
    with d assms(2) show ?thesis by simp
  qed
qed

text \<open>The accounting: \<open>P\<close> are the states that are being computed, all of them before the current one.
  Every state counted is memoised or open, so the count never exceeds the grid.\<close>

definition grid :: "string list \<Rightarrow> string list \<Rightarrow> (nat \<times> nat) set" where
  "grid pat path = {..length pat} \<times> {..length path}"

lemma finite_grid [simp]: "finite (grid pat path)"
  by (simp add: grid_def)

lemma card_grid: "card (grid pat path) = (length pat + 1) * (length path + 1)"
  by (simp add: grid_def)

definition accounted :: "string list \<Rightarrow> string list \<Rightarrow> (nat \<times> nat) set \<Rightarrow> walk_state \<Rightarrow> bool" where
  "accounted pat path P st \<longleftrightarrow> distinct (map fst (ws_memo st)) \<and> keys_of st \<inter> P = {} \<and>
     keys_of st \<subseteq> grid pat path \<and> P \<subseteq> grid pat path \<and> ws_states st = length (ws_memo st) + card P"

definition before :: "(nat \<times> nat) set \<Rightarrow> nat \<Rightarrow> nat \<Rightarrow> bool" where
  "before P i j \<longleftrightarrow> (\<forall>(a, b) \<in> P. a \<le> i \<and> b \<le> j \<and> (a, b) \<noteq> (i, j))"

definition walk_post ::
  "string list \<Rightarrow> string list \<Rightarrow> (nat \<times> nat) set \<Rightarrow> nat \<Rightarrow> nat \<Rightarrow> match_result \<Rightarrow> walk_state \<Rightarrow> bool" where
  "walk_post pat path P i j r st' \<longleftrightarrow> (case r of
     Inr b \<Rightarrow> b = means pat path i j \<and> memo_ok pat path st' \<and> accounted pat path P st'
   | Inl e \<Rightarrow> (e = MStates \<and> maxPathMatchStates < card (grid pat path)) \<or> (e = MAggregate \<and> over (ws_agg st')))"

lemma accounted_card:
  assumes "accounted pat path P st" "before P i j" "map_of (ws_memo st) (i, j) = None" "i \<le> length pat" "j \<le> length path"
  shows "accounted pat path (insert (i, j) P) (visit st)" "ws_states st + 1 \<le> card (grid pat path)"
proof -
  have fin: "finite P" using assms(1) finite_subset [OF _ finite_grid] by (auto simp: accounted_def)
  have nk: "(i, j) \<notin> keys_of st" using assms(3) by (simp add: map_of_eq_None_iff)
  have np: "(i, j) \<notin> P" using assms(2) by (auto simp: before_def)
  have ij: "(i, j) \<in> grid pat path" using assms(4,5) by (simp add: grid_def)
  show acc: "accounted pat path (insert (i, j) P) (visit st)"
    using assms(1) fin nk np ij by (auto simp: accounted_def)
  have "card (keys_of st) = length (ws_memo st)"
    using assms(1) distinct_card [of "map fst (ws_memo st)"] by (simp add: accounted_def)
  then have "ws_states st + 1 = card (keys_of st \<union> insert (i, j) P)"
    using assms(1) fin nk np card_Un_disjoint [of "keys_of st" "insert (i, j) P"] by (simp add: accounted_def)
  also have "\<dots> \<le> card (grid pat path)"
    using assms(1) ij by (intro card_mono) (auto simp: accounted_def)
  finally show "ws_states st + 1 \<le> card (grid pat path)" .
qed

lemma accounted_memo:
  assumes "accounted pat path (insert (i, j) P) st" "(i, j) \<notin> P" "memo_ok pat path st" "r = Inr (means pat path i j)"
  shows "accounted pat path P (st\<lparr>ws_memo := ((i, j), r) # ws_memo st\<rparr>)"
    "memo_ok pat path (st\<lparr>ws_memo := ((i, j), r) # ws_memo st\<rparr>)"
proof -
  have "finite P" using assms(1) finite_subset [OF _ finite_grid] by (auto simp: accounted_def)
  with assms show "accounted pat path P (st\<lparr>ws_memo := ((i, j), r) # ws_memo st\<rparr>)"
    by (auto simp: accounted_def)
  show "memo_ok pat path (st\<lparr>ws_memo := ((i, j), r) # ws_memo st\<rparr>)"
    using assms(3,4) by (simp add: memo_ok_def)
qed

lemma walk_correct:
  assumes valid: "segs_valid pat"
  shows "memo_ok pat path st \<Longrightarrow> accounted pat path P st \<Longrightarrow> before P i j \<Longrightarrow> i \<le> length pat \<Longrightarrow> j \<le> length path \<Longrightarrow>
    walk pat path i j st = (r, st') \<Longrightarrow> walk_post pat path P i j r st'"
proof (induction "(length pat - i) + (length path - j)" arbitrary: i j st r st' P rule: less_induct)
  case less
  note IH = less.hyps and prems = less.prems
  from prems(6) show ?case
  proof (cases rule: walk_cases)
    case (memo v)
    then have "((i, j), v) \<in> set (ws_memo st)" by (auto dest: map_of_SomeD)
    with prems(1) have "v = Inr (means pat path i j)" by (auto simp: memo_ok_def)
    with memo prems show ?thesis by (simp add: walk_post_def)
  next
    case states
    with accounted_card(2) [OF prems(2,3) states(1) prems(4,5)] show ?thesis by (simp add: walk_post_def)
  next
    case agg
    then show ?thesis by (simp add: walk_post_def)
  next
    case (body st3)
    let ?P = "insert (i, j) P"
    have acc: "accounted pat path ?P (visit st)" by (rule accounted_card(1) [OF prems(2,3) body(1) prems(4,5)])
    have mo: "memo_ok pat path (visit st)" using prems(1) by (simp add: memo_ok_def)
    have np: "(i, j) \<notin> P" using prems(3) by (auto simp: before_def)
    have bf: "before ?P (i + 1) j" "before ?P i (j + 1)" "before ?P (i + 1) (j + 1)"
      using prems(3) by (auto simp: before_def)
    have post: "walk_post pat path ?P i j r st3"
    proof (cases "i \<ge> length pat")
      case True
      with body(4) acc mo prems(4,5) show ?thesis
        by (auto simp: walk_body_def walk_post_def)
    next
      case i: False
      then have il: "i < length pat" by simp
      show ?thesis
      proof (cases "pat ! i = dblStar")
        case star: True
        show ?thesis
        proof (cases "i + 1 = length pat")
          case True
          with body(4) i star acc mo means_last [OF il star True prems(5)] show ?thesis
            by (auto simp: walk_body_def walk_post_def)
        next
          case last: False
          obtain r1 s where w1: "walk pat path (i + 1) j (visit st) = (r1, s)" by fastforce
          have p1: "walk_post pat path ?P (i + 1) j r1 s"
            by (rule IH [OF _ mo acc bf(1) _ prems(5) w1]) (use il in auto)
          have eq: "(r, st3) = (case r1 of Inl e \<Rightarrow> (Inl e, s) | Inr b \<Rightarrow>
              if b then (Inr True, s) else if j < length path then walk pat path i (j + 1) s else (Inr False, s))"
            using body(4) i star last w1 by (simp add: walk_body_def)
          note ms = means_star [OF il star last, where path = path and j = j]
          show ?thesis
          proof (cases "r1 = Inr False \<and> j < length path")
            case True
            then have p1': "\<not> means pat path (i + 1) j" "memo_ok pat path s" "accounted pat path ?P s"
              using p1 by (auto simp: walk_post_def)
            have "walk pat path i (j + 1) s = (r, st3)" using eq True by simp
            then have "walk_post pat path ?P i (j + 1) r st3"
              by (rule IH [OF _ p1'(2,3) bf(2) prems(4), rotated -1]) (use True in auto)
            with ms p1'(1) True show ?thesis by (auto simp: walk_post_def split: sum.splits)
          next
            case False
            with eq p1 ms show ?thesis by (auto simp: walk_post_def split: sum.splits if_splits)
          qed
        qed
      next
        case one: False
        note mo1 = means_one [OF il one, where path = path and j = j]
        show ?thesis
        proof (cases "j \<ge> length path")
          case True
          with body(4) i one acc mo mo1 show ?thesis by (auto simp: walk_body_def walk_post_def)
        next
          case j: False
          have "path_Match (pat ! i) [] \<noteq> None" using valid il one by (auto simp: segs_valid_def)
          then obtain b where b: "path_Match (pat ! i) (path ! j) = Some b" using path_Match_valid by blast
          show ?thesis
          proof (cases b)
            case True
            have "walk pat path (i + 1) (j + 1) (visit st) = (r, st3)"
              using body(4) i one j b True by (simp add: walk_body_def)
            then have "walk_post pat path ?P (i + 1) (j + 1) r st3"
              by (rule IH [OF _ mo acc bf(3), rotated -1]) (use il j in auto)
            with mo1 b True j show ?thesis by (auto simp: walk_post_def split: sum.splits)
          next
            case False
            with body(4) i one j b acc mo mo1 show ?thesis by (auto simp: walk_body_def walk_post_def)
          qed
        qed
      qed
    qed
    show ?thesis
    proof (cases r)
      case (Inl e)
      with post body(5) show ?thesis by (auto simp: walk_post_def)
    next
      case (Inr b)
      with post have m: "r = Inr (means pat path i j)" "memo_ok pat path st3" "accounted pat path ?P st3"
        by (auto simp: walk_post_def)
      from accounted_memo [OF m(3) np m(2,1)] m(1) body(5) show ?thesis by (simp add: walk_post_def)
    qed
  qed
qed

text \<open>The budgets: no more states are visited than the limit and one, and the budget of the push
  is charged as far.\<close>

definition charged :: "pathMatchBudget option \<Rightarrow> pathMatchBudget option \<Rightarrow> bool" where
  "charged a a' \<longleftrightarrow> (case a of None \<Rightarrow> a' = None
     | Some b \<Rightarrow> (\<exists>u. a' = Some (b\<lparr>used := u\<rparr>) \<and> used b \<le> u \<and> u \<le> max (used b) (limit b + 1)))"

definition agg_used :: "pathMatchBudget option \<Rightarrow> nat" where
  "agg_used a = (case a of None \<Rightarrow> 0 | Some b \<Rightarrow> used b)"

definition walk_bound :: "walk_state \<Rightarrow> match_result \<Rightarrow> walk_state \<Rightarrow> bool" where
  "walk_bound st r st' \<longleftrightarrow> charged (ws_agg st) (ws_agg st') \<and> (case r of
     Inr _ \<Rightarrow> ws_states st' \<le> maxPathMatchStates \<and> \<not> over (ws_agg st') \<and>
       (ws_agg st \<noteq> None \<longrightarrow> ws_states st' + agg_used (ws_agg st) = ws_states st + agg_used (ws_agg st'))
   | Inl e \<Rightarrow> ws_states st' \<le> maxPathMatchStates + 1 \<and> (e \<noteq> MAggregate \<longrightarrow> \<not> over (ws_agg st')) \<and>
       (ws_agg st \<noteq> None \<longrightarrow> ws_states st' + agg_used (ws_agg st) \<le>
          ws_states st + agg_used (ws_agg st') + (if e = MStates then 1 else 0)))"

lemma charged_refl: "charged a a"
proof (cases a)
  case (Some b)
  then show ?thesis by (simp add: charged_def) (intro exI [of _ "used b"], simp)
qed (simp add: charged_def)

lemma charged_trans: "charged a a' \<Longrightarrow> charged a' a'' \<Longrightarrow> charged a a''"
  by (fastforce simp: charged_def split: option.splits)

lemma charged_charge: "\<not> over a \<Longrightarrow> charged a (charge a)"
  by (auto simp: charged_def charge_def over_def split: option.splits)

lemma charged_None: "charged a a' \<Longrightarrow> (a' = None) = (a = None)"
  by (auto simp: charged_def split: option.splits)

lemma walk_bound_trans:
  "walk_bound st (Inr b) s \<Longrightarrow> walk_bound s r st' \<Longrightarrow> walk_bound st r st'"
  by (cases r) (auto simp: walk_bound_def charged_None intro: charged_trans)

lemma walk_bound_visit:
  "\<not> over (ws_agg st) \<Longrightarrow> walk_bound (visit st) r st' \<Longrightarrow> walk_bound st r st'"
  using charged_charge [of "ws_agg st"]
  by (cases "ws_agg st"; cases r) (auto simp: walk_bound_def charge_def agg_used_def intro: charged_trans)

lemma walk_bound_leaf:
  "ws_states st \<le> maxPathMatchStates \<Longrightarrow> \<not> over (ws_agg st) \<Longrightarrow> walk_bound st r st"
  by (cases r) (auto simp: walk_bound_def charged_refl)

lemma walk_bounds:
  "ws_states st \<le> maxPathMatchStates \<Longrightarrow> \<not> over (ws_agg st) \<Longrightarrow> walk pat path i j st = (r, st') \<Longrightarrow> walk_bound st r st'"
proof (induction "(length pat - i) + (length path - j)" arbitrary: i j st r st' rule: less_induct)
  case less
  note IH = less.hyps and prems = less.prems
  from prems(3) show ?case
  proof (cases rule: walk_cases)
    case (memo v)
    with walk_bound_leaf [OF prems(1,2)] show ?thesis by simp
  next
    case states
    with prems show ?thesis by (simp add: walk_bound_def charged_refl)
  next
    case agg
    with prems charged_charge [OF prems(2)] show ?thesis
      by (cases "ws_agg st") (auto simp: walk_bound_def charge_def agg_used_def)
  next
    case (body st3)
    let ?v = "visit st"
    have v: "ws_states ?v \<le> maxPathMatchStates" "\<not> over (ws_agg ?v)" using body(2,3) by simp_all
    note leaf = walk_bound_leaf [OF v]
    have "walk_bound ?v r st3"
    proof (cases "i < length pat \<and> pat ! i = dblStar \<and> i + 1 \<noteq> length pat")
      case True
      obtain r1 s where w1: "walk pat path (i + 1) j ?v = (r1, s)" by fastforce
      have b1: "walk_bound ?v r1 s" by (rule IH [OF _ v w1]) (use True in auto)
      have eq: "(r, st3) = (case r1 of Inl e \<Rightarrow> (Inl e, s) | Inr b \<Rightarrow>
          if b then (Inr True, s) else if j < length path then walk pat path i (j + 1) s else (Inr False, s))"
        using body(4) True w1 by (simp add: walk_body_def)
      show ?thesis
      proof (cases "r1 = Inr False \<and> j < length path")
        case rec: True
        then have "walk pat path i (j + 1) s = (r, st3)" using eq by simp
        then have "walk_bound s r st3"
          by (rule IH [rotated -1]) (use rec b1 in \<open>auto simp: walk_bound_def\<close>)
        with b1 rec show ?thesis by (auto intro: walk_bound_trans)
      next
        case False
        with eq b1 show ?thesis by (auto split: sum.splits if_splits)
      qed
    next
      case flat: False
      show ?thesis
      proof (cases "i < length pat \<and> pat ! i \<noteq> dblStar \<and> j < length path \<and> path_Match (pat ! i) (path ! j) = Some True")
        case True
        then have "walk pat path (i + 1) (j + 1) ?v = (r, st3)" using body(4) by (simp add: walk_body_def)
        then show ?thesis by (rule IH [OF _ v, rotated -1]) (use True in auto)
      next
        case False
        then have "st3 = ?v"
          using flat body(4) by (auto simp: walk_body_def split: if_splits option.splits)
        with leaf show ?thesis by simp
      qed
    qed
    then have "walk_bound ?v r st'" using body(5) by (cases r) (auto simp: walk_bound_def)
    then show ?thesis by (rule walk_bound_visit [OF prems(2)])
  qed
qed

lemma segs_valid_of: "bad_segment_of segs = None \<Longrightarrow> segs_valid segs"
  by (induction segs) (auto simp: segs_valid_def split: if_splits)

lemma syntax_segs_valid:
  "validatePathPatternSyntax pattern = None \<Longrightarrow> segs_valid (str_split (CHR ''/'') pattern)"
  by (auto simp: validatePathPatternSyntax_def split: if_splits intro: segs_valid_of)

lemma matchSegments_correct:
  assumes "segs_valid pat" "matchSegments pat path agg = (r, agg')"
  shows "case r of Inr b \<Rightarrow> b = seg_match pat path
    | Inl e \<Rightarrow> (e = MStates \<and> maxPathMatchStates < (length pat + 1) * (length path + 1)) \<or> (e = MAggregate \<and> over agg')"
proof -
  let ?st = "\<lparr>ws_memo = [], ws_states = 0, ws_agg = agg\<rparr>"
  obtain st' where w: "walk pat path 0 0 ?st = (r, st')" "agg' = ws_agg st'"
    using assms(2) by (auto simp: matchSegments_def split: prod.splits)
  have "walk_post pat path {} 0 0 r st'"
    by (rule walk_correct [OF assms(1) _ _ _ _ _ w(1)]) (auto simp: memo_ok_def accounted_def before_def)
  then show ?thesis by (auto simp: walk_post_def card_grid w(2) split: sum.splits)
qed

lemma matchSegments_charged:
  assumes "\<not> over agg" "matchSegments pat path agg = (r, agg')"
  shows "charged agg agg'" "r = Inr b \<Longrightarrow> \<not> over agg'"
proof -
  let ?st = "\<lparr>ws_memo = [], ws_states = 0, ws_agg = agg\<rparr>"
  obtain st' where w: "walk pat path 0 0 ?st = (r, st')" "agg' = ws_agg st'"
    using assms(2) by (auto simp: matchSegments_def split: prod.splits)
  have "walk_bound ?st r st'" by (rule walk_bounds [OF _ _ w(1)]) (use assms(1) in simp_all)
  with w(2) show "charged agg agg'" "r = Inr b \<Longrightarrow> \<not> over agg'" by (auto simp: walk_bound_def)
qed

text \<open>The meaning of a whole path pattern.\<close>

definition path_matches :: "string \<Rightarrow> string \<Rightarrow> bool" where
  "path_matches pattern p = seg_match (str_split (CHR ''/'') pattern) (str_split (CHR ''/'') p)"

lemma matchPathWithBudget_correct:
  assumes "validatePathPatternSyntax pattern = None" "p \<noteq> []" "matchPathWithBudget pattern p agg = (r, agg')"
  shows "case r of Inr b \<Rightarrow> b = path_matches pattern p | Inl e \<Rightarrow> e = MStates \<or> (e = MAggregate \<and> over agg')"
  using matchSegments_correct [OF syntax_segs_valid [OF assms(1)], where agg = agg] assms
  by (fastforce simp: matchPathWithBudget_def path_matches_def split: sum.splits)

text \<open>C21: on a well-formed pattern and a path whose segments together stay within the budget of
  states, the memoised matcher returns without an error exactly what the plain recursion over
  segments says.\<close>

theorem MatchPath_reference:
  assumes "validatePathPatternSyntax pattern = None" "p \<noteq> []"
    and "(length (str_split (CHR ''/'') pattern) + 1) * (length (str_split (CHR ''/'') p) + 1) \<le> maxPathMatchStates"
  shows "MatchPath pattern p = Inr (path_matches pattern p)"
proof -
  obtain r agg' where m: "matchSegments (str_split (CHR ''/'') pattern) (str_split (CHR ''/'') p) None = (r, agg')"
    by fastforce
  have "agg' = None" using matchSegments_charged [OF _ m] by (simp add: over_def charged_def)
  then have "\<not> over agg'" by (simp add: over_def)
  with matchSegments_correct [OF syntax_segs_valid [OF assms(1)] m] assms m show ?thesis
    by (cases r) (auto simp: MatchPath_def matchPathWithBudget_def path_matches_def)
qed

theorem MatchPath_reference_witness:
  "MatchPath ''secrets/**/*.pem'' ''secrets/eu/key.pem'' = Inr True \<and>
   MatchPath ''secrets/**'' ''secrets'' = Inr False"
proof -
  have "MatchPath ''secrets/**/*.pem'' ''secrets/eu/key.pem'' = Inr (path_matches ''secrets/**/*.pem'' ''secrets/eu/key.pem'')"
  proof (rule MatchPath_reference)
    show "validatePathPatternSyntax ''secrets/**/*.pem'' = None" by code_simp
  qed (simp_all add: maxPathMatchStates_def)
  moreover have "MatchPath ''secrets/**'' ''secrets'' = Inr (path_matches ''secrets/**'' ''secrets'')"
  proof (rule MatchPath_reference)
    show "validatePathPatternSyntax ''secrets/**'' = None" by code_simp
  qed (simp_all add: maxPathMatchStates_def)
  moreover have "path_matches ''secrets/**/*.pem'' ''secrets/eu/key.pem''" by code_simp
  moreover have "\<not> path_matches ''secrets/**'' ''secrets''" by code_simp
  ultimately show ?thesis by simp
qed

section \<open>The checks of a push\<close>

text \<open>What a push costs: the states the matcher visits for one changed path, counted where
  \<open>matchSegments\<close> counts them, and their sum over the matches a push makes.\<close>

definition match_work :: "string \<Rightarrow> string \<Rightarrow> pathMatchBudget option \<Rightarrow> nat" where
  "match_work pattern p agg =
     (if validatePathPatternSyntax pattern \<noteq> None \<or> p = [] then 0
      else ws_states (snd (walk (str_split (CHR ''/'') pattern) (str_split (CHR ''/'') p) 0 0
        \<lparr>ws_memo = [], ws_states = 0, ws_agg = agg\<rparr>)))"

fun changed_work :: "string \<Rightarrow> string list \<Rightarrow> pathMatchBudget option \<Rightarrow> nat" where
  "changed_work pattern [] agg = 0"
| "changed_work pattern (p # ps) agg = match_work pattern p agg +
     (case matchPathWithBudget pattern p agg of (Inr False, agg1) \<Rightarrow> changed_work pattern ps agg1 | _ \<Rightarrow> 0)"

fun rules_work :: "string \<Rightarrow> string list \<Rightarrow> ProtectedPath list \<Rightarrow> pathMatchBudget option \<Rightarrow> nat" where
  "rules_work refname changed [] agg = 0"
| "rules_work refname changed (rule # rules) agg =
     (if path_Match (pp_RefnamePattern rule) refname \<noteq> Some True then rules_work refname changed rules agg
      else changed_work (pp_PathPattern rule) changed agg +
        (case check_changed refname (pp_PathPattern rule) changed agg of
           (Accept, agg1) \<Rightarrow> rules_work refname changed rules agg1 | _ \<Rightarrow> 0))"

text \<open>Work done within a budget: the counter follows it, and it stops at one state over the limit.\<close>

definition paid :: "pathMatchBudget \<Rightarrow> nat \<Rightarrow> bool \<Rightarrow> pathMatchBudget option \<Rightarrow> bool" where
  "paid b w on a \<longleftrightarrow> (\<exists>u. a = Some (b\<lparr>used := u\<rparr>) \<and> u \<le> limit b + 1 \<and> w + used b \<le> limit b + 1 \<and>
     w + used b \<le> u + 1 \<and> (on \<longrightarrow> w + used b = u \<and> u \<le> limit b))"

lemma paid_0: "used b \<le> limit b \<Longrightarrow> paid b 0 on (Some b)"
  unfolding paid_def by (intro exI [of _ "used b"]) simp

lemma paid_stop: "paid b w on a \<Longrightarrow> paid b w False a"
  by (auto simp: paid_def)

lemma paid_trans:
  assumes "paid b w True (Some b1)" "paid b1 w' on a"
  shows "paid b (w + w') on a"
proof -
  obtain u where u: "b1 = b\<lparr>used := u\<rparr>" "w + used b = u" using assms(1) by (auto simp: paid_def)
  from assms(2) obtain u' where "a = Some (b\<lparr>used := u'\<rparr>)" "u' \<le> limit b + 1" "w' + u \<le> limit b + 1" "w' + u \<le> u' + 1"
    "on \<longrightarrow> w' + u = u' \<and> u' \<le> limit b" by (auto simp: paid_def u(1))
  with u(2) show ?thesis unfolding paid_def by (intro exI [of _ u']) auto
qed

lemma paid_next:
  assumes "paid b w True a"
  obtains b1 where "a = Some b1" "used b1 \<le> limit b1" "paid b w True (Some b1)"
  using assms by (auto simp: paid_def)

lemma match_paid:
  assumes "used b \<le> limit b" "matchPathWithBudget pattern p (Some b) = (r, agg')"
  shows "paid b (match_work pattern p (Some b)) (\<not> isl r) agg'"
proof (cases "validatePathPatternSyntax pattern \<noteq> None \<or> p = []")
  case True
  with assms show ?thesis by (auto simp: matchPathWithBudget_def match_work_def intro: paid_0 split: if_splits)
next
  case False
  let ?st = "\<lparr>ws_memo = [], ws_states = 0, ws_agg = Some b\<rparr>"
  obtain st' where w: "walk (str_split (CHR ''/'') pattern) (str_split (CHR ''/'') p) 0 0 ?st = (r, st')" "agg' = ws_agg st'"
    using assms(2) False by (auto simp: matchPathWithBudget_def matchSegments_def split: prod.splits)
  have bd: "walk_bound ?st r st'" by (rule walk_bounds [OF _ _ w(1)]) (use assms(1) in \<open>simp_all add: over_def\<close>)
  then obtain u where u: "ws_agg st' = Some (b\<lparr>used := u\<rparr>)" "used b \<le> u" "u \<le> limit b + 1"
    using assms(1) by (auto simp: walk_bound_def charged_def max_def split: if_splits)
  have "match_work pattern p (Some b) = ws_states st'" using False w(1) by (simp add: match_work_def)
  with bd u assms(1) w(2) show ?thesis
    by (cases r) (auto simp: walk_bound_def paid_def agg_used_def over_def split: if_splits)
qed

lemma changed_paid:
  "used b \<le> limit b \<Longrightarrow> check_changed refname pattern cs (Some b) = (v, agg') \<Longrightarrow>
   paid b (changed_work pattern cs (Some b)) (v = Accept) agg'"
proof (induction cs arbitrary: b)
  case Nil
  then show ?case by (auto intro: paid_0)
next
  case (Cons c cs)
  obtain r a1 where m: "matchPathWithBudget pattern c (Some b) = (r, a1)" by fastforce
  note pd = match_paid [OF Cons.prems(1) m]
  show ?case
  proof (cases "r = Inr False")
    case True
    with pd have "paid b (match_work pattern c (Some b)) True a1" by simp
    then obtain b1 where b1: "a1 = Some b1" "used b1 \<le> limit b1" "paid b (match_work pattern c (Some b)) True (Some b1)"
      by (rule paid_next)
    have "check_changed refname pattern cs (Some b1) = (v, agg')" using Cons.prems(2) m True b1(1) by simp
    from paid_trans [OF b1(3) Cons.IH [OF b1(2) this]] m True b1(1) show ?thesis by simp
  next
    case False
    then have "changed_work pattern (c # cs) (Some b) = match_work pattern c (Some b)"
      using m by (auto split: sum.splits bool.splits)
    moreover have "v \<noteq> Accept" "agg' = a1" using False Cons.prems(2) m by (auto split: sum.splits if_splits)
    ultimately show ?thesis using paid_stop [OF pd] by simp
  qed
qed

lemma rules_paid:
  "used b \<le> limit b \<Longrightarrow> check_path_rules refname cs rules (Some b) = (v, agg') \<Longrightarrow>
   paid b (rules_work refname cs rules (Some b)) (v = Accept) agg'"
proof (induction rules arbitrary: b)
  case Nil
  then show ?case by (auto intro: paid_0)
next
  case (Cons rule rules)
  obtain v1 a1 where c: "check_changed refname (pp_PathPattern rule) cs (Some b) = (v1, a1)" by fastforce
  note pd = changed_paid [OF Cons.prems(1) c]
  show ?case
  proof (cases "path_Match (pp_RefnamePattern rule) refname = Some True")
    case True
    show ?thesis
    proof (cases "v1 = Accept")
      case acc: True
      let ?w = "changed_work (pp_PathPattern rule) cs (Some b)"
      from pd acc have "paid b ?w True a1" by simp
      then obtain b1 where b1: "a1 = Some b1" "used b1 \<le> limit b1" "paid b ?w True (Some b1)" by (rule paid_next)
      have "check_path_rules refname cs rules (Some b1) = (v, agg')" using True Cons.prems(2) c acc b1(1) by simp
      from paid_trans [OF b1(3) Cons.IH [OF b1(2) this]] c True acc b1(1) show ?thesis by simp
    next
      case False
      with True Cons.prems(2) c have "v \<noteq> Accept" "agg' = a1" by (cases v1; auto)+
      moreover have "rules_work refname cs (rule # rules) (Some b) = changed_work (pp_PathPattern rule) cs (Some b)"
        using True c False by (cases v1) auto
      ultimately show ?thesis using paid_stop [OF pd] by simp
    qed
  next
    case False
    with Cons show ?thesis by simp
  qed
qed


definition path_rule_ok :: "ProtectedPath \<Rightarrow> bool" where
  "path_rule_ok r \<longleftrightarrow> ValidatePathPattern (pp_PathPattern r) = None \<and> path_Match (pp_RefnamePattern r) [] \<noteq> None"

abbreviation path_rule_key :: "ProtectedPath \<Rightarrow> string \<times> string \<times> string \<times> string" where
  "path_rule_key r \<equiv> (pp_Tenant r, pp_Repo r, pp_RefnamePattern r, pp_PathPattern r)"

definition policy_db_ok :: "policy_db \<Rightarrow> bool" where
  "policy_db_ok db \<longleftrightarrow> list_all path_rule_ok (pd_paths db) \<and> distinct (map path_rule_key (pd_paths db)) \<and>
     list_all (\<lambda>r. path_Match (pf_RefnamePattern r) [] \<noteq> None) (pd_refs db) \<and>
     distinct (map (\<lambda>r. (pf_Tenant r, pf_Repo r, pf_RefnamePattern r)) (pd_refs db))"

lemma syntax_of_valid: "ValidatePathPattern p = None \<Longrightarrow> validatePathPatternSyntax p = None"
  by (auto simp: ValidatePathPattern_def split: option.splits)

definition blocked_by :: "string \<Rightarrow> string list \<Rightarrow> ProtectedPath \<Rightarrow> PolicyError \<Rightarrow> bool" where
  "blocked_by refname changed rule e \<longleftrightarrow> pe_Reason e = ''blocked_path'' \<and> pe_Refname e = refname \<and>
     pe_MatchedPattern e = pp_PathPattern rule \<and> pe_MatchedPath e \<in> set changed \<and>
     path_matches (pp_PathPattern rule) (pe_MatchedPath e)"

lemma check_changed_spec:
  assumes "path_rule_ok rule"
  shows "check_changed refname (pp_PathPattern rule) cs agg = (v, agg') \<Longrightarrow> (case v of
      Accept \<Rightarrow> (\<forall>c \<in> set cs. \<not> path_matches (pp_PathPattern rule) c)
    | Reject e \<Rightarrow> blocked_by refname cs rule e
    | Fail e \<Rightarrow> \<exists>pat m. e = PolMatch pat m \<and> m \<noteq> MBadPattern)"
proof (induction cs arbitrary: agg)
  case (Cons c cs)
  let ?p = "pp_PathPattern rule"
  have syn: "validatePathPatternSyntax ?p = None" using assms by (simp add: path_rule_ok_def syntax_of_valid)
  obtain r a1 where m: "matchPathWithBudget ?p c agg = (r, a1)" by fastforce
  show ?case
  proof (cases "c = []")
    case True
    then have "r = Inl MEmptyPath" using m syn by (simp add: matchPathWithBudget_def)
    with Cons.prems m show ?thesis by auto
  next
    case False
    note spec = matchPathWithBudget_correct [OF syn False m]
    show ?thesis
    proof (cases r)
      case (Inl e)
      with Cons.prems m spec show ?thesis by auto
    next
      case (Inr b)
      show ?thesis
      proof (cases b)
        case True
        with Inr Cons.prems m spec show ?thesis by (auto simp: blocked_by_def)
      next
        case nb: False
        with Inr Cons.prems m have "check_changed refname ?p cs a1 = (v, agg')" by simp
        from Cons.IH [OF this] nb Inr spec show ?thesis
          by (auto simp: blocked_by_def split: verdict.splits)
      qed
    qed
  qed
qed simp

lemma check_path_rules_spec:
  "list_all path_rule_ok rules \<Longrightarrow> check_path_rules refname cs rules agg = (v, agg') \<Longrightarrow> (case v of
      Accept \<Rightarrow> (\<forall>rule \<in> set rules. path_Match (pp_RefnamePattern rule) refname = Some True \<longrightarrow>
                   (\<forall>c \<in> set cs. \<not> path_matches (pp_PathPattern rule) c))
    | Reject e \<Rightarrow> (\<exists>rule \<in> set rules. path_Match (pp_RefnamePattern rule) refname = Some True \<and> blocked_by refname cs rule e)
    | Fail e \<Rightarrow> \<exists>pat m. e = PolMatch pat m \<and> m \<noteq> MBadPattern)"
proof (induction rules arbitrary: agg)
  case (Cons rule rules)
  obtain v1 a1 where c: "check_changed refname (pp_PathPattern rule) cs agg = (v1, a1)" by fastforce
  have ok: "path_rule_ok rule" "list_all path_rule_ok rules" using Cons.prems(1) by simp_all
  note spec = check_changed_spec [OF ok(1) c]
  show ?case
  proof (cases "path_Match (pp_RefnamePattern rule) refname = Some True")
    case True
    show ?thesis
    proof (cases "v1 = Accept")
      case acc: True
      with True Cons.prems(2) c have "check_path_rules refname cs rules a1 = (v, agg')" by simp
      from Cons.IH [OF ok(2) this] acc spec show ?thesis by (auto split: verdict.splits)
    next
      case False
      with True Cons.prems(2) c have "v = v1" by (cases v1) auto
      with spec False True show ?thesis by (auto split: verdict.splits)
    qed
  next
    case False
    with Cons.prems(2) have "check_path_rules refname cs rules agg = (v, agg')" by simp
    from Cons.IH [OF ok(2) this] False show ?thesis by (auto split: verdict.splits)
  qed
qed simp

text \<open>C14: on tables filled through the validated inserts, a push is accepted only if no changed path
  matches a protected path of a rule for its ref; a rejection names a rule that applies and a
  changed path it matches; and the only other outcome is a failure, of the database, on an empty
  path or because a budget ran out, never because a rule is malformed. So a push that exhausts
  the matcher is refused, not let through.\<close>

theorem CheckPaths_enforces:
  assumes "policy_db_ok db"
  shows "case CheckPaths fault db tenant repo refname changed of
     Accept \<Rightarrow> (\<forall>rule \<in> set (pd_paths db). pp_Tenant rule = tenant \<longrightarrow> pp_Repo rule = repo \<longrightarrow>
        path_Match (pp_RefnamePattern rule) refname = Some True \<longrightarrow>
        (\<forall>c \<in> set changed. \<not> path_matches (pp_PathPattern rule) c))
   | Reject e \<Rightarrow> (\<exists>rule \<in> set (pd_paths db). pp_Tenant rule = tenant \<and> pp_Repo rule = repo \<and>
        path_Match (pp_RefnamePattern rule) refname = Some True \<and> blocked_by refname changed rule e)
   | Fail e \<Rightarrow> (\<exists>x. fault = Some x \<and> e = PolDB x) \<or> (\<exists>pat m. e = PolMatch pat m \<and> m \<noteq> MBadPattern)"
proof (cases "changed = [] \<or> fault \<noteq> None")
  case True
  then show ?thesis by (auto simp: CheckPaths_def ListPathRules_def)
next
  case False
  define rules where "rules = sort_by (\<lambda>x. (pp_RefnamePattern x, pp_PathPattern x))
       (filter (\<lambda>x. pp_Tenant x = tenant \<and> pp_Repo x = repo) (pd_paths db))"
  have ok: "list_all path_rule_ok rules"
    using assms by (auto simp: policy_db_ok_def rules_def list_all_iff)
  have st: "set rules = {x \<in> set (pd_paths db). pp_Tenant x = tenant \<and> pp_Repo x = repo}"
    by (auto simp: rules_def)
  obtain v agg' where c: "check_path_rules refname changed rules (Some push_budget) = (v, agg')" by fastforce
  have v: "CheckPaths fault db tenant repo refname changed = v"
    using False c by (simp add: CheckPaths_def ListPathRules_def rules_def)
  from check_path_rules_spec [OF ok c] show ?thesis
    unfolding v st by (auto split: verdict.splits)
qed

lemma policy_Add_ok: "policy_db_ok db \<Longrightarrow> policy_db_ok (snd (policy_Add now fault r db))"
proof -
  assume ok: "policy_db_ok db"
  let ?same = "\<lambda>x. pf_Tenant x = pf_Tenant r \<and> pf_Repo x = pf_Repo r \<and> pf_RefnamePattern x = pf_RefnamePattern r"
  let ?key = "\<lambda>r. (pf_Tenant r, pf_Repo r, pf_RefnamePattern r)"
  show ?thesis
  proof (cases "pf_RefnamePattern r = [] \<or> path_Match (pf_RefnamePattern r) [] = None \<or> fault \<noteq> None")
    case True
    with ok show ?thesis by (auto simp: policy_Add_def)
  next
    case False
    define upd :: "ProtectedRef \<Rightarrow> ProtectedRef" where "upd = (\<lambda>x. if ?same x
        then x\<lparr>pf_BlockDeletion := pf_BlockDeletion r, pf_BlockForcePush := pf_BlockForcePush r\<rparr> else x)"
    have k: "map ?key (map upd xs) = map ?key xs" for xs by (simp add: upd_def)
    have l: "list_all (\<lambda>r. path_Match (pf_RefnamePattern r) [] \<noteq> None) (map upd xs) \<longleftrightarrow>
        list_all (\<lambda>r. path_Match (pf_RefnamePattern r) [] \<noteq> None) xs" for xs
      by (induction xs) (auto simp: upd_def)
    show ?thesis
    proof (cases "list_ex ?same (pd_refs db)")
      case True
      with False have "snd (policy_Add now fault r db) = db\<lparr>pd_refs := map upd (pd_refs db)\<rparr>"
        by (auto simp: policy_Add_def upd_def)
      with ok k [of "pd_refs db"] l [of "pd_refs db"] show ?thesis by (simp add: policy_db_ok_def del: map_map)
    next
      case new: False
      with False have "snd (policy_Add now fault r db) = db\<lparr>pd_refs := pd_refs db @ [r\<lparr>pf_CreatedAt := now\<rparr>]\<rparr>"
        by (auto simp: policy_Add_def)
      with ok False new show ?thesis by (auto simp: policy_db_ok_def list_ex_iff)
    qed
  qed
qed

lemma AddPathRule_ok: "policy_db_ok db \<Longrightarrow> policy_db_ok (snd (AddPathRule now fault r db))"
  by (auto simp: AddPathRule_def policy_db_ok_def path_rule_ok_def same_path_rule_def list_ex_iff split: option.splits)

lemma policy_Remove_ok:
  "policy_db_ok db \<Longrightarrow> policy_db_ok (snd (policy_Remove fault tenant repo pat db))"
  "policy_db_ok db \<Longrightarrow> policy_db_ok (snd (RemovePathRule fault tenant repo pat ppat db))"
  by (auto simp: policy_Remove_def RemovePathRule_def policy_db_ok_def list_all_iff Let_def
      intro: distinct_map_filter split: option.splits)

text \<open>C29: every insert, update and removal, failed ones included, keeps the tables free of malformed
  patterns and of duplicate rules.\<close>

theorem policy_db_invariant:
  assumes "policy_db_ok db"
  shows "policy_db_ok (snd (policy_Add now fault r db)) \<and> policy_db_ok (snd (policy_Remove fault tenant repo pat db)) \<and>
    policy_db_ok (snd (AddPathRule now fault p db)) \<and> policy_db_ok (snd (RemovePathRule fault tenant repo pat ppat db))"
  using policy_Add_ok [OF assms] AddPathRule_ok [OF assms] policy_Remove_ok [OF assms] by simp

definition sample_policy :: policy_db where
  "sample_policy = \<lparr>pd_refs = [\<lparr>pf_Tenant = ''acme'', pf_Repo = ''app'', pf_RefnamePattern = ''refs/heads/*'',
       pf_BlockDeletion = True, pf_BlockForcePush = True, pf_CreatedAt = 0\<rparr>],
     pd_paths = [\<lparr>pp_Tenant = ''acme'', pp_Repo = ''app'', pp_RefnamePattern = ''refs/heads/*'',
       pp_PathPattern = ''secrets/**'', pp_CreatedAt = 0\<rparr>]\<rparr>"

lemma sample_policy_ok: "policy_db_ok sample_policy"
  by code_simp

theorem policy_db_invariant_witness:
  "policy_db_ok (snd (AddPathRule 7 None \<lparr>pp_Tenant = ''acme'', pp_Repo = ''app'', pp_RefnamePattern = ''*'',
     pp_PathPattern = ''*.key'', pp_CreatedAt = 0\<rparr> sample_policy))"
  using policy_db_invariant [OF sample_policy_ok] by blast

theorem CheckPaths_enforces_witness:
  "policy_db_ok sample_policy \<and>
   (case CheckPaths None sample_policy ''acme'' ''app'' ''refs/heads/main'' [''src/a''] of
      Accept \<Rightarrow> \<not> path_matches ''secrets/**'' ''src/a''
    | Reject e \<Rightarrow> pe_MatchedPattern e = ''secrets/**''
    | Fail e \<Rightarrow> \<exists>pat m. e = PolMatch pat m \<and> m \<noteq> MBadPattern)"
proof -
  have "path_Match ''refs/heads/*'' ''refs/heads/main'' = Some True" by code_simp
  with CheckPaths_enforces [OF sample_policy_ok, where fault = None and tenant = "''acme''" and repo = "''app''"
      and refname = "''refs/heads/main''" and changed = "[''src/a'']"] sample_policy_ok
  show ?thesis by (auto simp: sample_policy_def blocked_by_def split: verdict.splits)
qed

lemma check_ref_rules_spec:
  "(case check_ref_rules mb refname oldOID newOID rules of
      Accept \<Rightarrow> (\<forall>r \<in> set rules. path_Match (pf_RefnamePattern r) refname = Some True \<longrightarrow>
        \<not> (newOID = NullOIDHex \<and> pf_BlockDeletion r) \<and>
        (newOID \<noteq> NullOIDHex \<longrightarrow> oldOID \<noteq> NullOIDHex \<longrightarrow> pf_BlockForcePush r \<longrightarrow> mb oldOID newOID = Some 0))
    | Reject e \<Rightarrow> (\<exists>r \<in> set rules. path_Match (pf_RefnamePattern r) refname = Some True \<and>
        pe_MatchedPattern e = pf_RefnamePattern r \<and> pe_Refname e = refname \<and>
        (pe_Reason e = ''deletion blocked'' \<and> newOID = NullOIDHex \<and> pf_BlockDeletion r \<or>
         pe_Reason e = ''non-fast-forward push blocked'' \<and> newOID \<noteq> NullOIDHex \<and> oldOID \<noteq> NullOIDHex \<and>
         pf_BlockForcePush r \<and> mb oldOID newOID = Some 1))
    | Fail e \<Rightarrow> (\<exists>r \<in> set rules. path_Match (pf_RefnamePattern r) refname = None) \<or>
        (mb oldOID newOID \<noteq> Some 0 \<and> mb oldOID newOID \<noteq> Some 1))"
proof (induction rules)
  case (Cons r rules)
  show ?case
  proof (cases "path_Match (pf_RefnamePattern r) refname")
    case None
    then show ?thesis by (auto simp: Let_def)
  next
    case (Some matched)
    show ?thesis
      using Cons Some
      by (cases matched; cases "newOID = NullOIDHex"; cases "oldOID = NullOIDHex"; cases "pf_BlockDeletion r";
          cases "pf_BlockForcePush r")
        (auto simp: Let_def isFastForward_def split: verdict.splits option.splits if_splits)
  qed
qed simp

text \<open>C15: a ref update is accepted only if no matching rule forbids it: a deletion only when no
  matching rule blocks deletions, an update of an existing ref only when every matching rule
  that blocks forced pushes was shown a fast-forward. A rejection names a matching rule and
  states its reason, and creating a ref is never rejected. On tables filled through the
  validated inserts the check fails only with the database or with \<open>git\<close>.\<close>

theorem CheckUpdate_enforces:
  assumes "policy_db_ok db"
  shows "case CheckUpdate mb None db tenant repo refname oldOID newOID of
      Accept \<Rightarrow> (\<forall>r \<in> set (pd_refs db). pf_Tenant r = tenant \<longrightarrow> pf_Repo r = repo \<longrightarrow>
        path_Match (pf_RefnamePattern r) refname = Some True \<longrightarrow>
        \<not> (newOID = NullOIDHex \<and> pf_BlockDeletion r) \<and>
        (newOID \<noteq> NullOIDHex \<longrightarrow> oldOID \<noteq> NullOIDHex \<longrightarrow> pf_BlockForcePush r \<longrightarrow> mb oldOID newOID = Some 0))
    | Reject e \<Rightarrow> (\<exists>r \<in> set (pd_refs db). pf_Tenant r = tenant \<and> pf_Repo r = repo \<and>
        path_Match (pf_RefnamePattern r) refname = Some True \<and> pe_MatchedPattern e = pf_RefnamePattern r \<and>
        (pe_Reason e = ''deletion blocked'' \<and> newOID = NullOIDHex \<and> pf_BlockDeletion r \<or>
         pe_Reason e = ''non-fast-forward push blocked'' \<and> newOID \<noteq> NullOIDHex \<and> oldOID \<noteq> NullOIDHex \<and>
         pf_BlockForcePush r \<and> mb oldOID newOID = Some 1))
    | Fail e \<Rightarrow> mb oldOID newOID \<noteq> Some 0 \<and> mb oldOID newOID \<noteq> Some 1"
proof -
  define rules where "rules = sort_by pf_RefnamePattern (filter (\<lambda>x. pf_Tenant x = tenant \<and> pf_Repo x = repo) (pd_refs db))"
  have st: "set rules = {x \<in> set (pd_refs db). pf_Tenant x = tenant \<and> pf_Repo x = repo}"
    by (auto simp: rules_def)
  have v: "CheckUpdate mb None db tenant repo refname oldOID newOID = check_ref_rules mb refname oldOID newOID rules"
    by (simp add: CheckUpdate_def policy_List_def rules_def)
  have ok: "path_Match (pf_RefnamePattern r) refname \<noteq> None" if "r \<in> set rules" for r
  proof (rule path_Match_valid)
    show "path_Match (pf_RefnamePattern r) [] \<noteq> None"
      using assms that by (simp add: policy_db_ok_def list_all_iff st)
  qed
  show ?thesis
    using check_ref_rules_spec [where mb = mb and refname = refname and oldOID = oldOID and newOID = newOID and rules = rules] ok
    unfolding v by (cases "check_ref_rules mb refname oldOID newOID rules") (simp_all add: st, blast+)
qed

theorem CheckUpdate_enforces_witness:
  "\<exists>e. CheckUpdate (\<lambda>a b. Some 1) None sample_policy ''acme'' ''app'' ''refs/heads/main'' ''a1'' ''b2'' = Reject e \<and>
     pe_Reason e = ''non-fast-forward push blocked''"
proof -
  have m: "path_Match ''refs/heads/*'' ''refs/heads/main'' = Some True" by code_simp
  have n: "''a1'' \<noteq> NullOIDHex" "''b2'' \<noteq> NullOIDHex" by code_simp+
  from CheckUpdate_enforces [OF sample_policy_ok, where mb = "\<lambda>a b. Some 1" and tenant = "''acme''" and repo = "''app''"
      and refname = "''refs/heads/main''" and oldOID = "''a1''" and newOID = "''b2''"]
  show ?thesis using m n by (auto simp: sample_policy_def split: verdict.splits)
qed

end
