(* ===== verification/Auth.thy ===== *)
theory Auth
  imports Go_Json
begin

text \<open>
  Authorisation (\<open>internal/auth\<close>): token scopes with their text form and implicit hierarchy, the
  permission decision, and the wire form of tokens. The random source is the list of bytes it
  yields. Password hashing is not modelled.
\<close>

unbundle bit_operations_syntax

section \<open>White space\<close>

text \<open>\<open>strings.TrimSpace\<close>: white space as \<open>unicode.IsSpace\<close> has it, cut on both sides.\<close>

definition is_space :: "nat \<Rightarrow> bool" where
  "is_space r \<longleftrightarrow> (9 \<le> r \<and> r \<le> 13) \<or> r = 32 \<or> r = 133 \<or> r = 160 \<or> r = 5760 \<or> (8192 \<le> r \<and> r \<le> 8202)
     \<or> r = 8232 \<or> r = 8233 \<or> r = 8239 \<or> r = 8287 \<or> r = 12288"

fun trim_left :: "string \<Rightarrow> string" where
  "trim_left [] = []"
| "trim_left (a # s) =
     (case decode_rune (a # s) of (r, n) \<Rightarrow> if is_space r then trim_left (drop (n - 1) s) else a # s)"

definition last_rune_len :: "string \<Rightarrow> nat" where
  "last_rune_len s =
     (if utf8_unit (drop (length s - 1) s) then 1
      else if 2 \<le> length s \<and> utf8_unit (drop (length s - 2) s) then 2
      else if 3 \<le> length s \<and> utf8_unit (drop (length s - 3) s) then 3
      else if 4 \<le> length s \<and> utf8_unit (drop (length s - 4) s) then 4
      else 0)"

function trim_right :: "string \<Rightarrow> string" where
  "trim_right s =
     (let n = last_rune_len s in
      if s \<noteq> [] \<and> n > 0 \<and> is_space (rune_val (drop (length s - n) s)) then trim_right (take (length s - n) s) else s)"
  by pat_completeness auto
termination trim_right
  by (relation "measure length") auto

declare trim_right.simps [simp del]

definition trim_space :: "string \<Rightarrow> string" where
  "trim_space s = trim_right (trim_left s)"

lemma trim_space_ascii:
  assumes "s \<noteq> []" "code (hd s) < 128" "\<not> is_space (code (hd s))" "code (last s) < 128" "\<not> is_space (code (last s))"
  shows "trim_space s = s"
proof -
  obtain a t where s: "s = a # t" using assms(1) by (cases s) auto
  have "utf8_unit [a]" using assms(2) by (simp add: s utf8_unit_def)
  then have "decode_rune s = (code a, 1)"
    by (simp add: s decode_rune_def utf8_len_def rune_val_def)
  then have l: "trim_left s = s" using assms(3) by (simp add: s)
  have d: "drop (length s - 1) s = [last s]" using assms(1)
    by (metis append_butlast_last_id append_eq_conv_conj length_butlast)
  have "last_rune_len s = 1"
    using assms(4) unfolding last_rune_len_def d by (simp add: utf8_unit_def)
  then have "trim_right s = s"
    using assms(5) unfolding trim_right.simps [of s] by (simp add: d [simplified] rune_val_def)
  with l show ?thesis by (simp add: trim_space_def)
qed

section \<open>Token scopes\<close>

type_synonym TokenScope = "64 word"

definition ScopeRepoRead :: TokenScope where "ScopeRepoRead = push_bit 0 1"
definition ScopeRepoWrite :: TokenScope where "ScopeRepoWrite = push_bit 1 1"
definition ScopeRepoAdmin :: TokenScope where "ScopeRepoAdmin = push_bit 2 1"
definition ScopeLFSRead :: TokenScope where "ScopeLFSRead = push_bit 3 1"
definition ScopeLFSWrite :: TokenScope where "ScopeLFSWrite = push_bit 4 1"
definition ScopeWebhookAdmin :: TokenScope where "ScopeWebhookAdmin = push_bit 5 1"
definition ScopeStorageAdmin :: TokenScope where "ScopeStorageAdmin = push_bit 6 1"

lemmas scope_bits = ScopeRepoRead_def ScopeRepoWrite_def ScopeRepoAdmin_def ScopeLFSRead_def ScopeLFSWrite_def
  ScopeWebhookAdmin_def ScopeStorageAdmin_def

definition ScopeMaskAll :: TokenScope where
  "ScopeMaskAll = ScopeRepoRead OR ScopeRepoWrite OR ScopeRepoAdmin OR ScopeLFSRead OR ScopeLFSWrite
     OR ScopeWebhookAdmin OR ScopeStorageAdmin"

definition ScopeLegacy :: TokenScope where "ScopeLegacy = 0"

definition scopeNames :: "(TokenScope \<times> string) list" where
  "scopeNames =
     [(ScopeRepoRead, ''repo:read''), (ScopeRepoWrite, ''repo:write''), (ScopeRepoAdmin, ''repo:admin''),
      (ScopeLFSRead, ''lfs:read''), (ScopeLFSWrite, ''lfs:write''), (ScopeWebhookAdmin, ''webhook:admin''),
      (ScopeStorageAdmin, ''storage:admin'')]"

definition nameToScope :: "string \<Rightarrow> TokenScope option" where
  "nameToScope n = map_of (map (\<lambda>(s, name). (name, s)) scopeNames) n"

definition scope_Has :: "TokenScope \<Rightarrow> TokenScope \<Rightarrow> bool" where
  "scope_Has s required \<longleftrightarrow> s AND required \<noteq> 0"

definition EffectiveScopes :: "TokenScope \<Rightarrow> TokenScope" where
  "EffectiveScopes s =
     (let s1 = (if s AND ScopeRepoAdmin \<noteq> 0 then s OR (ScopeRepoWrite OR ScopeRepoRead) else s);
          s2 = (if s1 AND ScopeRepoWrite \<noteq> 0 then s1 OR ScopeRepoRead else s1);
          s3 = (if s2 AND ScopeLFSWrite \<noteq> 0 then s2 OR ScopeLFSRead else s2) in s3)"

fun index_in :: "string \<Rightarrow> (TokenScope \<times> string) list \<Rightarrow> int \<Rightarrow> int" where
  "index_in n [] i = -1"
| "index_in n (p # ps) i = (if snd p = n then i else index_in n ps (i + 1))"

definition indexOfScopeName :: "string \<Rightarrow> int" where
  "indexOfScopeName n = index_in n scopeNames 0"

definition FormatScopes :: "TokenScope \<Rightarrow> string" where
  "FormatScopes s =
     (if s = ScopeLegacy then ''legacy''
      else if s AND ScopeMaskAll = ScopeMaskAll then ''all''
      else str_join '','' (sort_by indexOfScopeName (map snd (filter (\<lambda>p. s AND fst p \<noteq> 0) scopeNames))))"

datatype auth_error = ErrInvalidScope | ErrInsufficientScope | ErrUnknownPerm | ErrTokenForm

fun parse_scope_list :: "string list \<Rightarrow> TokenScope \<Rightarrow> auth_error + TokenScope" where
  "parse_scope_list [] out = Inr out"
| "parse_scope_list (raw # raws) out =
     (let tok = trim_space raw in
      if tok = ''repo:*'' then parse_scope_list raws (out OR (ScopeRepoRead OR ScopeRepoWrite OR ScopeRepoAdmin))
      else if tok = ''lfs:*'' then parse_scope_list raws (out OR (ScopeLFSRead OR ScopeLFSWrite))
      else (case nameToScope tok of
        None \<Rightarrow> Inl ErrInvalidScope
      | Some sc \<Rightarrow> parse_scope_list raws (out OR sc)))"

definition ParseScopes :: "string \<Rightarrow> auth_error + TokenScope" where
  "ParseScopes s0 =
     (let s = trim_space s0 in
      if s = [] then Inl ErrInvalidScope
      else if s = ''all'' then Inr ScopeMaskAll
      else if s = ''legacy'' then Inr ScopeLegacy
      else (case parse_scope_list (str_split (CHR '','') s) 0 of
        Inl e \<Rightarrow> Inl e
      | Inr out \<Rightarrow> if out = 0 then Inl ErrInvalidScope else Inr out))"

definition ValidateScopes :: "TokenScope \<Rightarrow> auth_error option" where
  "ValidateScopes s =
     (if s = ScopeLegacy then None
      else if s AND NOT ScopeMaskAll \<noteq> 0 then Some ErrInvalidScope
      else None)"

section \<open>Actors and permissions\<close>

record Actor =
  ac_UserID :: string
  ac_Name :: string
  ac_IsAdmin :: bool
  ac_Scopes :: TokenScope

definition CheckScope :: "Actor option \<Rightarrow> TokenScope \<Rightarrow> auth_error option" where
  "CheckScope actor required =
     (if required = 0 then None
      else (case actor of
        None \<Rightarrow> Some ErrInsufficientScope
      | Some a \<Rightarrow>
          if ac_Scopes a = ScopeLegacy then None
          else if scope_Has (EffectiveScopes (ac_Scopes a)) required then None
          else Some ErrInsufficientScope))"

datatype Action = ActionRead | ActionWrite | ActionOther int

text \<open>Permission levels are integers in the source, compared with \<open>>=\<close>.\<close>

type_synonym Perm = int

definition PermNone :: Perm where "PermNone = 0"
definition PermRead :: Perm where "PermRead = 1"
definition PermWrite :: Perm where "PermWrite = 2"
definition PermAdmin :: Perm where "PermAdmin = 3"

lemmas perm_levels = PermNone_def PermRead_def PermWrite_def PermAdmin_def

definition PermFromText :: "string \<Rightarrow> auth_error + Perm" where
  "PermFromText s =
     (if s = ''read'' then Inr PermRead else if s = ''write'' then Inr PermWrite
      else if s = ''admin'' then Inr PermAdmin else Inl ErrUnknownPerm)"

definition PermToText :: "Perm \<Rightarrow> string" where
  "PermToText p =
     (if p = PermRead then ''read'' else if p = PermWrite then ''write''
      else if p = PermAdmin then ''admin'' else [])"

definition Decide :: "Actor option \<Rightarrow> Perm \<Rightarrow> Action \<Rightarrow> bool \<Rightarrow> bool \<times> string" where
  "Decide actor perm0 action publicRead =
     (let perm = (if actor = None then PermNone else perm0) in
      if actor \<noteq> None \<and> ac_IsAdmin (the actor) then (True, [])
      else (case action of
        ActionRead \<Rightarrow>
          if publicRead then (True, [])
          else if perm \<ge> PermRead then (True, [])
          else if actor = None then (False, ''anonymous read on private repo'')
          else (False, ''user has no read permission'')
      | ActionWrite \<Rightarrow>
          if perm \<ge> PermWrite then (True, [])
          else if actor = None then (False, ''anonymous write'')
          else (False, ''user has no write permission'')
      | ActionOther _ \<Rightarrow> (False, ''unknown action'')))"

section \<open>Tokens\<close>

definition crockfordAlphabet :: string where "crockfordAlphabet = ''0123456789ABCDEFGHJKMNPQRSTVWXYZ''"
definition tokenPrefix :: string where "tokenPrefix = ''bvts''"
definition tokenIDLen :: nat where "tokenIDLen = 24"
definition tokenSecretLen :: nat where "tokenSecretLen = 52"

definition isCrockford :: "string \<Rightarrow> bool" where
  "isCrockford s \<longleftrightarrow> list_all (\<lambda>c. c \<in> set crockfordAlphabet) s"

definition AssembleToken :: "string \<Rightarrow> string \<Rightarrow> string" where
  "AssembleToken tid secret = tokenPrefix @ ''_'' @ tid @ ''_'' @ secret"

definition ParseToken :: "string \<Rightarrow> auth_error + string \<times> string" where
  "ParseToken token =
     (case str_split (CHR ''_'') token of
        [p0, p1, p2] \<Rightarrow>
          if p0 \<noteq> tokenPrefix then Inl ErrTokenForm
          else if length p1 \<noteq> tokenIDLen then Inl ErrTokenForm
          else if length p2 \<noteq> tokenSecretLen then Inl ErrTokenForm
          else if \<not> isCrockford p1 \<or> \<not> isCrockford p2 then Inl ErrTokenForm
          else Inr (p1, p2)
      | _ \<Rightarrow> Inl ErrTokenForm)"

text \<open>The characters for the bytes drawn; a draw that fails is \<open>None\<close>.\<close>

definition RandomCrockford :: "nat \<Rightarrow> bytes option \<Rightarrow> string option" where
  "RandomCrockford n buf = map_option (map (\<lambda>b. crockfordAlphabet ! (unat b mod 32))) buf"

definition GenerateToken :: "bytes option \<Rightarrow> bytes option \<Rightarrow> (string \<times> string \<times> string) option" where
  "GenerateToken b1 b2 =
     (case RandomCrockford tokenIDLen b1 of
        None \<Rightarrow> None
      | Some tid \<Rightarrow>
          (case RandomCrockford tokenSecretLen b2 of
             None \<Rightarrow> None
           | Some secret \<Rightarrow> Some (AssembleToken tid secret, tid, secret)))"

definition GenerateSSHKeyID :: "bytes option \<Rightarrow> string option" where
  "GenerateSSHKeyID b = map_option (\<lambda>s. ''bvsk_'' @ s) (RandomCrockford 24 b)"

section \<open>Scopes as sets of bits\<close>

lemma and_single: "(s :: 64 word) AND push_bit n 1 = (if bit s n then push_bit n 1 else 0)"
  by (rule bit_word_eqI) (auto simp: bit_simps)

lemma scope_bit [simp]:
  "(s AND ScopeRepoRead \<noteq> 0) = bit s 0" "(s AND ScopeRepoWrite \<noteq> 0) = bit s 1" "(s AND ScopeRepoAdmin \<noteq> 0) = bit s 2"
  "(s AND ScopeLFSRead \<noteq> 0) = bit s 3" "(s AND ScopeLFSWrite \<noteq> 0) = bit s 4"
  "(s AND ScopeWebhookAdmin \<noteq> 0) = bit s 5" "(s AND ScopeStorageAdmin \<noteq> 0) = bit s 6"
  unfolding scope_bits and_single by simp_all

lemma bit_single: "m < 64 \<Longrightarrow> bit (push_bit m 1 :: 64 word) n = (n = m)"
  by (auto simp: bit_exp_iff)

lemma bit_scope [simp]:
  "bit ScopeRepoRead n = (n = 0)" "bit ScopeRepoWrite n = (n = 1)" "bit ScopeRepoAdmin n = (n = 2)"
  "bit ScopeLFSRead n = (n = 3)" "bit ScopeLFSWrite n = (n = 4)"
  "bit ScopeWebhookAdmin n = (n = 5)" "bit ScopeStorageAdmin n = (n = 6)"
  unfolding scope_bits by (rule bit_single, simp)+

lemma bit_mask_all [simp]: "bit ScopeMaskAll n \<longleftrightarrow> n < 7"
  unfolding ScopeMaskAll_def by (auto simp: bit_or_iff)

lemma bit_Effective:
  "bit (EffectiveScopes s) n \<longleftrightarrow>
     bit s n \<or> (n = 0 \<and> (bit s 1 \<or> bit s 2)) \<or> (n = 1 \<and> bit s 2) \<or> (n = 3 \<and> bit s 4)"
  unfolding EffectiveScopes_def Let_def scope_bit by (auto simp: bit_or_iff split: if_splits)


text \<open>C23: a check for one capability passes exactly when the token is a legacy token or holds the
  capability or one above it: writing implies reading, and administering a repository implies
  both. Being anonymous passes only the empty requirement.\<close>

theorem CheckScope_capability:
  assumes "c < 64"
  shows "CheckScope actor (push_bit c 1) = None \<longleftrightarrow>
    (\<exists>a. actor = Some a \<and> (ac_Scopes a = 0 \<or> bit (ac_Scopes a) c \<or>
       (c = 0 \<and> (bit (ac_Scopes a) 1 \<or> bit (ac_Scopes a) 2)) \<or> (c = 1 \<and> bit (ac_Scopes a) 2) \<or>
       (c = 3 \<and> bit (ac_Scopes a) 4)))"
proof -
  have n: "(push_bit c 1 :: 64 word) \<noteq> 0"
    using bit_single [OF assms, of c] by (metis bit_0_eq bot_apply bot_bool_def)
  have h: "scope_Has s (push_bit c 1) \<longleftrightarrow> bit s c" for s
    unfolding scope_Has_def and_single using n by (cases "bit s c") simp_all
  show ?thesis
    unfolding CheckScope_def if_not_P [OF n] h bit_Effective ScopeLegacy_def by (cases actor) auto
qed

theorem CheckScope_capability_witness:
  "CheckScope (Some \<lparr>ac_UserID = ''u'', ac_Name = ''n'', ac_IsAdmin = False, ac_Scopes = 4\<rparr>) (push_bit 0 1) = None \<and>
   CheckScope (Some \<lparr>ac_UserID = ''u'', ac_Name = ''n'', ac_IsAdmin = False, ac_Scopes = 4\<rparr>) (push_bit 3 1) \<noteq> None"
proof -
  have "bit (4 :: 64 word) 2" "\<not> bit (4 :: 64 word) 3" "\<not> bit (4 :: 64 word) 4" by code_simp+
  with CheckScope_capability [where c = 0 and actor = "Some \<lparr>ac_UserID = ''u'', ac_Name = ''n'', ac_IsAdmin = False, ac_Scopes = 4\<rparr>"]
    CheckScope_capability [where c = 3 and actor = "Some \<lparr>ac_UserID = ''u'', ac_Name = ''n'', ac_IsAdmin = False, ac_Scopes = 4\<rparr>"]
  show ?thesis by simp
qed

section \<open>Scopes as text\<close>

lemma str_split_cons: "c \<notin> set x \<Longrightarrow> str_split c (x @ c # s) = x # str_split c s"
  by (induction x) auto

lemma str_split_one: "c \<notin> set x \<Longrightarrow> str_split c x = [x]"
  by (induction x) auto

lemma str_split_join: "xs \<noteq> [] \<Longrightarrow> \<forall>x \<in> set xs. c \<notin> set x \<Longrightarrow> str_split c (str_join [c] xs) = xs"
  by (induction "[c]" xs rule: str_join.induct) (auto simp: str_split_cons str_split_one)

text \<open>What the parser needs of a name in the table.\<close>

definition good_name :: "string \<Rightarrow> bool" where
  "good_name n \<longleftrightarrow> n \<noteq> [] \<and> CHR '','' \<notin> set n \<and> CHR '':'' \<in> set n \<and> code (hd n) < 128 \<and> \<not> is_space (code (hd n)) \<and>
     code (last n) < 128 \<and> \<not> is_space (code (last n)) \<and> n \<noteq> ''repo:*'' \<and> n \<noteq> ''lfs:*''"

lemma scopeNames_good: "list_all (\<lambda>(b, n). good_name n \<and> nameToScope n = Some b) scopeNames"
  by (simp add: scopeNames_def good_name_def nameToScope_def is_space_def)

lemma parse_names:
  "list_all (\<lambda>(b, n). good_name n \<and> nameToScope n = Some b) ps \<Longrightarrow>
   parse_scope_list (map snd ps) out = Inr (fold (\<lambda>p o'. o' OR fst p) ps out)"
proof (induction ps arbitrary: out)
  case (Cons p ps)
  obtain b n where p: "p = (b, n)" by fastforce
  have g: "good_name n" "nameToScope n = Some b" using Cons.prems by (simp_all add: p)
  have "trim_space n = n" using g(1) by (intro trim_space_ascii) (auto simp: good_name_def)
  with g Cons show ?case by (simp add: p good_name_def)
qed simp

lemma fold_or_filter:
  "fold (\<lambda>p o'. o' OR fst p) (filter P ps) (out :: 64 word) = fold (\<lambda>p o'. o' OR (if P p then fst p else 0)) ps out"
  by (induction ps arbitrary: out) auto

lemma or_selected:
  "fold (\<lambda>p o'. o' OR fst p) (filter (\<lambda>p. s AND fst p \<noteq> 0) scopeNames) 0 = s AND ScopeMaskAll"
proof -
  have sel: "(if s AND push_bit n 1 \<noteq> 0 then push_bit n 1 else 0) = s AND push_bit n 1" for n
    unfolding and_single by simp
  have "fold (\<lambda>p o'. o' OR fst p) (filter (\<lambda>p. s AND fst p \<noteq> 0) scopeNames) 0 =
      fold (\<lambda>p o'. o' OR s AND fst p) scopeNames 0"
    unfolding fold_or_filter scopeNames_def fold_simps fst_conv scope_bits sel ..
  also have "\<dots> = s AND ScopeMaskAll"
    by (simp add: scopeNames_def ScopeMaskAll_def bit.conj_disj_distrib or.assoc)
  finally show ?thesis .
qed

lemma names_sorted:
  "sort_by indexOfScopeName (map snd (filter P scopeNames)) = map snd (filter P scopeNames)"
proof (rule sort_key_id_if_sorted)
  have "sorted (map (\<lambda>p. indexOfScopeName (snd p)) scopeNames)"
    by (simp add: scopeNames_def indexOfScopeName_def)
  then have "sorted (map (\<lambda>p. indexOfScopeName (snd p)) (filter P scopeNames))"
    by (rule sorted_filter)
  then show "sorted (map indexOfScopeName (map snd (filter P scopeNames)))" by (simp add: o_def)
qed

lemma hd_last_join:
  assumes "xs \<noteq> []" "\<forall>x \<in> set xs. x \<noteq> []"
  shows "str_join sep xs \<noteq> []" "hd (str_join sep xs) = hd (hd xs)" "last (str_join sep xs) = last (last xs)"
  using assms by (induction sep xs rule: str_join.induct) auto

lemma trim_join:
  assumes "xs \<noteq> []" "\<forall>x \<in> set xs. good_name x"
  shows "trim_space (str_join sep xs) = str_join sep xs"
proof -
  have nn: "\<forall>x \<in> set xs. x \<noteq> []" using assms(2) by (auto simp: good_name_def)
  have "good_name (hd xs)" "good_name (last xs)" using assms by simp_all
  with hd_last_join [OF assms(1) nn, of sep] show ?thesis
    by (intro trim_space_ascii) (simp_all add: good_name_def)
qed

lemma set_join: "xs \<noteq> [] \<Longrightarrow> set (hd xs) \<subseteq> set (str_join sep xs)"
  by (cases "(sep, xs)" rule: str_join.cases) auto

text \<open>C30: a set of valid scopes is what its text form is parsed back to.\<close>

theorem ParseScopes_FormatScopes:
  assumes "ValidateScopes s = None"
  shows "ParseScopes (FormatScopes s) = Inr s"
proof -
  have mask: "s AND ScopeMaskAll = s"
  proof (cases "s = 0")
    case False
    then have "s AND NOT ScopeMaskAll = 0"
      using assms by (auto simp: ValidateScopes_def ScopeLegacy_def split: if_splits)
    then have "\<not> bit (s AND NOT ScopeMaskAll) n" for n by simp
    then have "bit s n \<longrightarrow> bit ScopeMaskAll n" if "n < 64" for n
      using that by (auto simp: bit_and_iff bit_not_iff simp del: bit_mask_all)
    then show ?thesis by (intro bit_word_eqI) (auto simp: bit_and_iff simp del: bit_mask_all)
  qed simp
  let ?ps = "filter (\<lambda>p. s AND fst p \<noteq> 0) scopeNames"
  show ?thesis
  proof (cases "s = 0 \<or> s = ScopeMaskAll")
    case True
    moreover have "trim_space ''legacy'' = ''legacy''" "trim_space ''all'' = ''all''"
      by (rule trim_space_ascii; simp add: is_space_def)+
    moreover have "ScopeMaskAll \<noteq> 0" using bit_mask_all [of 0] by (auto simp del: bit_mask_all)
    ultimately show ?thesis
      by (auto simp: FormatScopes_def ParseScopes_def ScopeLegacy_def)
  next
    case False
    have good: "list_all (\<lambda>(b, n). good_name n \<and> nameToScope n = Some b) ?ps"
      using scopeNames_good by (auto simp: list_all_iff)
    have "?ps \<noteq> []" using or_selected [of s] mask False by (auto simp del: scope_bit)
    then have ne: "map snd ?ps \<noteq> []" by simp
    have gn: "\<forall>n \<in> set (map snd ?ps). good_name n" using good by (auto simp: list_all_iff)
    have fmt: "FormatScopes s = str_join '','' (map snd ?ps)"
      using False mask by (simp add: FormatScopes_def ScopeLegacy_def names_sorted)
    have nn: "\<forall>n \<in> set (map snd ?ps). n \<noteq> []" using gn by (auto simp: good_name_def)
    note hl = hd_last_join [OF ne nn, of "'',''"]
    have gh: "good_name (hd (map snd ?ps))" "good_name (last (map snd ?ps))"
      using gn hd_in_set [OF ne] last_in_set [OF ne] by blast+
    have trim: "trim_space (str_join '','' (map snd ?ps)) = str_join '','' (map snd ?ps)"
      by (rule trim_join [OF ne gn])
    have sp: "str_split (CHR '','') (str_join '','' (map snd ?ps)) = map snd ?ps"
      using ne gn by (intro str_split_join) (auto simp: good_name_def)
    have ps: "parse_scope_list (map snd ?ps) 0 = Inr s"
      using parse_names [OF good, of 0] or_selected [of s] mask by simp
    have "CHR '':'' \<in> set (str_join '','' (map snd ?ps))"
      using gh(1) set_join [OF ne] unfolding good_name_def by blast
    then have "str_join '','' (map snd ?ps) \<noteq> ''all''" "str_join '','' (map snd ?ps) \<noteq> ''legacy''"
      by (auto simp del: set_map)
    with fmt trim sp ps hl(1) False show ?thesis
      by (simp add: ParseScopes_def Let_def)
  qed
qed

theorem ParseScopes_FormatScopes_witness: "ParseScopes (FormatScopes 21) = Inr 21"
proof (rule ParseScopes_FormatScopes)
  have "(21 :: 64 word) AND NOT ScopeMaskAll = 0" by code_simp
  then show "ValidateScopes 21 = None" by (simp add: ValidateScopes_def)
qed

section \<open>Decisions and tokens\<close>

text \<open>C22: an action on a repository is allowed exactly to administrators, to readers when the
  repository is public or they hold the read permission, and to writers who hold the write
  permission; an anonymous caller never profits from a permission passed along with the call,
  and a refusal, never an approval, carries a reason.\<close>

theorem Decide_exact:
  "(fst (Decide actor perm action publicRead) \<longleftrightarrow>
     (\<exists>a. actor = Some a \<and> ac_IsAdmin a) \<or>
     (action = ActionRead \<and> (publicRead \<or> (actor \<noteq> None \<and> PermRead \<le> perm))) \<or>
     (action = ActionWrite \<and> actor \<noteq> None \<and> PermWrite \<le> perm)) \<and>
   (snd (Decide actor perm action publicRead) = [] \<longleftrightarrow> fst (Decide actor perm action publicRead))"
  by (cases actor; cases action; auto simp: Decide_def perm_levels)

lemma crockford_no_sep: "isCrockford s \<Longrightarrow> CHR ''_'' \<notin> set s"
  by (auto simp: isCrockford_def crockfordAlphabet_def list_all_iff)

text \<open>C24: a token text is accepted exactly when it is the wire form of an id and a secret of the
  right lengths over the alphabet, and those are what it is split into.\<close>

theorem ParseToken_exact:
  "ParseToken t = Inr (tid, secret) \<longleftrightarrow>
     t = AssembleToken tid secret \<and> length tid = tokenIDLen \<and> length secret = tokenSecretLen \<and>
     isCrockford tid \<and> isCrockford secret"
proof
  assume p: "ParseToken t = Inr (tid, secret)"
  then have sp: "str_split (CHR ''_'') t = [tokenPrefix, tid, secret]"
    and r: "length tid = tokenIDLen" "length secret = tokenSecretLen" "isCrockford tid" "isCrockford secret"
    by (auto simp: ParseToken_def split: list.splits if_splits)
  have "t = str_join ''_'' [tokenPrefix, tid, secret]"
    using str_join_split [of "CHR ''_''" t] sp by simp
  with r show "t = AssembleToken tid secret \<and> length tid = tokenIDLen \<and> length secret = tokenSecretLen \<and>
     isCrockford tid \<and> isCrockford secret" by (simp add: AssembleToken_def)
next
  assume a: "t = AssembleToken tid secret \<and> length tid = tokenIDLen \<and> length secret = tokenSecretLen \<and>
     isCrockford tid \<and> isCrockford secret"
  have "t = str_join ''_'' [tokenPrefix, tid, secret]" using a by (simp add: AssembleToken_def)
  moreover have "str_split (CHR ''_'') (str_join ''_'' [tokenPrefix, tid, secret]) = [tokenPrefix, tid, secret]"
    using a crockford_no_sep by (intro str_split_join) (auto simp: tokenPrefix_def)
  ultimately show "ParseToken t = Inr (tid, secret)" using a by (simp add: ParseToken_def)
qed

lemma RandomCrockford_ok:
  assumes "RandomCrockford n (Some bs) = Some s"
  shows "length s = length bs" "isCrockford s"
proof -
  have "length crockfordAlphabet = 32" by (simp add: crockfordAlphabet_def)
  then have "crockfordAlphabet ! (unat b mod 32) \<in> set crockfordAlphabet" for b :: byte by (intro nth_mem) simp
  with assms show "length s = length bs" "isCrockford s"
    by (auto simp: RandomCrockford_def isCrockford_def list_all_iff)
qed

lemma GenerateToken_parses:
  assumes "length b1 = tokenIDLen" "length b2 = tokenSecretLen"
  shows "\<exists>token tid secret. GenerateToken (Some b1) (Some b2) = Some (token, tid, secret) \<and>
     ParseToken token = Inr (tid, secret)"
proof -
  obtain i s where r: "RandomCrockford tokenIDLen (Some b1) = Some i" "RandomCrockford tokenSecretLen (Some b2) = Some s"
    by (simp add: RandomCrockford_def)
  have "ParseToken (AssembleToken i s) = Inr (i, s)"
    using RandomCrockford_ok [OF r(1)] RandomCrockford_ok [OF r(2)] assms by (simp add: ParseToken_exact)
  with r show ?thesis by (simp add: GenerateToken_def)
qed

end
