(* ===== verification/Rate_Limit.thy ===== *)
theory Rate_Limit
  imports Complex_Main Bv_Prelude
begin

text \<open>
  The limiter of failed credentials (\<open>internal/auth/ratelimit\<close>). A bucket counts failures that decay
  with time; one map of buckets is per source address, one per account. Instants are nanoseconds
  of the monotonic clock and every reading of it is an argument. A duration is a signed 64-bit
  number of nanoseconds: the difference of two instants saturates and products wrap. Counts are
  rationals, so the rounding of \<open>float64\<close> is not modelled, and quotas are integers, so that a quota
  of the largest \<open>int\<close>, to which no one can be added, is not. The mutex makes each operation one
  step.
\<close>

section \<open>The limiter\<close>

record lim_Config =
  cf_Burst :: int
  cf_UserBurst :: int
  cf_RefillPerMinute :: rat
  cf_SweepInterval :: int

definition second :: int where "second = 1000000000"

definition DefaultConfig :: lim_Config where
  "DefaultConfig = \<lparr>cf_Burst = 10, cf_UserBurst = 100, cf_RefillPerMinute = 1, cf_SweepInterval = 5 * 60 * second\<rparr>"

datatype LimitedBucket = BucketNone | BucketIP | BucketUser

record lim_bucket =
  bk_failures :: rat
  bk_lastDecay :: int

record Limiter =
  lm_cfg :: lim_Config
  lm_perIP :: "string \<rightharpoonup> lim_bucket"
  lm_perUser :: "string \<rightharpoonup> lim_bucket"

definition NewLimiter :: "lim_Config \<Rightarrow> Limiter" where
  "NewLimiter cfg0 =
     (let cfg1 = (if cf_Burst cfg0 < 1 then cfg0\<lparr>cf_Burst := cf_Burst DefaultConfig\<rparr> else cfg0);
          cfg2 = (if cf_RefillPerMinute cfg1 < 0 then cfg1\<lparr>cf_RefillPerMinute := 0\<rparr> else cfg1);
          cfg3 = (if cf_UserBurst cfg2 < 0 then cfg2\<lparr>cf_UserBurst := 0\<rparr> else cfg2) in
      \<lparr>lm_cfg = cfg3, lm_perIP = Map.empty, lm_perUser = Map.empty\<rparr>)"

definition seconds :: "int \<Rightarrow> rat" where
  "seconds d = of_int d / of_int second"

definition decayLocked :: "lim_Config \<Rightarrow> lim_bucket \<Rightarrow> int \<Rightarrow> lim_bucket" where
  "decayLocked cfg b now =
     (if cf_RefillPerMinute cfg \<le> 0 then b\<lparr>bk_lastDecay := now\<rparr>
      else
        (let elapsed = seconds (sat64 (now - bk_lastDecay b)) in
         if elapsed \<le> 0 then b
         else
           (let r = cf_RefillPerMinute cfg / 60; f = bk_failures b - r * elapsed in
            b\<lparr>bk_failures := (if f < 0 then 0 else f), bk_lastDecay := now\<rparr>)))"

text \<open>The conversion of a whole \<open>float64\<close> to a duration. The language leaves a value out of range to the
  implementation; this is what amd64 does.\<close>

definition duration_of_float :: "int \<Rightarrow> int" where
  "duration_of_float n = (if - (2 ^ 63) \<le> n \<and> n < 2 ^ 63 then n else - (2 ^ 63))"

definition retryAfterLocked :: "lim_Config \<Rightarrow> lim_bucket \<Rightarrow> int \<Rightarrow> int" where
  "retryAfterLocked cfg b burst =
     (if cf_RefillPerMinute cfg \<le> 0 then 10 * 60 * second
      else
        (let r = cf_RefillPerMinute cfg / 60; excess = bk_failures b - of_int (burst - 1) in
         if excess \<le> 0 then 0 else wrap64 (duration_of_float \<lceil>excess / r\<rceil> * second)))"

type_synonym check_result = "bool \<times> int \<times> LimitedBucket"

text \<open>A nil limiter is \<open>None\<close>: it allows everything and records nothing.\<close>

definition check_user :: "string \<Rightarrow> int \<Rightarrow> Limiter \<Rightarrow> check_result \<times> Limiter" where
  "check_user user now l =
     (let cfg = lm_cfg l in
      if user \<noteq> [] \<and> cf_UserBurst cfg > 0 then
        (case lm_perUser l user of
           None \<Rightarrow> ((True, 0, BucketNone), l)
         | Some b0 \<Rightarrow>
             (let b = decayLocked cfg b0 now; l1 = l\<lparr>lm_perUser := (lm_perUser l)(user \<mapsto> b)\<rparr> in
              if bk_failures b \<ge> of_int (cf_UserBurst cfg)
              then ((False, retryAfterLocked cfg b (cf_UserBurst cfg), BucketUser), l1)
              else ((True, 0, BucketNone), l1)))
      else ((True, 0, BucketNone), l))"

definition check_limiter :: "string \<Rightarrow> string \<Rightarrow> int \<Rightarrow> Limiter \<Rightarrow> check_result \<times> Limiter" where
  "check_limiter ip user now l =
     (case lm_perIP l ip of
        None \<Rightarrow> check_user user now l
      | Some b0 \<Rightarrow>
          (let b = decayLocked (lm_cfg l) b0 now; l1 = l\<lparr>lm_perIP := (lm_perIP l)(ip \<mapsto> b)\<rparr> in
           if bk_failures b \<ge> of_int (cf_Burst (lm_cfg l))
           then ((False, retryAfterLocked (lm_cfg l) b (cf_Burst (lm_cfg l)), BucketIP), l1)
           else check_user user now l1))"

definition CheckDetailed :: "Limiter option \<Rightarrow> string \<Rightarrow> string \<Rightarrow> int \<Rightarrow> check_result \<times> Limiter option" where
  "CheckDetailed lo ip user now =
     (case lo of
        None \<Rightarrow> ((True, 0, BucketNone), None)
      | Some l \<Rightarrow> (case check_limiter ip user now l of (r, l1) \<Rightarrow> (r, Some l1)))"

definition lim_Check :: "Limiter option \<Rightarrow> string \<Rightarrow> string \<Rightarrow> int \<Rightarrow> (bool \<times> int) \<times> Limiter option" where
  "lim_Check lo ip user now =
     (case CheckDetailed lo ip user now of ((allowed, retry, _), lo1) \<Rightarrow> ((allowed, retry), lo1))"

text \<open>\<open>getBucketLocked\<close> reads the clock once more when it creates a bucket.\<close>

definition getBucketLocked :: "(string \<rightharpoonup> lim_bucket) \<Rightarrow> string \<Rightarrow> int \<Rightarrow> lim_bucket" where
  "getBucketLocked m key now' =
     (case m key of Some b \<Rightarrow> b | None \<Rightarrow> \<lparr>bk_failures = 0, bk_lastDecay = now'\<rparr>)"

definition add_failure :: "lim_Config \<Rightarrow> int \<Rightarrow> lim_bucket \<Rightarrow> int \<Rightarrow> lim_bucket" where
  "add_failure cfg burst b0 now =
     (let b = decayLocked cfg b0 now; maxFailures = of_int (burst + 1) in
      b\<lparr>bk_failures := (if bk_failures b + 1 > maxFailures then maxFailures else bk_failures b + 1)\<rparr>)"

definition MarkFailure :: "string \<Rightarrow> string \<Rightarrow> int \<Rightarrow> int \<Rightarrow> int \<Rightarrow> Limiter option \<Rightarrow> Limiter option" where
  "MarkFailure ip user now now1 now2 lo =
     map_option (\<lambda>l.
       let cfg = lm_cfg l;
           l1 = l\<lparr>lm_perIP := (lm_perIP l)(ip \<mapsto> add_failure cfg (cf_Burst cfg) (getBucketLocked (lm_perIP l) ip now1) now)\<rparr> in
       if user \<noteq> [] \<and> cf_UserBurst cfg > 0 then
         l1\<lparr>lm_perUser := (lm_perUser l1)(user \<mapsto>
              add_failure cfg (cf_UserBurst cfg) (getBucketLocked (lm_perUser l1) user now2) now)\<rparr>
       else l1) lo"

definition reset_bucket :: "string \<Rightarrow> int \<Rightarrow> (string \<rightharpoonup> lim_bucket) \<Rightarrow> (string \<rightharpoonup> lim_bucket)" where
  "reset_bucket key now m =
     (case m key of None \<Rightarrow> m | Some b \<Rightarrow> m(key \<mapsto> b\<lparr>bk_failures := 0, bk_lastDecay := now\<rparr>))"

definition MarkSuccess :: "string \<Rightarrow> string \<Rightarrow> int \<Rightarrow> Limiter option \<Rightarrow> Limiter option" where
  "MarkSuccess ip user now lo =
     map_option (\<lambda>l.
       let l1 = l\<lparr>lm_perIP := reset_bucket ip now (lm_perIP l)\<rparr> in
       if user \<noteq> [] then l1\<lparr>lm_perUser := reset_bucket user now (lm_perUser l1)\<rparr> else l1) lo"

definition idle_cutoff :: "lim_Config \<Rightarrow> int" where
  "idle_cutoff cfg = wrap64 (2 * cf_SweepInterval cfg)"

definition sweep_map :: "lim_Config \<Rightarrow> int \<Rightarrow> (string \<rightharpoonup> lim_bucket) \<Rightarrow> (string \<rightharpoonup> lim_bucket)" where
  "sweep_map cfg now m = (\<lambda>k.
     case m k of
       None \<Rightarrow> None
     | Some b0 \<Rightarrow>
         (let idleCutoff = idle_cutoff cfg; idle = sat64 (now - bk_lastDecay b0); b = decayLocked cfg b0 now in
          if bk_failures b \<le> 0 \<or> (cf_RefillPerMinute cfg > 0 \<and> idle > idleCutoff) then None else Some b))"

definition sweepOnce :: "int \<Rightarrow> Limiter \<Rightarrow> Limiter" where
  "sweepOnce now l = l\<lparr>lm_perIP := sweep_map (lm_cfg l) now (lm_perIP l), lm_perUser := sweep_map (lm_cfg l) now (lm_perUser l)\<rparr>"

section \<open>Decay\<close>

lemma seconds_pos: "seconds d \<le> 0 \<longleftrightarrow> d \<le> 0" "0 < seconds d \<longleftrightarrow> 0 < d"
  by (simp_all add: seconds_def second_def divide_le_0_iff zero_less_divide_iff)

lemma seconds_add: "seconds (a + b) = seconds a + seconds b"
  by (simp add: seconds_def add_divide_distrib)

text \<open>The count a bucket has at an instant.\<close>

definition level :: "lim_Config \<Rightarrow> lim_bucket \<Rightarrow> int \<Rightarrow> rat" where
  "level cfg b now = bk_failures (decayLocked cfg b now)"

lemma level_decay:
  assumes "0 < cf_RefillPerMinute cfg" "0 \<le> bk_failures b" "bk_lastDecay b \<le> now" "now - bk_lastDecay b < 2 ^ 63"
  shows "level cfg b now = max 0 (bk_failures b - cf_RefillPerMinute cfg / 60 * seconds (now - bk_lastDecay b))"
proof (cases "bk_lastDecay b < now")
  case True
  with assms show ?thesis by (auto simp: level_def decayLocked_def Let_def seconds_pos sat64_id max_def not_less)
next
  case False
  with assms have "now = bk_lastDecay b" by simp
  with assms show ?thesis by (simp add: level_def decayLocked_def Let_def seconds_def sat64_def max_def)
qed

lemma level_nonneg: "0 \<le> bk_failures b \<Longrightarrow> 0 \<le> level cfg b now"
  by (auto simp: level_def decayLocked_def Let_def)

lemma decay_last: "0 < cf_RefillPerMinute cfg \<Longrightarrow> bk_lastDecay (decayLocked cfg b now) = max (bk_lastDecay b) now"
  by (auto simp: decayLocked_def Let_def seconds_pos sat64_sign)

text \<open>Decaying twice is decaying once, so looking at a bucket early does not change it.\<close>

lemma level_twice:
  assumes "0 \<le> bk_failures b" "t \<le> t'" "t' - bk_lastDecay b < 2 ^ 63"
  shows "level cfg (decayLocked cfg b t) t' = level cfg b t'"
proof (cases "0 < cf_RefillPerMinute cfg")
  case r: True
  let ?r = "cf_RefillPerMinute cfg / 60"
  show ?thesis
  proof (cases "bk_lastDecay b \<le> t")
    case True
    let ?b = "decayLocked cfg b t"
    have f: "bk_failures ?b = max 0 (bk_failures b - ?r * seconds (t - bk_lastDecay b))"
      using level_decay [OF r assms(1) True] assms(2,3) by (simp add: level_def)
    have l: "bk_lastDecay ?b = t" using decay_last [OF r, of b t] True by simp
    have "level cfg ?b t' = max 0 (bk_failures ?b - ?r * seconds (t' - t))"
      using level_decay [OF r, of ?b t'] f l assms(2,3) True by simp
    also have "\<dots> = max 0 (bk_failures b - ?r * (seconds (t - bk_lastDecay b) + seconds (t' - t)))"
    proof -
      have "0 \<le> ?r * seconds (t' - t)" using r assms(2) seconds_pos(2) [of "t' - t"]
        by (intro mult_nonneg_nonneg) (auto simp: seconds_def second_def)
      then show ?thesis unfolding f by (simp add: max_def algebra_simps)
    qed
    also have "seconds (t - bk_lastDecay b) + seconds (t' - t) = seconds (t' - bk_lastDecay b)"
      using seconds_add [of "t - bk_lastDecay b" "t' - t"] by simp
    finally show ?thesis using level_decay [OF r assms(1), of t'] True assms(2,3) by simp
  next
    case False
    then have "decayLocked cfg b t = b" using r by (simp add: decayLocked_def Let_def seconds_pos sat64_sign)
    then show ?thesis by simp
  qed
next
  case False
  then show ?thesis by (simp add: level_def decayLocked_def)
qed

section \<open>What a check sees\<close>

definition lvl :: "lim_Config \<Rightarrow> (string \<rightharpoonup> lim_bucket) \<Rightarrow> string \<Rightarrow> int \<Rightarrow> rat" where
  "lvl cfg m k now = (case m k of None \<Rightarrow> 0 | Some b \<Rightarrow> level cfg b now)"

definition retry_of :: "lim_Config \<Rightarrow> rat \<Rightarrow> int \<Rightarrow> int" where
  "retry_of cfg f burst = retryAfterLocked cfg \<lparr>bk_failures = f, bk_lastDecay = 0\<rparr> burst"

definition verdict_of :: "lim_Config \<Rightarrow> string \<Rightarrow> rat \<Rightarrow> rat \<Rightarrow> check_result" where
  "verdict_of cfg user x y =
     (if x \<ge> of_int (cf_Burst cfg) then (False, retry_of cfg x (cf_Burst cfg), BucketIP)
      else if user \<noteq> [] \<and> cf_UserBurst cfg > 0 \<and> y \<ge> of_int (cf_UserBurst cfg)
      then (False, retry_of cfg y (cf_UserBurst cfg), BucketUser)
      else (True, 0, BucketNone))"

definition buckets_in :: "int \<Rightarrow> (string \<rightharpoonup> lim_bucket) \<Rightarrow> bool" where
  "buckets_in burst m \<longleftrightarrow> (\<forall>k b. m k = Some b \<longrightarrow> 0 \<le> bk_failures b \<and> bk_failures b \<le> of_int (burst + 1))"

definition cfg_ok :: "lim_Config \<Rightarrow> bool" where
  "cfg_ok cfg \<longleftrightarrow> 1 \<le> cf_Burst cfg \<and> 0 \<le> cf_UserBurst cfg \<and> 0 \<le> cf_RefillPerMinute cfg"

definition lim_ok :: "Limiter \<Rightarrow> bool" where
  "lim_ok l \<longleftrightarrow> cfg_ok (lm_cfg l) \<and> buckets_in (cf_Burst (lm_cfg l)) (lm_perIP l) \<and>
     buckets_in (cf_UserBurst (lm_cfg l)) (lm_perUser l)"

lemma CheckDetailed_fst: "fst (CheckDetailed (Some l) ip user now) = fst (check_limiter ip user now l)"
  by (cases "check_limiter ip user now l") (simp add: CheckDetailed_def)

lemma retry_level: "retryAfterLocked cfg (decayLocked cfg b now) burst = retry_of cfg (level cfg b now) burst"
  by (simp add: retry_of_def retryAfterLocked_def level_def)

lemma check_verdict:
  assumes "cfg_ok (lm_cfg l)"
  shows "fst (check_limiter ip user now l) =
    verdict_of (lm_cfg l) user (lvl (lm_cfg l) (lm_perIP l) ip now) (lvl (lm_cfg l) (lm_perUser l) user now)"
  using assms
  by (auto simp: check_limiter_def check_user_def verdict_of_def lvl_def Let_def retry_level level_def [symmetric] cfg_ok_def
      split: option.splits)

lemma decay_in:
  "0 \<le> bk_failures b \<Longrightarrow> bk_failures b \<le> of_int (burst + 1) \<Longrightarrow>
   0 \<le> bk_failures (decayLocked cfg b now) \<and> bk_failures (decayLocked cfg b now) \<le> of_int (burst + 1)"
proof -
  assume b: "0 \<le> bk_failures b" "bk_failures b \<le> of_int (burst + 1)"
  have "bk_failures (decayLocked cfg b now) \<le> bk_failures b"
    using b(1) by (auto simp: decayLocked_def Let_def)
  with b level_nonneg [OF b(1), of cfg now] show ?thesis by (simp add: level_def)
qed

lemma buckets_upd:
  "buckets_in burst m \<Longrightarrow> 0 \<le> bk_failures b \<Longrightarrow> bk_failures b \<le> of_int (burst + 1) \<Longrightarrow> buckets_in burst (m(k \<mapsto> b))"
  by (auto simp: buckets_in_def)

lemma buckets_decay: "buckets_in burst m \<Longrightarrow> m k = Some b \<Longrightarrow> buckets_in burst (m(k \<mapsto> decayLocked cfg b now))"
  by (rule buckets_upd) (use decay_in [of b burst] in \<open>auto simp: buckets_in_def\<close>)

lemma add_failure_in:
  assumes "0 \<le> bk_failures b" "bk_failures b \<le> of_int (burst + 1)" "0 \<le> burst"
  shows "0 \<le> bk_failures (add_failure cfg burst b now)" "bk_failures (add_failure cfg burst b now) \<le> of_int (burst + 1)"
  using decay_in [OF assms(1,2), of cfg now] assms(3) by (auto simp: add_failure_def Let_def)

lemma getBucket_in:
  "buckets_in burst m \<Longrightarrow> 0 \<le> burst \<Longrightarrow> 0 \<le> bk_failures (getBucketLocked m k t) \<and> bk_failures (getBucketLocked m k t) \<le> of_int (burst + 1)"
  by (auto simp: buckets_in_def getBucketLocked_def split: option.splits)

lemma buckets_sweep: "buckets_in burst m \<Longrightarrow> buckets_in burst (sweep_map cfg now m)"
  using decay_in [of _ burst cfg now]
  by (fastforce simp: buckets_in_def sweep_map_def Let_def split: option.splits if_splits)

lemma buckets_reset: "buckets_in burst m \<Longrightarrow> 0 \<le> burst \<Longrightarrow> buckets_in burst (reset_bucket k now m)"
  by (auto simp: reset_bucket_def buckets_in_def split: option.splits)

section \<open>Runs\<close>

datatype lim_event =
  EvFail string string int int int | EvSuccess string string int | EvCheck string string int | EvSweep int

definition lim_step :: "lim_event \<Rightarrow> Limiter \<Rightarrow> Limiter" where
  "lim_step ev l = (case ev of
     EvFail ip user now now1 now2 \<Rightarrow> the (MarkFailure ip user now now1 now2 (Some l))
   | EvSuccess ip user now \<Rightarrow> the (MarkSuccess ip user now (Some l))
   | EvCheck ip user now \<Rightarrow> the (snd (CheckDetailed (Some l) ip user now))
   | EvSweep now \<Rightarrow> sweepOnce now l)"

lemma lim_step_cfg [simp]: "lm_cfg (lim_step ev l) = lm_cfg l"
  by (cases ev)
    (auto simp: lim_step_def MarkFailure_def MarkSuccess_def CheckDetailed_def check_limiter_def check_user_def sweepOnce_def
      Let_def split: option.splits prod.splits if_splits)

text \<open>What an event does to one of the two maps: at most one bucket is touched, except by a sweep.\<close>

inductive map_step :: "lim_Config \<Rightarrow> int \<Rightarrow> int \<Rightarrow> int \<Rightarrow> (string \<rightharpoonup> lim_bucket) \<Rightarrow> (string \<rightharpoonup> lim_bucket) \<Rightarrow> bool"
  for cfg burst lo hi where
  same: "map_step cfg burst lo hi m m"
| decay: "m k = Some b \<Longrightarrow> lo \<le> now \<Longrightarrow> now \<le> hi \<Longrightarrow> map_step cfg burst lo hi m (m(k \<mapsto> decayLocked cfg b now))"
| fail: "lo \<le> now \<Longrightarrow> now \<le> now' \<Longrightarrow> now' \<le> hi \<Longrightarrow>
    map_step cfg burst lo hi m (m(k \<mapsto> add_failure cfg burst (getBucketLocked m k now') now))"
| reset: "lo \<le> now \<Longrightarrow> now \<le> hi \<Longrightarrow> map_step cfg burst lo hi m (reset_bucket k now m)"
| sweep: "lo \<le> now \<Longrightarrow> now \<le> hi \<Longrightarrow> map_step cfg burst lo hi m (sweep_map cfg now m)"

fun ev_span :: "lim_event \<Rightarrow> int \<times> int" where
  "ev_span (EvFail ip user now now1 now2) = (now, now2)"
| "ev_span (EvSuccess ip user now) = (now, now)"
| "ev_span (EvCheck ip user now) = (now, now)"
| "ev_span (EvSweep now) = (now, now)"

fun ev_ordered :: "lim_event \<Rightarrow> bool" where
  "ev_ordered (EvFail ip user now now1 now2) = (now \<le> now1 \<and> now1 \<le> now2)"
| "ev_ordered _ = True"

lemma lim_step_maps:
  assumes "ev_span ev = (lo, hi)" "ev_ordered ev"
  shows "map_step (lm_cfg l) (cf_Burst (lm_cfg l)) lo hi (lm_perIP l) (lm_perIP (lim_step ev l))"
    "map_step (lm_cfg l) (cf_UserBurst (lm_cfg l)) lo hi (lm_perUser l) (lm_perUser (lim_step ev l))"
  using assms
  by (cases ev; auto simp: lim_step_def MarkFailure_def MarkSuccess_def CheckDetailed_def check_limiter_def check_user_def
      sweepOnce_def Let_def split: option.splits prod.splits if_splits intro: map_step.intros)+

lemma map_step_in:
  assumes "map_step cfg burst lo hi m m'" "buckets_in burst m" "0 \<le> burst"
  shows "buckets_in burst m'"
  using assms(1)
proof cases
  case (fail now now' k)
  show ?thesis
    unfolding fail(1) using getBucket_in [OF assms(2,3), of k now'] assms(2,3)
    by (intro buckets_upd add_failure_in) auto
qed (use assms(2,3) in \<open>auto intro: buckets_decay buckets_reset buckets_sweep\<close>)

definition last_in :: "int \<Rightarrow> int \<Rightarrow> (string \<rightharpoonup> lim_bucket) \<Rightarrow> bool" where
  "last_in a b m \<longleftrightarrow> (\<forall>k x. m k = Some x \<longrightarrow> a \<le> bk_lastDecay x \<and> bk_lastDecay x \<le> b)"

lemma decay_last_in:
  "a \<le> bk_lastDecay b \<Longrightarrow> bk_lastDecay b \<le> t \<Longrightarrow> t \<le> now \<Longrightarrow> now \<le> hi \<Longrightarrow> a \<le> bk_lastDecay (decayLocked cfg b now) \<and> bk_lastDecay (decayLocked cfg b now) \<le> hi"
  by (auto simp: decayLocked_def Let_def)

lemma add_failure_last: "bk_lastDecay (add_failure cfg burst b now) = bk_lastDecay (decayLocked cfg b now)"
  by (simp add: add_failure_def Let_def)

lemma decay_last_either: "bk_lastDecay (decayLocked cfg b now) = now \<or> bk_lastDecay (decayLocked cfg b now) = bk_lastDecay b"
  by (auto simp: decayLocked_def Let_def)

lemma map_step_last:
  assumes "map_step cfg burst lo hi m m'" "last_in a t m" "a \<le> t" "t \<le> lo" "lo \<le> hi"
  shows "last_in a hi m'"
  using assms(1)
proof cases
  case same
  with assms show ?thesis by (fastforce simp: last_in_def)
next
  case (decay k b now)
  have "a \<le> bk_lastDecay b \<and> bk_lastDecay b \<le> t" using assms(2) decay(2) by (auto simp: last_in_def)
  then show ?thesis
    unfolding decay(1) using assms decay(3,4) decay_last_either [of cfg b now] by (fastforce simp: last_in_def)
next
  case (fail now now' k)
  have "a \<le> bk_lastDecay (getBucketLocked m k now') \<and> bk_lastDecay (getBucketLocked m k now') \<le> hi"
    using assms(2-5) fail by (fastforce simp: last_in_def getBucketLocked_def split: option.splits)
  then show ?thesis
    unfolding fail(1) using assms fail(2-4) decay_last_either [of cfg "getBucketLocked m k now'" now]
    by (fastforce simp: last_in_def add_failure_last)
next
  case (reset now k)
  with assms show ?thesis by (fastforce simp: last_in_def reset_bucket_def split: option.splits if_splits)
next
  case (sweep now)
  show ?thesis
    unfolding last_in_def
  proof (intro allI impI)
    fix k x
    assume "m' k = Some x"
    then obtain b where b: "m k = Some b" "x = decayLocked cfg b now"
      by (auto simp: sweep(1) sweep_map_def Let_def split: option.splits if_splits)
    with assms sweep(2,3) decay_last_either [of cfg b now]
    show "a \<le> bk_lastDecay x \<and> bk_lastDecay x \<le> hi" by (fastforce simp: last_in_def)
  qed
qed

text \<open>A run: the clock never goes back and stays in the range of its type, and sweeps are no further
  apart than the idle time after which a sweep evicts a bucket. \<open>T\<close> is the time of the last sweep
  or of the start, \<open>t\<close> the present.\<close>

inductive lim_run :: "int \<Rightarrow> int \<Rightarrow> Limiter \<Rightarrow> bool" where
  start: "0 \<le> T \<Longrightarrow> T < 2 ^ 63 \<Longrightarrow> lim_run T T (NewLimiter cfg)"
| event: "lim_run T t l \<Longrightarrow> ev_span ev = (lo, hi) \<Longrightarrow> ev_ordered ev \<Longrightarrow> t \<le> lo \<Longrightarrow> hi < 2 ^ 63 \<Longrightarrow> \<nexists>n. ev = EvSweep n \<Longrightarrow>
    lim_run T hi (lim_step ev l)"
| sweeping: "lim_run T t l \<Longrightarrow> t \<le> now \<Longrightarrow> now < 2 ^ 63 \<Longrightarrow> now \<le> T + idle_cutoff (lm_cfg l) \<Longrightarrow>
    lim_run now now (lim_step (EvSweep now) l)"

lemma NewLimiter_ok: "lim_ok (NewLimiter cfg)"
  by (auto simp: NewLimiter_def lim_ok_def cfg_ok_def buckets_in_def DefaultConfig_def Let_def)

lemma lim_step_ok: "lim_ok l \<Longrightarrow> ev_ordered ev \<Longrightarrow> lim_ok (lim_step ev l)"
proof -
  assume l: "lim_ok l" and o: "ev_ordered ev"
  obtain lo hi where s: "ev_span ev = (lo, hi)" by fastforce
  from lim_step_maps [OF s o, of l] l show ?thesis
    by (auto simp: lim_ok_def cfg_ok_def intro: map_step_in)
qed

lemma sweep_last: "last_in a t m \<Longrightarrow> t \<le> now \<Longrightarrow> last_in now now (sweep_map cfg now m)"
  by (fastforce simp: last_in_def sweep_map_def decayLocked_def Let_def seconds_pos sat64_sign split: option.splits if_splits)

lemma span_le: "ev_ordered ev \<Longrightarrow> ev_span ev = (lo, hi) \<Longrightarrow> lo \<le> hi"
  by (cases ev) auto

definition lim_inv :: "int \<Rightarrow> int \<Rightarrow> Limiter \<Rightarrow> bool" where
  "lim_inv T t l \<longleftrightarrow> lim_ok l \<and> 0 \<le> T \<and> T \<le> t \<and> t < 2 ^ 63 \<and> last_in T t (lm_perIP l) \<and> last_in T t (lm_perUser l)"

lemma lim_inv_later: "lim_inv T t l \<Longrightarrow> t \<le> t' \<Longrightarrow> t' < 2 ^ 63 \<Longrightarrow> lim_inv T t' l"
  by (fastforce simp: lim_inv_def last_in_def)

lemma lim_inv_event:
  assumes "lim_inv T t l" "ev_span ev = (lo, hi)" "ev_ordered ev" "t \<le> lo" "hi < 2 ^ 63"
  shows "lim_inv T hi (lim_step ev l)"
proof -
  note m = lim_step_maps [OF assms(2,3), of l] and le = span_le [OF assms(3,2)]
  show ?thesis
    using assms(1,4,5) lim_step_ok [OF _ assms(3)] map_step_last [OF m(1) _ _ assms(4) le]
      map_step_last [OF m(2) _ _ assms(4) le] le by (auto simp: lim_inv_def)
qed

lemma lim_inv_sweep:
  assumes "lim_inv T t l" "t \<le> now" "now < 2 ^ 63"
  shows "lim_inv now now (lim_step (EvSweep now) l)"
proof -
  have "lim_ok (lim_step (EvSweep now) l)" using assms(1) by (intro lim_step_ok) (auto simp: lim_inv_def)
  with assms show ?thesis by (auto simp: lim_inv_def lim_step_def sweepOnce_def intro: sweep_last)
qed

lemma lim_run_inv: "lim_run T t l \<Longrightarrow> lim_inv T t l"
proof (induction rule: lim_run.induct)
  case (start T cfg)
  have "lm_perIP (NewLimiter cfg) = Map.empty" "lm_perUser (NewLimiter cfg) = Map.empty"
    by (simp_all add: NewLimiter_def Let_def)
  then show ?case using NewLimiter_ok start by (simp add: lim_inv_def last_in_def)
qed (auto intro: lim_inv_event lim_inv_sweep)

text \<open>How such a run may go on: every clock an event reads shows the same instant, and sweeps stay
  close enough together.\<close>

fun paced :: "int \<Rightarrow> int \<Rightarrow> int \<Rightarrow> lim_event list \<Rightarrow> bool" where
  "paced c T t [] = True"
| "paced c T t (EvFail ip user now now1 now2 # evs) =
     (t \<le> now \<and> now1 = now \<and> now2 = now \<and> now < 2 ^ 63 \<and> paced c T now evs)"
| "paced c T t (EvSuccess ip user now # evs) = (t \<le> now \<and> now < 2 ^ 63 \<and> paced c T now evs)"
| "paced c T t (EvCheck ip user now # evs) = (t \<le> now \<and> now < 2 ^ 63 \<and> paced c T now evs)"
| "paced c T t (EvSweep now # evs) = (t \<le> now \<and> now < 2 ^ 63 \<and> now \<le> T + c \<and> paced c now now evs)"

text \<open>The last sweep and the present after the events.\<close>

fun swept_at :: "int \<Rightarrow> lim_event list \<Rightarrow> int" where
  "swept_at T [] = T"
| "swept_at T (ev # evs) = swept_at (case ev of EvSweep now \<Rightarrow> now | _ \<Rightarrow> T) evs"

fun time_at :: "int \<Rightarrow> lim_event list \<Rightarrow> int" where
  "time_at t [] = t"
| "time_at t (ev # evs) = time_at (snd (ev_span ev)) evs"

lemma paced_Cons:
  "paced c T t (ev # evs) \<longleftrightarrow> t \<le> fst (ev_span ev) \<and> fst (ev_span ev) = snd (ev_span ev) \<and> ev_ordered ev \<and> snd (ev_span ev) < 2 ^ 63 \<and>
     (\<forall>now. ev = EvSweep now \<longrightarrow> now \<le> T + c) \<and>
     paced c (case ev of EvSweep now \<Rightarrow> now | _ \<Rightarrow> T) (snd (ev_span ev)) evs"
  by (cases ev) auto

lemma paced_append:
  "paced c T t (evs @ evs') \<longleftrightarrow> paced c T t evs \<and> paced c (swept_at T evs) (time_at t evs) evs'"
  by (induction evs arbitrary: T t) (auto simp: paced_Cons)

lemma paced_step:
  assumes "lim_inv T t l" "paced c T t [ev]"
  shows "lim_inv (case ev of EvSweep now \<Rightarrow> now | _ \<Rightarrow> T) (snd (ev_span ev)) (lim_step ev l)"
proof (cases "\<exists>now. ev = EvSweep now")
  case True
  with assms lim_inv_sweep [OF assms(1)] show ?thesis by auto
next
  case False
  with assms lim_inv_event [OF assms(1), of ev] show ?thesis
    by (cases "ev_span ev"; cases ev) (auto simp: paced_Cons)
qed

lemma paced_run:
  "lim_inv T t l \<Longrightarrow> paced c T t evs \<Longrightarrow> lim_inv (swept_at T evs) (time_at t evs) (fold lim_step evs l)"
proof (induction evs arbitrary: T t l)
  case (Cons ev evs)
  have p: "paced c T t [ev]" using Cons.prems(2) by (simp add: paced_Cons)
  from Cons.IH [OF paced_step [OF Cons.prems(1) p]] Cons.prems(2) show ?case by (simp add: paced_Cons)
qed simp

section \<open>What an event does to the counts\<close>

text \<open>The buckets were last touched at instants from which a later one can be told.\<close>

definition fits :: "int \<Rightarrow> (string \<rightharpoonup> lim_bucket) \<Rightarrow> bool" where
  "fits t m \<longleftrightarrow> (\<forall>k b. m k = Some b \<longrightarrow> 0 \<le> bk_failures b \<and> 0 \<le> bk_lastDecay b \<and> bk_lastDecay b \<le> t)"

lemma inv_fits:
  assumes "lim_inv T t l" "t \<le> t'"
  shows "fits t' (lm_perIP l)" "fits t' (lm_perUser l)"
  using assms(1) assms(2)
  by (fastforce simp: fits_def lim_inv_def lim_ok_def buckets_in_def last_in_def)+

lemma level_le: "0 \<le> bk_failures b \<Longrightarrow> level cfg b now \<le> bk_failures b"
  by (auto simp: level_def decayLocked_def Let_def zero_le_mult_iff not_le)

lemma lvl_decay:
  assumes "fits now m" "m k = Some b" "now \<le> x" "x < 2 ^ 63"
  shows "lvl cfg (m(k \<mapsto> decayLocked cfg b now)) k' x = lvl cfg m k' x"
  using assms level_twice [of b now x cfg] by (fastforce simp: lvl_def fits_def)

lemma lvl_fail:
  assumes "fits now m"
  shows "lvl cfg (m(k \<mapsto> add_failure cfg burst (getBucketLocked m k now) now)) k' x =
    (if k' = k then level cfg \<lparr>bk_failures = min (lvl cfg m k now + 1) (of_int (burst + 1)), bk_lastDecay = now\<rparr> x
     else lvl cfg m k' x)"
proof -
  let ?b = "getBucketLocked m k now"
  have f: "level cfg ?b now = lvl cfg m k now"
    by (auto simp: getBucketLocked_def lvl_def level_def decayLocked_def Let_def seconds_pos sat64_sign split: option.splits)
  have "bk_lastDecay ?b \<le> now" using assms by (auto simp: fits_def getBucketLocked_def split: option.splits)
  then have "bk_lastDecay (decayLocked cfg ?b now) = now"
    using decay_last [of cfg ?b now] by (cases "0 < cf_RefillPerMinute cfg") (auto simp: decayLocked_def)
  then have "add_failure cfg burst ?b now = \<lparr>bk_failures = min (lvl cfg m k now + 1) (of_int (burst + 1)), bk_lastDecay = now\<rparr>"
    using f by (simp add: add_failure_def Let_def level_def min_def not_le)
  then show ?thesis by (simp add: lvl_def)
qed

lemma lvl_reset: "lvl cfg (reset_bucket k now m) k' x = (if k' = k then 0 else lvl cfg m k' x)"
  by (auto simp: lvl_def reset_bucket_def level_def decayLocked_def Let_def seconds_pos mult_less_0_iff split: option.splits)

lemma lvl_sweep:
  assumes "fits s m" "\<And>k b. m k = Some b \<Longrightarrow> s - bk_lastDecay b \<le> idle_cutoff cfg" "s \<le> now" "now < 2 ^ 63"
  shows "lvl cfg (sweep_map cfg s m) k now = lvl cfg m k now"
proof (cases "m k")
  case (Some b)
  let ?b = "decayLocked cfg b s"
  have b0: "0 \<le> bk_failures b" "0 \<le> bk_lastDecay b" "bk_lastDecay b \<le> s"
    using assms(1) Some by (auto simp: fits_def)
  have tw: "level cfg ?b now = level cfg b now" by (rule level_twice [OF b0(1) assms(3)]) (use b0 assms(4) in simp)
  have nn: "0 \<le> bk_failures ?b" using level_nonneg [OF b0(1), of cfg s] by (simp add: level_def)
  have "sat64 (s - bk_lastDecay b) = s - bk_lastDecay b" by (rule sat64_id) (use b0 assms(3,4) in simp_all)
  then have age: "\<not> sat64 (s - bk_lastDecay b) > idle_cutoff cfg" using assms(2) [OF Some] by simp
  show ?thesis
  proof (cases "bk_failures ?b \<le> 0")
    case True
    then have "level cfg b now = 0" using level_le [OF nn, of cfg now] level_nonneg [OF nn, of cfg now] tw by simp
    with True Some show ?thesis by (simp add: lvl_def sweep_map_def Let_def)
  next
    case False
    with age Some tw show ?thesis by (simp add: lvl_def sweep_map_def Let_def)
  qed
qed (simp add: lvl_def sweep_map_def)

lemma inv_sweep:
  assumes "lim_inv T t l" "t \<le> s" "s \<le> T + idle_cutoff (lm_cfg l)" "s \<le> x" "x < 2 ^ 63"
  shows "lvl (lm_cfg l) (sweep_map (lm_cfg l) s (lm_perIP l)) k x = lvl (lm_cfg l) (lm_perIP l) k x"
    "lvl (lm_cfg l) (sweep_map (lm_cfg l) s (lm_perUser l)) k x = lvl (lm_cfg l) (lm_perUser l) k x"
  using assms(1) assms(3)
  by (intro lvl_sweep inv_fits [OF assms(1,2)] assms(4,5); fastforce simp: lim_inv_def last_in_def)+

lemma lvl_check:
  assumes "fits now (lm_perIP l)" "fits now (lm_perUser l)" "now \<le> x" "x < 2 ^ 63"
  shows "lvl (lm_cfg l) (lm_perIP (lim_step (EvCheck ip user now) l)) k x = lvl (lm_cfg l) (lm_perIP l) k x"
    "lvl (lm_cfg l) (lm_perUser (lim_step (EvCheck ip user now) l)) k x = lvl (lm_cfg l) (lm_perUser l) k x"
  using lvl_decay [OF assms(1) _ assms(3,4)] lvl_decay [OF assms(2) _ assms(3,4)]
  by (auto simp: lim_step_def CheckDetailed_def check_limiter_def check_user_def Let_def split: option.splits prod.splits if_splits)

section \<open>Properties\<close>

text \<open>Two limiters that no check after \<open>t\<close> tells apart.\<close>

definition same_levels :: "int \<Rightarrow> Limiter \<Rightarrow> Limiter \<Rightarrow> bool" where
  "same_levels t l l' \<longleftrightarrow> lm_cfg l' = lm_cfg l \<and> (\<forall>k x. t \<le> x \<longrightarrow> x < 2 ^ 63 \<longrightarrow>
     lvl (lm_cfg l) (lm_perIP l') k x = lvl (lm_cfg l) (lm_perIP l) k x \<and>
     lvl (lm_cfg l) (lm_perUser l') k x = lvl (lm_cfg l) (lm_perUser l) k x)"

lemma same_levels_step:
  assumes "same_levels t l l'" "lim_inv T t l" "lim_inv T' t l'" "T \<le> T'" "paced (idle_cutoff (lm_cfg l)) T t [ev]"
  shows "same_levels (snd (ev_span ev)) (lim_step ev l) (lim_step ev l')"
proof -
  have c: "lm_cfg l' = lm_cfg l" using assms(1) by (simp add: same_levels_def)
  have p: "t \<le> snd (ev_span ev)" using assms(5) by (simp add: paced_Cons)
  note f = inv_fits [OF assms(2) p] and f' = inv_fits [OF assms(3) p]
  show ?thesis
  proof (cases ev)
    case (EvFail ip user now now1 now2)
    with assms(5) have n: "now1 = now" "now2 = now" "t \<le> now" "now < 2 ^ 63" by simp_all
    have L: "lvl (lm_cfg l) (lm_perIP l') k x = lvl (lm_cfg l) (lm_perIP l) k x"
      "lvl (lm_cfg l) (lm_perUser l') k x = lvl (lm_cfg l) (lm_perUser l) k x" if "now \<le> x" "x < 2 ^ 63" for k x
      using assms(1) that n(3) by (simp_all add: same_levels_def)
    show ?thesis
      using f f' L by (auto simp: same_levels_def c EvFail n lim_step_def MarkFailure_def Let_def lvl_fail)
  next
    case (EvSuccess ip user now)
    with assms(1,5) show ?thesis
      by (auto simp: same_levels_def c lim_step_def MarkSuccess_def Let_def lvl_reset)
  next
    case (EvCheck ip user now)
    with assms(1) p lvl_check [OF f, of _ ip user] lvl_check [OF f', of _ ip user] show ?thesis
      by (simp add: same_levels_def c)
  next
    case (EvSweep now)
    with assms(1,4,5) p inv_sweep [OF assms(2), of now] inv_sweep [OF assms(3), of now] show ?thesis
      by (simp add: same_levels_def c lim_step_def sweepOnce_def)
  qed
qed

lemma same_levels_run:
  "same_levels t l l' \<Longrightarrow> lim_inv T t l \<Longrightarrow> lim_inv T' t l' \<Longrightarrow> T \<le> T' \<Longrightarrow> paced (idle_cutoff (lm_cfg l)) T t evs \<Longrightarrow>
   same_levels (time_at t evs) (fold lim_step evs l) (fold lim_step evs l')"
proof (induction evs arbitrary: t T T' l l')
  case (Cons ev evs)
  have p: "paced (idle_cutoff (lm_cfg l)) T t [ev]" using Cons.prems(5) by (simp add: paced_Cons)
  have c: "lm_cfg l' = lm_cfg l" using Cons.prems(1) by (simp add: same_levels_def)
  then have p': "paced (idle_cutoff (lm_cfg l')) T' t [ev]" using p Cons.prems(4) by (cases ev) auto
  have s: "same_levels (snd (ev_span ev)) (lim_step ev l) (lim_step ev l')"
    by (rule same_levels_step [OF Cons.prems(1-4) p])
  show ?case
    using Cons.IH [OF s paced_step [OF Cons.prems(2) p] paced_step [OF Cons.prems(3) p']] Cons.prems(4,5)
    by (cases ev) (auto simp: paced_Cons)
qed simp

lemma fold_cfg [simp]: "lm_cfg (fold lim_step evs l) = lm_cfg l"
  by (induction evs arbitrary: l) auto


definition quick_config :: lim_Config where
  "quick_config = DefaultConfig\<lparr>cf_Burst := 1\<rparr>"

definition quick_run :: Limiter where
  "quick_run = lim_step (EvFail ''a'' ''bob'' 0 0 0) (NewLimiter quick_config)"

lemma quick_run_ok: "lim_run 0 0 quick_run"
  unfolding quick_run_def by (rule lim_run.event [OF lim_run.start]) auto

lemma quick_run_cfg: "lm_cfg quick_run = quick_config"
  by (simp add: quick_run_def quick_config_def NewLimiter_def DefaultConfig_def)


text \<open>The slowest refill for which the wait fits in a duration: two failures, the most a bucket can be
  above its quota, then drain in fewer seconds than a duration can count.\<close>

definition refill_fits :: "lim_Config \<Rightarrow> bool" where
  "refill_fits cfg \<longleftrightarrow> 120 \<le> 9223372036 * cf_RefillPerMinute cfg"

lemma refill_pos: "refill_fits cfg \<Longrightarrow> 0 < cf_RefillPerMinute cfg"
  unfolding refill_fits_def by linarith

text \<open>Below it the product can wrap to a wait of less than no time.\<close>

lemma retry_wraps:
  "retryAfterLocked (DefaultConfig\<lparr>cf_RefillPerMinute := 1 / 250000000\<rparr>) \<lparr>bk_failures = 10, bk_lastDecay = 0\<rparr> 10 < 0"
  by (simp add: retryAfterLocked_def DefaultConfig_def duration_of_float_def wrap64_def second_def)

lemma duration_exact: "0 \<le> n \<Longrightarrow> n \<le> 9223372036 \<Longrightarrow> wrap64 (duration_of_float n * second) = n * second"
  by (simp add: duration_of_float_def wrap64_def second_def)

lemma retry_exact:
  assumes "refill_fits cfg" "of_int burst \<le> f" "f \<le> of_int (burst + 1)"
  shows "retry_of cfg f burst = \<lceil>(f - of_int (burst - 1)) / (cf_RefillPerMinute cfg / 60)\<rceil> * second"
    "0 \<le> \<lceil>(f - of_int (burst - 1)) / (cf_RefillPerMinute cfg / 60)\<rceil>"
proof -
  let ?r = "cf_RefillPerMinute cfg / 60" and ?x = "f - of_int (burst - 1)"
  let ?n = "\<lceil>?x / ?r\<rceil>"
  have r: "0 < ?r" using refill_pos [OF assms(1)] by simp
  have x: "0 < ?x" "?x \<le> 2" using assms(2,3) by simp_all
  have "?x \<le> 9223372036 * ?r" using x(2) assms(1) by (simp add: refill_fits_def)
  then have "?x / ?r \<le> 9223372036" using r by (simp only: divide_le_eq) simp
  then have u: "?n \<le> 9223372036" by (simp add: ceiling_le_iff)
  have "0 \<le> ?x / ?r" using x(1) r by (intro divide_nonneg_nonneg) simp_all
  then show nn: "0 \<le> ?n" using ceiling_mono [of 0 "?x / ?r"] by simp
  have "retry_of cfg f burst = wrap64 (duration_of_float ?n * second)"
    using r x(1) by (simp add: retry_of_def retryAfterLocked_def Let_def)
  then show "retry_of cfg f burst = ?n * second" using duration_exact [OF nn u] by (rule trans)
qed

lemma retry_enough:
  assumes "refill_fits cfg" "of_int burst \<le> f" "f \<le> of_int (burst + 1)" "seconds (retry_of cfg f burst) \<le> e" "1 \<le> burst"
  shows "max 0 (f - cf_RefillPerMinute cfg / 60 * e) < of_int burst"
proof -
  let ?r = "cf_RefillPerMinute cfg / 60" and ?x = "f - of_int (burst - 1)"
  have r: "0 < ?r" using refill_pos [OF assms(1)] by simp
  have "seconds (retry_of cfg f burst) = of_int \<lceil>?x / ?r\<rceil>"
    unfolding retry_exact(1) [OF assms(1-3)] by (simp add: seconds_def second_def)
  with assms(4) have "?x / ?r \<le> e" by linarith
  then have "?x \<le> ?r * e" using r by (simp add: divide_le_eq mult.commute)
  then have "f - ?r * e \<le> of_int (burst - 1)" by simp
  with assms(5) show ?thesis by (auto simp: max_def)
qed

lemma lvl_later:
  assumes "buckets_in burst m" "fits now m" "refill_fits cfg" "1 \<le> burst" "now' < 2 ^ 63"
    "of_int burst \<le> lvl cfg m k now" "now + retry_of cfg (lvl cfg m k now) burst \<le> now'"
  shows "lvl cfg m k now' < of_int burst"
proof -
  have "lvl cfg m k now \<noteq> 0" using assms(4,6) by linarith
  then obtain b where b: "m k = Some b" by (auto simp: lvl_def split: option.splits)
  let ?r = "cf_RefillPerMinute cfg / 60" and ?f = "level cfg b now" and ?b = "decayLocked cfg b now"
  have f: "lvl cfg m k now = ?f" using b by (simp add: lvl_def)
  have b0: "0 \<le> bk_failures b" "bk_failures b \<le> of_int (burst + 1)" "0 \<le> bk_lastDecay b" "bk_lastDecay b \<le> now"
    using assms(1,2) b by (fastforce simp: buckets_in_def fits_def)+
  have fb: "of_int burst \<le> ?f" "?f \<le> of_int (burst + 1)" using assms(6) f level_le [OF b0(1), of cfg now] b0(2) by simp_all
  have "0 \<le> retry_of cfg ?f burst"
    using retry_exact [OF assms(3) fb] by (simp add: second_def)
  then have le: "now \<le> now'" using assms(7) by (simp add: f)
  have "level cfg b now' = level cfg ?b now'" by (rule level_twice [OF b0(1) le, symmetric]) (use b0(3) assms(5) in simp)
  also have "\<dots> = max 0 (?f - ?r * seconds (now' - now))"
    using level_decay [OF refill_pos [OF assms(3)], of ?b now'] decay_last [OF refill_pos [OF assms(3)], of b now] b0 le assms(5)
      level_nonneg [OF b0(1), of cfg now]
    by (simp add: level_def max_def)
  also have "\<dots> < of_int burst"
  proof (rule retry_enough [OF assms(3) fb _ assms(4)])
    show "seconds (retry_of cfg ?f burst) \<le> seconds (now' - now)"
      using assms(7) f by (simp add: seconds_def second_def divide_right_mono)
  qed
  finally show ?thesis using b by (simp add: lvl_def)
qed

text \<open>Without a failure of the address or of the account, their counts never grow.\<close>

definition no_fail :: "string \<Rightarrow> string \<Rightarrow> lim_event list \<Rightarrow> bool" where
  "no_fail ip user = list_all (\<lambda>ev. case ev of EvFail i u now now1 now2 \<Rightarrow> i \<noteq> ip \<and> (u \<noteq> user \<or> u = []) | _ \<Rightarrow> True)"

lemma lvl_nonneg: "fits t m \<Longrightarrow> 0 \<le> lvl cfg m k x"
  by (auto simp: lvl_def fits_def intro: level_nonneg split: option.splits)

lemma lvl_step_le:
  assumes "lim_inv T t l" "paced (idle_cutoff (lm_cfg l)) T t [ev]" "no_fail ip user [ev]" "snd (ev_span ev) \<le> x" "x < 2 ^ 63"
  shows "lvl (lm_cfg l) (lm_perIP (lim_step ev l)) ip x \<le> lvl (lm_cfg l) (lm_perIP l) ip x"
    "user \<noteq> [] \<Longrightarrow> lvl (lm_cfg l) (lm_perUser (lim_step ev l)) user x \<le> lvl (lm_cfg l) (lm_perUser l) user x"
proof -
  have p: "t \<le> snd (ev_span ev)" using assms(2) by (simp add: paced_Cons)
  note f = inv_fits [OF assms(1) p]
  note nn = lvl_nonneg [OF f(1)] lvl_nonneg [OF f(2)]
  have "lvl (lm_cfg l) (lm_perIP (lim_step ev l)) ip x \<le> lvl (lm_cfg l) (lm_perIP l) ip x \<and>
    (user \<noteq> [] \<longrightarrow> lvl (lm_cfg l) (lm_perUser (lim_step ev l)) user x \<le> lvl (lm_cfg l) (lm_perUser l) user x)"
  proof (cases ev)
    case (EvFail i u now now1 now2)
    with assms(3) show ?thesis by (auto simp: no_fail_def lim_step_def MarkFailure_def Let_def lvl_def)
  next
    case (EvSuccess i u now)
    with nn show ?thesis by (auto simp: lim_step_def MarkSuccess_def Let_def lvl_reset)
  next
    case (EvCheck i u now)
    with lvl_check [OF f, of x] assms(4,5) show ?thesis by simp
  next
    case (EvSweep now)
    with inv_sweep [OF assms(1), of now x] assms(2,4,5) show ?thesis by (simp add: lim_step_def sweepOnce_def)
  qed
  then show "lvl (lm_cfg l) (lm_perIP (lim_step ev l)) ip x \<le> lvl (lm_cfg l) (lm_perIP l) ip x"
    "user \<noteq> [] \<Longrightarrow> lvl (lm_cfg l) (lm_perUser (lim_step ev l)) user x \<le> lvl (lm_cfg l) (lm_perUser l) user x" by simp_all
qed

lemma time_at_le: "paced c T t evs \<Longrightarrow> t \<le> time_at t evs"
  by (induction evs arbitrary: T t) (fastforce simp: paced_Cons)+

lemma lvl_run_le:
  assumes "lim_inv T t l" "paced (idle_cutoff (lm_cfg l)) T t evs" "no_fail ip user evs" "time_at t evs \<le> x" "x < 2 ^ 63"
  shows "lvl (lm_cfg l) (lm_perIP (fold lim_step evs l)) ip x \<le> lvl (lm_cfg l) (lm_perIP l) ip x \<and>
    (user \<noteq> [] \<longrightarrow> lvl (lm_cfg l) (lm_perUser (fold lim_step evs l)) user x \<le> lvl (lm_cfg l) (lm_perUser l) user x)"
  using assms(1-4)
proof (induction evs arbitrary: T t l)
  case (Cons ev evs)
  have p: "paced (idle_cutoff (lm_cfg l)) T t [ev]" "no_fail ip user [ev]" "no_fail ip user evs"
    using Cons.prems(2,3) by (simp_all add: paced_Cons no_fail_def)
  have q: "paced (idle_cutoff (lm_cfg l)) (case ev of EvSweep now \<Rightarrow> now | _ \<Rightarrow> T) (snd (ev_span ev)) evs"
    using Cons.prems(2) by (simp add: paced_Cons)
  have "snd (ev_span ev) \<le> x" using time_at_le [OF q] Cons.prems(4) by simp
  note st = lvl_step_le [OF Cons.prems(1) p(1,2) this assms(5)]
  show ?case
    using Cons.IH [OF paced_step [OF Cons.prems(1) p(1)]] q p(3) Cons.prems(4) st by fastforce
qed simp



fun fails_of :: "string \<Rightarrow> lim_event list \<Rightarrow> nat" where
  "fails_of ip [] = 0"
| "fails_of ip (EvFail i user now now1 now2 # evs) = (if i = ip then 1 else 0) + fails_of ip evs"
| "fails_of ip (ev # evs) = fails_of ip evs"

definition count_of :: "string \<Rightarrow> Limiter \<Rightarrow> rat" where
  "count_of ip l = (case lm_perIP l ip of None \<Rightarrow> 0 | Some b \<Rightarrow> bk_failures b)"

lemma count_step:
  assumes "cf_RefillPerMinute (lm_cfg l) = 0" "0 \<le> count_of ip l" "\<forall>user now. ev \<noteq> EvSuccess ip user now"
  shows "count_of ip (lim_step ev l) \<ge>
     (if fails_of ip [ev] = 1 then min (count_of ip l + 1) (of_int (cf_Burst (lm_cfg l) + 1)) else count_of ip l)"
  using assms
  by (cases ev) (auto simp: count_of_def lim_step_def MarkFailure_def MarkSuccess_def CheckDetailed_def check_limiter_def
      check_user_def sweepOnce_def sweep_map_def add_failure_def getBucketLocked_def reset_bucket_def decayLocked_def Let_def
      split: option.splits prod.splits if_splits)

lemma fails_of_Cons: "fails_of ip (ev # evs) = fails_of ip [ev] + fails_of ip evs"
  by (cases ev) auto

lemma fails_of_one: "fails_of ip [ev] = 0 \<or> fails_of ip [ev] = 1"
  by (cases ev) auto

lemma count_run:
  "cf_RefillPerMinute (lm_cfg l) = 0 \<Longrightarrow> 1 \<le> cf_Burst (lm_cfg l) \<Longrightarrow> \<forall>user now. EvSuccess ip user now \<notin> set evs \<Longrightarrow>
   min (of_nat n) (of_int (cf_Burst (lm_cfg l))) \<le> count_of ip l \<Longrightarrow>
   min (of_nat (n + fails_of ip evs)) (of_int (cf_Burst (lm_cfg l))) \<le> count_of ip (fold lim_step evs l)"
proof (induction evs arbitrary: l n)
  case (Cons ev evs)
  let ?B = "of_int (cf_Burst (lm_cfg l)) :: rat"
  have nn: "0 \<le> count_of ip l" using Cons.prems(2,4) by (auto simp: min_def split: if_splits)
  have st: "count_of ip (lim_step ev l) \<ge>
     (if fails_of ip [ev] = 1 then min (count_of ip l + 1) (of_int (cf_Burst (lm_cfg l) + 1)) else count_of ip l)"
    by (rule count_step) (use Cons.prems nn in auto)
  have "min (of_nat (n + fails_of ip [ev])) ?B \<le> count_of ip (lim_step ev l)"
    using fails_of_one [of ip ev] st Cons.prems(4) by (auto simp: min_def split: if_splits)
  from Cons.IH [of "lim_step ev l" "n + fails_of ip [ev]"] this Cons.prems
  show ?case by (simp add: fails_of_Cons [of ip ev evs] add.assoc)
qed simp

text \<open>C27: with decay disabled, once an address has failed as often as its quota allows and has not
  authenticated since, every check of it is refused, whatever else the limiter is asked and
  however often it sweeps.\<close>

theorem lockout_without_decay:
  assumes "lim_ok l" "cf_RefillPerMinute (lm_cfg l) = 0"
    and "\<forall>user now. EvSuccess ip user now \<notin> set evs" "cf_Burst (lm_cfg l) \<le> int (fails_of ip evs)"
  shows "\<exists>d. fst (CheckDetailed (Some (fold lim_step evs l)) ip user now) = (False, d, BucketIP)"
proof -
  let ?l = "fold lim_step evs l"
  have cfg: "lm_cfg ?l = lm_cfg l" by simp
  have b: "1 \<le> cf_Burst (lm_cfg l)" using assms(1) by (simp add: lim_ok_def cfg_ok_def)
  have "0 \<le> count_of ip l"
    using assms(1) by (auto simp: lim_ok_def buckets_in_def count_of_def split: option.splits)
  then have "min (of_nat (0 + fails_of ip evs)) (of_int (cf_Burst (lm_cfg l))) \<le> count_of ip ?l"
    using b by (intro count_run assms) auto
  moreover have "of_int (cf_Burst (lm_cfg l)) \<le> (of_nat (fails_of ip evs) :: rat)"
    using assms(4) by (metis of_int_le_iff of_int_of_nat_eq)
  ultimately have c: "of_int (cf_Burst (lm_cfg l)) \<le> count_of ip ?l" by (simp add: min_def split: if_splits)
  have "lvl (lm_cfg l) (lm_perIP ?l) ip now = count_of ip ?l"
    using assms(2) by (auto simp: lvl_def count_of_def level_def decayLocked_def split: option.splits)
  with c show ?thesis
    using check_verdict [of ?l ip user now] assms(1) by (simp add: CheckDetailed_fst cfg lim_ok_def verdict_of_def)
qed

definition strict_config :: lim_Config where
  "strict_config = \<lparr>cf_Burst = 2, cf_UserBurst = 0, cf_RefillPerMinute = 0, cf_SweepInterval = 10\<rparr>"

theorem lockout_without_decay_witness:
  "\<exists>d. fst (CheckDetailed (Some (fold lim_step
      [EvFail ''a'' ''u'' 1 1 1, EvSweep 50, EvSuccess ''b'' ''u'' 60, EvFail ''a'' [] 70 70 70, EvSweep 900] (NewLimiter strict_config)))
      ''a'' [] 1000) = (False, d, BucketIP)"
  by (rule lockout_without_decay [OF NewLimiter_ok]) (auto simp: NewLimiter_def strict_config_def)

end
