(* ===== verification/Spec2Isabelle.thy ===== *)
theory Spec2Isabelle
  imports Pkt_Line Repo_Localfs Ref_Localfs Localfs_List Push_Localfs Commit_Gens Policy Auth Rate_Limit
begin

text \<open>
  A verification development of bucketvcs, a Git server whose only durable state is a bucket of an
  object store. Paths below are relative to \<open>src/internal\<close>.

  \<^bold>\<open>The program.\<close> A repository is a set of immutable objects in a bucket (packs, index files, ref
  shards, transaction records) and one mutable object, the root manifest, which names the live
  ones. A push uploads new objects and then replaces the root by a compare-and-swap
  (\<open>importer/buildcommit.go\<close>, \<open>repo/repo.go\<close>); a loser of the race retries on the new root. Readers go
  from the root to the refs (\<open>repo/refstore\<close>), to the object map and the commit graph (\<open>objindex\<close>,
  \<open>commitgraph\<close>) and to the pack indexes (\<open>pack\<close>). A collector marks objects no root names and deletes
  them after a retention (\<open>gc\<close>). Around this stand the wire framing (\<open>pktline\<close>), the rules that refuse a
  push (\<open>policy\<close>), the access decision (\<open>auth\<close>) and the limiter of failed credentials
  (\<open>auth/ratelimit\<close>).

  \<^bold>\<open>How the code is read.\<close> A Go \<open>[]byte\<close> is a list of 8-bit words and a Go string a list of characters;
  fixed-width integers are words where their width shows. Structs are records, error returns are left
  injections of a sum type, and a Go map is an association list in ascending key order (\<open>Go_Map\<close>).
  Code that touches the outside takes and returns a world of any type \<open>'w\<close>; a procedure that might not
  return is in the run type of \<open>Go_Run\<close>, where not returning is \<open>None\<close>, and the theorems about such
  procedures state that they return. The clock, the random source and the calls of Git are operations
  of a record over the same world, so a theorem holds whatever they answer.

  \<^bold>\<open>Foundations.\<close>
  \<^item> \<open>Bv_Prelude\<close>: shared types, strings, words and lists. \<open>Go_Map\<close>: maps. \<open>Go_Run\<close>: procedures.
    \<open>Go_Bytes\<close>: slices, \<open>sort.Search\<close> (with its contract) and tables of fixed-width rows.
  \<^item> \<open>Go_Json\<close>, \<open>Go_Codec\<close>, \<open>Json_Wf\<close>: \<open>encoding/json\<close> as far as the sources use it, from the scanner to
    struct decoding, and that the decoders invert the encoders.
  \<^item> \<open>Sha256\<close>, \<open>Sha1\<close>: the two hash functions, executable. \<open>Path_Match\<close>: \<open>path.Match\<close>.

  \<^bold>\<open>Storage.\<close>
  \<^item> \<open>Object_Store\<close>: the interface \<open>ObjectStore\<close> (\<open>storage\<close>) as a record of operations, and its documented
    laws as locale \<open>object_store\<close>. The laws are about a bucket that other clients may change between
    two operations, within a rely relation; \<open>atomic_store\<close> is the case where nobody else writes.
  \<^item> \<open>Localfs\<close>: the file-system store (\<open>storage/localfs\<close>) with its sidecar files, its cache of listings
    and a scripted failure of any system call. Its interpretation proves the laws for this store.
    \<open>Localfs_List\<close> has the page loop over \<open>List\<close>: it returns, with every key once and in order.

  \<^bold>\<open>Repositories.\<close>
  \<^item> \<open>Repo_Keys\<close> (\<open>repo/keys\<close>): the names of objects; two repositories never share a prefix.
  \<^item> \<open>Manifest\<close>, \<open>Manifest_Body\<close> (\<open>repo/manifest\<close>), \<open>Tx_Record\<close> (\<open>repo/tx\<close>): the root, its typed body and
    the transaction records, with their JSON forms and structural checks.
  \<^item> \<open>Repo_Engine\<close> (\<open>repo/repo.go\<close>): \<open>Open\<close>, \<open>Create\<close>, \<open>ReadRoot\<close> and the retry loop \<open>Commit\<close>, with what a
    commit does proved in locale \<open>repo_env\<close> over any store; \<open>Repo_Localfs\<close> interprets it on the
    file-system store with other processes at work.
  \<^item> \<open>Ref_Store\<close> (\<open>repo/refstore\<close>): the inline and the sharded layout of the refs. Locale \<open>ref_store\<close> is
    the contract both implement; \<open>Ref_Localfs\<close> has the refinement of the one by the other. Where two
    different shard contents would hash alike, the theorems say nothing: that is \<open>no_collision\<close>.
  \<^item> \<open>Build_Commit\<close> (\<open>importer\<close>): the push pipeline. \<open>Push_Safety\<close> proves it in locale \<open>pusher\<close>, and
    \<open>Push_Localfs\<close> interprets that and holds the properties.
  \<^item> \<open>Gc\<close>, \<open>Gc_Records\<close> (\<open>gc\<close>): mark, sweep and prune, and their records. \<open>Gc_Safety\<close>: what a collection
    may delete while others use the bucket (locale \<open>collected\<close>), and the accounts it leaves.

  \<^bold>\<open>Index files.\<close>
  \<^item> \<open>Pack_Index\<close> (\<open>pack/types.go\<close>, \<open>pack/index.go\<close>): the parser of pack indexes and its look-up, which
    agrees with a scan of the table on every accepted file.
  \<^item> \<open>Obj_Index\<close> (\<open>objindex\<close>), \<open>Commit_Graph\<close> (\<open>commitgraph\<close>): builder and readers of the two files, with
    round trips. \<open>Commit_Gens\<close>: the generation numbers.

  \<^bold>\<open>The edge.\<close>
  \<^item> \<open>Pkt_Line\<close> (\<open>pktline\<close>): frames and side bands, with round trips.
  \<^item> \<open>Policy\<close> (\<open>policy\<close>): protected refs and paths; the memoised matcher equals a plain one, and a push
    that passes breaks no rule. The budgets on patterns and changed paths are those of the code.
  \<^item> \<open>Auth\<close> (\<open>auth\<close>): scopes, tokens and the access decision. \<open>Rate_Limit\<close> (\<open>auth/ratelimit\<close>): the limiter
    over an explicit clock, with rational instead of floating-point arithmetic where the code uses
    \<open>float64\<close>.

  \<^bold>\<open>Fuel.\<close> \<open>computeGenerations\<close> runs with one more unit than there are records: each nested call has
  one more id under way, and an id under way ends the recursion, so the fuel is never used up
  (\<open>compute_ends\<close>). The JSON parser recurs with fuel given by the length of the text; a printed
  document needs no more (\<open>jfuel_le\<close>). The page loop over \<open>List\<close> has no fuel: in the model it may yield
  \<open>None\<close>, and the properties show that over the file-system store it returns.

  \<^bold>\<open>Not modelled.\<close>
  \<^item> Parts that are calls of other systems: the adapters of cloud stores (\<open>storage/s3compat\<close>, \<open>gcs\<close>,
    \<open>azureblob\<close>), the account database and everything kept in its tables (\<open>auth/sqlitestore\<close>,
    \<open>webhooks\<close>, \<open>buildtrigger\<close>, \<open>lfs\<close>), its replication (\<open>authreplica\<close>), identity tokens (\<open>oidc\<close>), and
    subprocesses (\<open>gitcli\<close>, \<open>hooks\<close>, \<open>mirror\<close>, \<open>exporter\<close>, most of \<open>maintenance\<close>).
  \<^item> Servers and user interfaces: \<open>gateway\<close>, \<open>sshd\<close>, \<open>web\<close>, \<open>gitbrowse\<close>, the session loops of \<open>gitproto\<close>
    and \<open>v2proto\<close>, and the command line.
  \<^item> Within modelled packages: inflating pack objects and resolving their deltas (\<open>pack/object.go\<close>,
    \<open>reader.go\<close>) and with them \<open>commitgraph.Build\<close>; multipart uploads and the offline verifier of
    \<open>storage/localfs\<close>; the first import of a repository; the hashing of secrets, which is third-party.
  \<^item> The reachability deltas (\<open>reachability\<close>), \<open>storage/fallback\<close>, \<open>proxiedurl\<close>, \<open>byob\<close>, \<open>replica\<close>,
    \<open>shiplog\<close> and \<open>auditlog\<close> could be modelled in the same way and are not.
  \<^item> Log lines, metrics and the exact text of wrapped errors.
\<close>

end
